(* ===== verification/Prelude.thy ===== *)
theory Prelude
  imports Main "HOL-Library.Word" "HOL-Library.Sublist"
begin

text \<open>
  What every component of the development shares.

  \<^item> The outcome of running a piece of C: it returns a value, the process ends with
    \<^verbatim>\<open>exit()\<close>, it runs into undefined behaviour (a \<open>fault\<close>), or it never gets
    further (it waits or loops for ever). All four carry the state in which that happens,
    so that a theorem can speak about the calls a process made before it ended.
  \<^item> A state-passing sequencing discipline over outcomes (\<open>retP\<close>, \<open>bindP\<close>, \<open>seqP\<close>,
    \<open>whenP\<close>), with the equations that execute a program symbolically.
  \<^item> Reachable states of a transition system, and the contract of an inductive invariant
    as a locale.
  \<^item> Generic lemmas on lists that several components use.
\<close>

named_theorems prog_simps \<open>equations that execute a program step by step\<close>
named_theorems frame \<open>what an operation leaves alone\<close>

section \<open>Outcomes\<close>

datatype fault =
    MissingFormatArgument   \<comment> \<open>a conversion of a format string without its argument\<close>
  | UseAfterFree            \<comment> \<open>reading memory that was released or moved\<close>
  | DoubleFree              \<comment> \<open>releasing memory that is not owned any more\<close>
  | NullDereference
  | OutOfBounds             \<comment> \<open>reading or writing past the end of an array\<close>
  | DivisionByZero
  | SignedOverflow          \<comment> \<open>a result that does not fit its signed type\<close>
  | AssertionFailed

datatype ('s, 'a) outcome =
    Ret 'a 's
  | Exited int 's
  | Fault fault 's
  | Stuck 's

type_synonym ('s, 'a) prog = "'s \<Rightarrow> ('s, 'a) outcome"

definition retP :: "'a \<Rightarrow> ('s, 'a) prog" where
  "retP a = (\<lambda>s. Ret a s)"

definition bindP :: "('s, 'a) prog \<Rightarrow> ('a \<Rightarrow> ('s, 'b) prog) \<Rightarrow> ('s, 'b) prog" where
  "bindP m f = (\<lambda>s. case m s of
      Ret a s' \<Rightarrow> f a s'
    | Exited c s' \<Rightarrow> Exited c s'
    | Fault e s' \<Rightarrow> Fault e s'
    | Stuck s' \<Rightarrow> Stuck s')"

definition seqP :: "('s, 'a) prog \<Rightarrow> ('s, 'b) prog \<Rightarrow> ('s, 'b) prog" where
  "seqP m k = bindP m (\<lambda>_. k)"

definition whenP :: "bool \<Rightarrow> ('s, 'a) prog \<Rightarrow> ('s, unit) prog" where
  "whenP b m = (if b then seqP m (retP ()) else retP ())"

definition getP :: "('s \<Rightarrow> 'a) \<Rightarrow> ('s, 'a) prog" where
  "getP f = (\<lambda>s. Ret (f s) s)"

definition modP :: "('s \<Rightarrow> 's) \<Rightarrow> ('s, unit) prog" where
  "modP f = (\<lambda>s. Ret () (f s))"

definition exitP :: "int \<Rightarrow> ('s, 'a) prog" where
  "exitP c = (\<lambda>s. Exited c s)"

definition faultP :: "fault \<Rightarrow> ('s, 'a) prog" where
  "faultP e = (\<lambda>s. Fault e s)"

definition stuckP :: "('s, 'a) prog" where
  "stuckP = (\<lambda>s. Stuck s)"

text \<open>A block of statements whose values are not used.\<close>

fun blockP :: "('s, unit) prog list \<Rightarrow> ('s, unit) prog" where
  "blockP [] = retP ()"
| "blockP (m # ms) = seqP m (blockP ms)"

definition voidP :: "('s, 'a) prog \<Rightarrow> ('s, unit) prog" where
  "voidP m = seqP m (retP ())"

fun final :: "('s, 'a) outcome \<Rightarrow> 's" where
  "final (Ret a s) = s"
| "final (Exited c s) = s"
| "final (Fault e s) = s"
| "final (Stuck s) = s"

fun returns :: "('s, 'a) outcome \<Rightarrow> bool" where
  "returns (Ret a s) = True"
| "returns _ = False"

lemma retP_apply [simp, prog_simps]: "retP a s = Ret a s"
  by (simp add: retP_def)

lemma getP_apply [simp, prog_simps]: "getP f s = Ret (f s) s"
  by (simp add: getP_def)

lemma modP_apply [simp, prog_simps]: "modP f s = Ret () (f s)"
  by (simp add: modP_def)

lemma exitP_apply [simp, prog_simps]: "exitP c s = Exited c s"
  by (simp add: exitP_def)

lemma faultP_apply [simp, prog_simps]: "faultP e s = Fault e s"
  by (simp add: faultP_def)

lemma stuckP_apply [simp, prog_simps]: "stuckP s = Stuck s"
  by (simp add: stuckP_def)

text \<open>
  The first part of a sequence is executed once; what follows is looked at only when the
  outcome of the first part is known.
\<close>

lemma bindP_apply [simp, prog_simps]:
  "bindP m f s = (case m s of
      Ret a s' \<Rightarrow> f a s'
    | Exited c s' \<Rightarrow> Exited c s'
    | Fault e s' \<Rightarrow> Fault e s'
    | Stuck s' \<Rightarrow> Stuck s')"
  by (simp add: bindP_def)

lemma seqP_apply [simp, prog_simps]: "seqP m k s = bindP m (\<lambda>_. k) s"
  unfolding seqP_def ..

lemma whenP_True [simp, prog_simps]: "whenP True m s = bindP m (\<lambda>_. retP ()) s"
  by (simp add: whenP_def)

lemma whenP_False [simp, prog_simps]: "whenP False m s = Ret () s"
  by (simp add: whenP_def)

lemma voidP_apply [simp, prog_simps]: "voidP m s = bindP m (\<lambda>_. retP ()) s"
  by (simp add: voidP_def)

text \<open>Inversion: how a sequence can have returned.\<close>

lemma bindP_RetD:
  "bindP m f s = Ret b t \<Longrightarrow> \<exists>a u. m s = Ret a u \<and> f a u = Ret b t"
  by (cases "m s") (simp_all add: bindP_def)

section \<open>Frames\<close>

text \<open>
  \<open>keeps f m\<close>: however \<open>m\<close> ends, it leaves the part \<open>f\<close> of the state alone.
  This is read off the text of a program by the rules below.
\<close>

definition keeps :: "('s \<Rightarrow> 'x) \<Rightarrow> ('s, 'a) prog \<Rightarrow> bool" where
  "keeps f m \<longleftrightarrow> (\<forall>s. f (final (m s)) = f s)"

lemma keepsD: "keeps f m \<Longrightarrow> m s = Ret a t \<Longrightarrow> f t = f s"
  unfolding keeps_def by (metis final.simps(1))

lemma keeps_bindP: "keeps f m \<Longrightarrow> (\<And>a. keeps f (g a)) \<Longrightarrow> keeps f (bindP m g)"
  unfolding keeps_def
proof
  fix s assume m: "\<forall>s. f (final (m s)) = f s" and g: "\<And>a. \<forall>s. f (final (g a s)) = f s"
  show "f (final (bindP m g s)) = f s"
    using m[rule_format, of s] g by (cases "m s") auto
qed

lemma keeps_seqP: "keeps f m \<Longrightarrow> keeps f k \<Longrightarrow> keeps f (seqP m k)"
  unfolding seqP_def by (rule keeps_bindP)

lemma keeps_trivial:
  "keeps f (retP a)" "keeps f (getP g)" "keeps f (faultP e)" "keeps f (exitP c)" "keeps f stuckP"
  by (simp_all add: keeps_def)

lemma keeps_modP: "(\<And>s. f (g s) = f s) \<Longrightarrow> keeps f (modP g)"
  by (simp add: keeps_def)

lemma keeps_whenP: "keeps f m \<Longrightarrow> keeps f (whenP b m)"
  unfolding whenP_def by (auto intro: keeps_seqP keeps_trivial)

lemma keeps_voidP: "keeps f m \<Longrightarrow> keeps f (voidP m)"
  unfolding voidP_def by (intro keeps_seqP keeps_trivial)

lemma keeps_branch:
  "keeps f m \<Longrightarrow> keeps f k \<Longrightarrow> keeps f (if b then m else k)"
  "keeps f m \<Longrightarrow> (\<And>x. keeps f (g x)) \<Longrightarrow> keeps f (case o' of None \<Rightarrow> m | Some x \<Rightarrow> g x)"
  "(\<And>x y. keeps f (h x y)) \<Longrightarrow> keeps f (case p of (x, y) \<Rightarrow> h x y)"
  "keeps f m \<Longrightarrow> (\<And>x ys. keeps f (j x ys)) \<Longrightarrow> keeps f (case l of [] \<Rightarrow> m | x # ys \<Rightarrow> j x ys)"
  by (auto split: option.split prod.split list.split)

lemmas keeps_rules = keeps_bindP keeps_seqP keeps_trivial keeps_whenP keeps_voidP keeps_branch

text \<open>\<open>preserves Q m\<close>: if \<open>Q\<close> holds before and \<open>m\<close> returns, \<open>Q\<close> holds after.\<close>

definition preserves :: "('s \<Rightarrow> bool) \<Rightarrow> ('s, 'a) prog \<Rightarrow> bool" where
  "preserves Q m \<longleftrightarrow> (\<forall>s a t. Q s \<longrightarrow> m s = Ret a t \<longrightarrow> Q t)"

lemma preservesD: "preserves Q m \<Longrightarrow> Q s \<Longrightarrow> m s = Ret a t \<Longrightarrow> Q t"
  unfolding preserves_def by blast

lemma preserves_bindP: "preserves Q m \<Longrightarrow> (\<And>a. preserves Q (g a)) \<Longrightarrow> preserves Q (bindP m g)"
  unfolding preserves_def by (metis bindP_RetD)

lemma preserves_seqP: "preserves Q m \<Longrightarrow> preserves Q k \<Longrightarrow> preserves Q (seqP m k)"
  unfolding seqP_def by (rule preserves_bindP)

lemma preserves_trivial:
  "preserves Q (retP a)" "preserves Q (getP g)" "preserves Q (faultP e)" "preserves Q (exitP c)"
  "preserves Q stuckP"
  by (simp_all add: preserves_def)

lemma preserves_modP: "(\<And>s. Q s \<Longrightarrow> Q (g s)) \<Longrightarrow> preserves Q (modP g)"
  by (simp add: preserves_def)

lemma preserves_whenP: "preserves Q m \<Longrightarrow> preserves Q (whenP b m)"
  unfolding whenP_def by (auto intro: preserves_seqP preserves_trivial)

lemma preserves_voidP: "preserves Q m \<Longrightarrow> preserves Q (voidP m)"
  unfolding voidP_def by (intro preserves_seqP preserves_trivial)

lemma preserves_branch:
  "preserves Q m \<Longrightarrow> preserves Q k \<Longrightarrow> preserves Q (if b then m else k)"
  "preserves Q m \<Longrightarrow> (\<And>x. preserves Q (g x)) \<Longrightarrow> preserves Q (case o' of None \<Rightarrow> m | Some x \<Rightarrow> g x)"
  "(\<And>x y. preserves Q (h x y)) \<Longrightarrow> preserves Q (case p of (x, y) \<Rightarrow> h x y)"
  by (auto split: option.split prod.split)

lemmas preserves_rules = preserves_bindP preserves_seqP preserves_trivial preserves_whenP
  preserves_voidP preserves_branch

lemma preserves_block: "(\<And>m. m \<in> set ms \<Longrightarrow> preserves Q m) \<Longrightarrow> preserves Q (blockP ms)"
  by (induction ms) (auto intro: preserves_trivial preserves_seqP)

text \<open>\<open>ensures Q m\<close>: whenever \<open>m\<close> returns, \<open>Q\<close> holds of the state it leaves.\<close>

definition ensures :: "('s \<Rightarrow> bool) \<Rightarrow> ('s, 'a) prog \<Rightarrow> bool" where
  "ensures Q m \<longleftrightarrow> (\<forall>s a t. m s = Ret a t \<longrightarrow> Q t)"

lemma ensuresD: "ensures Q m \<Longrightarrow> m s = Ret a t \<Longrightarrow> Q t"
  unfolding ensures_def by blast

lemma ensures_first: "ensures Q m \<Longrightarrow> (\<And>a. keeps Q (g a)) \<Longrightarrow> ensures Q (bindP m g)"
  unfolding ensures_def by (metis bindP_RetD keepsD)

lemma ensures_first_seq: "ensures Q m \<Longrightarrow> keeps Q k \<Longrightarrow> ensures Q (seqP m k)"
  unfolding seqP_def by (rule ensures_first)

lemma ensures_later: "(\<And>a. ensures Q (g a)) \<Longrightarrow> ensures Q (bindP m g)"
  unfolding ensures_def by (metis bindP_RetD)

lemma ensures_later_seq: "ensures Q k \<Longrightarrow> ensures Q (seqP m k)"
  unfolding seqP_def by (rule ensures_later)

section \<open>Reachable states and inductive invariants\<close>

inductive reach :: "('s \<Rightarrow> bool) \<Rightarrow> ('s \<Rightarrow> 's \<Rightarrow> bool) \<Rightarrow> 's \<Rightarrow> bool"
  for init :: "'s \<Rightarrow> bool" and step :: "'s \<Rightarrow> 's \<Rightarrow> bool" where
  start: "init s \<Longrightarrow> reach init step s"
| move: "reach init step s \<Longrightarrow> step s t \<Longrightarrow> reach init step t"

text \<open>
  The contract every state machine of the development meets: a property that holds at
  the start and that each step keeps. What follows for its reachable states is proved
  once, here.
\<close>

locale inductive_invariant =
  fixes init :: "'s \<Rightarrow> bool"
    and step :: "'s \<Rightarrow> 's \<Rightarrow> bool"
    and inv :: "'s \<Rightarrow> bool"
  assumes inv_init: "init s \<Longrightarrow> inv s"
    and inv_step: "inv s \<Longrightarrow> step s t \<Longrightarrow> inv t"
begin

lemma inv_reach: "reach init step s \<Longrightarrow> inv s"
  by (induction rule: reach.induct) (auto intro: inv_init inv_step)

lemma inv_steps: "step\<^sup>*\<^sup>* s t \<Longrightarrow> inv s \<Longrightarrow> inv t"
  by (induction rule: rtranclp_induct) (auto intro: inv_step)

end

lemma reach_steps: "step\<^sup>*\<^sup>* s t \<Longrightarrow> reach init step s \<Longrightarrow> reach init step t"
  by (induction rule: rtranclp_induct) (auto intro: reach.move)

section \<open>Lists\<close>

lemma last_index_unique:
  assumes "xs @ x # ys = xs' @ x # ys'" and "x \<notin> set ys" and "x \<notin> set ys'"
  shows "xs = xs' \<and> ys = ys'"
  using assms by (induction xs arbitrary: xs') (auto simp: Cons_eq_append_conv append_eq_Cons_conv)

lemma takeWhile_append_stop:
  "\<forall>c \<in> set xs. P c \<Longrightarrow> \<not> P y \<Longrightarrow> takeWhile P (xs @ y # ys) = xs"
  by (induction xs) auto

end
