(* ===== verification/CLib.thy ===== *)
theory CLib
  imports Prelude
begin

text \<open>
  The part of the C language and its standard library the server uses, on strings as lists
  of bytes: character classes, \<^verbatim>\<open>strncmp\<close>, \<^verbatim>\<open>strstr\<close> for one character,
  \<^verbatim>\<open>strtol\<close> in base 10, the formatted output of the \<^verbatim>\<open>printf\<close> family for the
  conversions that occur in the sources, and matching of a POSIX extended regular expression
  that is a sequence of literals and one captured \<^verbatim>\<open>[^x]*\<close>.
\<close>

abbreviation NUL :: char where "NUL \<equiv> CHR 0x00"
abbreviation CRLF :: string where "CRLF \<equiv> [CHR 0x0D, CHR 0x0A]"

section \<open>Characters and strings\<close>

text \<open>What a C function sees of a buffer: the bytes before the first NUL.\<close>

definition cstr :: "string \<Rightarrow> string" where
  "cstr s = takeWhile (\<lambda>c. c \<noteq> NUL) s"

definition c_tolower :: "char \<Rightarrow> char" where
  "c_tolower c = (let n = of_char c :: nat in if 65 \<le> n \<and> n \<le> 90 then char_of (n + 32) else c)"

definition c_isspace :: "char \<Rightarrow> bool" where
  "c_isspace c = (let n = of_char c :: nat in n = 32 \<or> 9 \<le> n \<and> n \<le> 13)"

definition c_isdigit :: "char \<Rightarrow> bool" where
  "c_isdigit c = (let n = of_char c :: nat in 48 \<le> n \<and> n \<le> 57)"

fun strncmp :: "string \<Rightarrow> string \<Rightarrow> nat \<Rightarrow> int" where
  "strncmp xs ys 0 = 0"
| "strncmp [] [] (Suc n) = 0"
| "strncmp [] (y # ys) (Suc n) = - int (of_char y)"
| "strncmp (x # xs) [] (Suc n) = int (of_char x)"
| "strncmp (x # xs) (y # ys) (Suc n) =
     (if x = y then strncmp xs ys n else int (of_char x) - int (of_char y))"

text \<open>\<^verbatim>\<open>strstr(s, ".")\<close> with a one-character needle: the suffix that starts at it.\<close>

fun strchr :: "string \<Rightarrow> char \<Rightarrow> string option" where
  "strchr [] c = None"
| "strchr (x # xs) c = (if x = c then Some (x # xs) else strchr xs c)"

lemma cstr_no_nul: "NUL \<notin> set (cstr s)"
  by (auto simp: cstr_def dest: set_takeWhileD)

lemma cstr_id [simp]: "NUL \<notin> set s \<Longrightarrow> cstr s = s"
  by (auto simp: cstr_def takeWhile_eq_all_conv)

lemma cstr_append_nul [simp]: "NUL \<notin> set s \<Longrightarrow> cstr (s @ NUL # t) = s"
  unfolding cstr_def by (rule takeWhile_append_stop) auto

lemma of_char_inj [simp]: "(of_char x :: nat) = of_char y \<longleftrightarrow> x = y"
  by (metis char_of_char)

lemma of_char_NUL: "(of_char x :: nat) = 0 \<longleftrightarrow> x = NUL"
proof -
  have "(of_char NUL :: nat) = 0" by simp
  then show ?thesis by (metis of_char_inj)
qed

lemma c_tolower_idem [simp]: "c_tolower (c_tolower c) = c_tolower c"
  by (simp add: c_tolower_def Let_def)

lemma of_char_tolower:
  "(of_char (c_tolower c) :: nat) =
     (if 65 \<le> (of_char c :: nat) \<and> (of_char c :: nat) \<le> 90 then of_char c + 32 else of_char c)"
  by (simp add: c_tolower_def Let_def)

lemma c_tolower_NUL_iff [simp]: "c_tolower c = NUL \<longleftrightarrow> c = NUL"
  using of_char_tolower[of c] by (auto simp: of_char_NUL[symmetric] split: if_splits)

lemma NUL_eq_c_tolower_iff [simp]: "NUL = c_tolower c \<longleftrightarrow> c = NUL"
  using c_tolower_NUL_iff[of c] by metis

lemma c_tolower_NUL [simp]: "c_tolower NUL = NUL"
  using c_tolower_NUL_iff[of NUL] by blast

lemma NUL_in_lower [simp]: "NUL \<in> c_tolower ` A \<longleftrightarrow> NUL \<in> A"
  by force

lemma c_tolower_space_iff [simp]: "c_tolower c = CHR '' '' \<longleftrightarrow> c = CHR '' ''"
proof -
  have "(of_char (CHR '' '') :: nat) = 32" by simp
  then have "c_tolower c = CHR '' '' \<longleftrightarrow> (of_char (c_tolower c) :: nat) = 32"
    using of_char_inj[of "c_tolower c" "CHR '' ''"] by simp
  moreover have "c = CHR '' '' \<longleftrightarrow> (of_char c :: nat) = 32"
    using \<open>(of_char (CHR '' '') :: nat) = 32\<close> of_char_inj[of c "CHR '' ''"] by simp
  moreover have "(of_char (c_tolower c) :: nat) = 32 \<longleftrightarrow> (of_char c :: nat) = 32"
    by (auto simp: of_char_tolower split: if_splits)
  ultimately show ?thesis by blast
qed

text \<open>A comparison over the whole length of the first string is a prefix test.\<close>

lemma strncmp_prefix: "NUL \<notin> set a \<Longrightarrow> strncmp a b (length a) = 0 \<longleftrightarrow> prefix a b"
proof (induction a arbitrary: b)
  case Nil
  then show ?case by simp
next
  case (Cons x a)
  then show ?case by (cases b) (auto simp: of_char_NUL)
qed

lemma strncmp_empty: "strncmp s [] (Suc 0) = 0 \<longleftrightarrow> s = [] \<or> hd s = NUL"
  by (cases s) (auto simp: of_char_NUL)

lemma strchr_None [simp]: "strchr s c = None \<longleftrightarrow> c \<notin> set s"
  by (induction s) auto

lemma strchr_Some: "strchr s c = Some t \<Longrightarrow> \<exists>u v. s = u @ t \<and> t = c # v \<and> c \<notin> set u"
proof (induction s)
  case Nil
  then show ?case by simp
next
  case (Cons x s)
  show ?case
  proof (cases "x = c")
    case True
    with Cons.prems show ?thesis by (intro exI[of _ "[]"] exI[of _ s]) auto
  next
    case False
    with Cons obtain u v where "s = u @ t" "t = c # v" "c \<notin> set u" by auto
    with False show ?thesis by (intro exI[of _ "x # u"] exI[of _ v]) auto
  qed
qed

section \<open>Integers: strtol and decimal output\<close>

definition LONG_MAX :: int where "LONG_MAX = 2 ^ 63 - 1"
definition LONG_MIN :: int where "LONG_MIN = - (2 ^ 63)"

fun digits_val :: "int \<Rightarrow> string \<Rightarrow> int" where
  "digits_val a [] = a"
| "digits_val a (c # cs) =
     (if c_isdigit c then digits_val (10 * a + (int (of_char c) - 48)) cs else a)"

definition clamp_long :: "int \<Rightarrow> int" where
  "clamp_long v = (if v < LONG_MIN then LONG_MIN else if LONG_MAX < v then LONG_MAX else v)"

text \<open>
  \<^verbatim>\<open>strtol(s, NULL, 10)\<close>: white space, an optional sign, digits; 0 without digits; the
  result is cut to the range of a 64-bit \<^verbatim>\<open>long\<close>.
\<close>

definition strtol10 :: "string \<Rightarrow> int" where
  "strtol10 s = clamp_long (case dropWhile c_isspace s of
      [] \<Rightarrow> 0
    | c # cs \<Rightarrow>
        if c = CHR ''-'' then - digits_val 0 cs
        else if c = CHR ''+'' then digits_val 0 cs
        else digits_val 0 (c # cs))"

definition digit :: "nat \<Rightarrow> char" where
  "digit n = char_of (48 + n)"

fun dec_nat :: "nat \<Rightarrow> string" where
  "dec_nat n = (if n < 10 then [digit n] else dec_nat (n div 10) @ [digit (n mod 10)])"

declare dec_nat.simps [simp del]

definition dec_int :: "int \<Rightarrow> string" where
  "dec_int i = (if i < 0 then CHR ''-'' # dec_nat (nat (- i)) else dec_nat (nat i))"

lemma of_char_digit: "n < 10 \<Longrightarrow> (of_char (digit n) :: nat) = 48 + n"
  by (simp add: digit_def)

lemma c_isdigit_digit [simp]: "n < 10 \<Longrightarrow> c_isdigit (digit n)"
  by (simp add: c_isdigit_def of_char_digit Let_def)

lemma digits_val_append:
  "\<forall>c \<in> set xs. c_isdigit c \<Longrightarrow> digits_val a (xs @ ys) = digits_val (digits_val a xs) ys"
  by (induction xs arbitrary: a) auto

lemma dec_nat_digits: "c \<in> set (dec_nat n) \<Longrightarrow> c_isdigit c"
proof (induction n rule: dec_nat.induct)
  case (1 n)
  then show ?case by (subst (asm) (2) dec_nat.simps) (auto split: if_splits)
qed

lemma digits_val_dec_nat: "digits_val 0 (dec_nat n) = int n"
proof (induction n rule: dec_nat.induct)
  case (1 n)
  show ?case
  proof (cases "n < 10")
    case True
    then show ?thesis by (simp add: dec_nat.simps[of n] of_char_digit)
  next
    case False
    with 1 have "digits_val 0 (dec_nat (n div 10)) = int (n div 10)" by simp
    moreover have "10 * int (n div 10) + int (n mod 10) = int n" by presburger
    ultimately show ?thesis using False
      by (simp add: dec_nat.simps[of n] digits_val_append dec_nat_digits of_char_digit)
  qed
qed

lemma dec_nat_nonempty [simp]: "dec_nat n \<noteq> []"
  by (subst dec_nat.simps) simp

lemma length_dec_nat: "n < 10 ^ Suc k \<Longrightarrow> length (dec_nat n) \<le> Suc k"
proof (induction k arbitrary: n)
  case 0
  then show ?case by (simp add: dec_nat.simps)
next
  case (Suc k)
  then have "n div 10 < 10 ^ Suc k" by (simp add: less_mult_imp_div_less)
  then have "length (dec_nat (n div 10)) \<le> Suc k" by (rule Suc.IH)
  then show ?case by (subst dec_nat.simps) simp
qed

lemma dec_nat_hd:
  obtains c cs where "dec_nat n = c # cs" and "c_isdigit c"
  using dec_nat_nonempty[of n] dec_nat_digits[of _ n] by (cases "dec_nat n") auto

lemma digit_not_space: "c_isdigit c \<Longrightarrow> \<not> c_isspace c"
  by (auto simp: c_isdigit_def c_isspace_def Let_def)

lemma digit_not_sign: "c_isdigit c \<Longrightarrow> c \<noteq> CHR ''-'' \<and> c \<noteq> CHR ''+'' \<and> c \<noteq> NUL"
  by (auto simp: c_isdigit_def Let_def)

lemma dec_int_no_nul [simp]: "NUL \<notin> set (dec_int i)"
proof -
  have "NUL \<notin> set (dec_nat n)" for n using dec_nat_digits digit_not_sign by blast
  then show ?thesis by (simp add: dec_int_def)
qed

text \<open>Reading back what was printed: every value of a \<^verbatim>\<open>long\<close> survives.\<close>

lemma strtol10_dec_int:
  assumes "LONG_MIN \<le> i" and "i \<le> LONG_MAX"
  shows "strtol10 (dec_int i) = i"
proof (cases "i < 0")
  case True
  have "\<not> c_isspace (CHR ''-'')" by (simp add: c_isspace_def Let_def)
  with True assms show ?thesis
    by (simp add: strtol10_def dec_int_def clamp_long_def digits_val_dec_nat)
next
  case False
  obtain c cs where c: "dec_nat (nat i) = c # cs" "c_isdigit c" by (rule dec_nat_hd)
  have "digits_val 0 (c # cs) = i" using False digits_val_dec_nat[of "nat i"] c by simp
  with False assms c show ?thesis
    by (simp add: strtol10_def dec_int_def clamp_long_def digit_not_space digit_not_sign
        del: digits_val.simps)
qed

section \<open>Formatted output\<close>

text \<open>
  A format string is the list of its literal pieces and conversions: \<^verbatim>\<open>%d\<close>,
  \<^verbatim>\<open>%i\<close> and \<^verbatim>\<open>%ld\<close> are \<open>FD\<close>, \<^verbatim>\<open>%s\<close> is \<open>FS\<close>, \<^verbatim>\<open>%X\<close> is \<open>FX\<close>.
  Arguments are integers (of any width) or C strings. A conversion whose argument is missing
  is undefined behaviour in C: \<open>None\<close>. Surplus arguments are ignored.
\<close>

datatype fmt = FL string | FD | FS | FX

datatype arg = AI int | AS string

definition hex_digit :: "nat \<Rightarrow> char" where
  "hex_digit n = (if n < 10 then char_of (48 + n) else char_of (55 + n))"

fun hex_nat :: "nat \<Rightarrow> string" where
  "hex_nat n = (if n < 16 then [hex_digit n] else hex_nat (n div 16) @ [hex_digit (n mod 16)])"

declare hex_nat.simps [simp del]

fun vformat :: "fmt list \<Rightarrow> arg list \<Rightarrow> string option" where
  "vformat [] as = Some []"
| "vformat (FL t # fs) as = map_option ((@) t) (vformat fs as)"
| "vformat (FD # fs) (AI i # as) = map_option ((@) (dec_int i)) (vformat fs as)"
| "vformat (FX # fs) (AI i # as) =
     map_option ((@) (hex_nat (nat (i mod 2 ^ 32)))) (vformat fs as)"
| "vformat (FS # fs) (AS s # as) = map_option ((@) s) (vformat fs as)"
| "vformat (f # fs) as = None"

text \<open>Do the conversions find their arguments, and the text they then give.\<close>

fun fmt_ok :: "fmt list \<Rightarrow> arg list \<Rightarrow> bool" where
  "fmt_ok [] as = True"
| "fmt_ok (FL t # fs) as = fmt_ok fs as"
| "fmt_ok (FD # fs) (AI i # as) = fmt_ok fs as"
| "fmt_ok (FX # fs) (AI i # as) = fmt_ok fs as"
| "fmt_ok (FS # fs) (AS s # as) = fmt_ok fs as"
| "fmt_ok (f # fs) as = False"

definition rendered :: "fmt list \<Rightarrow> arg list \<Rightarrow> string" where
  "rendered f as = the (vformat f as)"

lemma vformat_None: "vformat f as = None \<longleftrightarrow> \<not> fmt_ok f as"
  by (induction f as rule: vformat.induct) auto

lemma vformat_rendered: "fmt_ok f as \<Longrightarrow> vformat f as = Some (rendered f as)"
  using vformat_None[of f as] by (auto simp: rendered_def)

text \<open>\<^verbatim>\<open>vsnprintf\<close> into a buffer of \<open>n\<close> bytes keeps room for the final NUL.\<close>

definition snprintf_cut :: "nat \<Rightarrow> string \<Rightarrow> string" where
  "snprintf_cut n s = take (n - 1) s"

section \<open>Regular expressions\<close>

datatype re = ReLit string | ReGroup "char \<Rightarrow> bool"

text \<open>
  A literal matches case-insensitively (\<^verbatim>\<open>REG_ICASE\<close>); \<open>ReGroup P\<close> is a captured
  \<open>(P*)\<close>, which takes the longest run that lets the rest match. The result lists the start
  and end offsets of the groups (\<^verbatim>\<open>rm_so\<close>, \<^verbatim>\<open>rm_eo\<close>).
\<close>

definition lit_eq :: "string \<Rightarrow> string \<Rightarrow> bool" where
  "lit_eq t s = (map c_tolower s = map c_tolower t)"

fun first_some :: "'a option list \<Rightarrow> 'a option" where
  "first_some [] = None"
| "first_some (None # xs) = first_some xs"
| "first_some (Some x # xs) = Some x"

fun re_match :: "nat \<Rightarrow> re list \<Rightarrow> string \<Rightarrow> (nat \<times> nat) list option" where
  "re_match off [] s = Some []"
| "re_match off (ReLit t # rs) s =
     (if length t \<le> length s \<and> lit_eq t (take (length t) s)
      then re_match (off + length t) rs (drop (length t) s) else None)"
| "re_match off (ReGroup P # rs) s =
     first_some (map (\<lambda>k. map_option ((#) (off, off + k)) (re_match (off + k) rs (drop k s)))
       (rev [0..<Suc (length (takeWhile P s))]))"

lemma first_some_None: "first_some xs = None \<longleftrightarrow> set xs \<subseteq> {None}"
  by (induction xs rule: first_some.induct) auto

lemma first_some_SomeD: "first_some xs = Some y \<Longrightarrow> Some y \<in> set xs"
  by (induction xs rule: first_some.induct) auto

lemma first_some_unique:
  assumes "Some y \<in> set xs" and "\<And>z. Some z \<in> set xs \<Longrightarrow> z = y"
  shows "first_some xs = Some y"
proof (cases "first_some xs")
  case None
  with assms(1) show ?thesis by (auto simp: first_some_None)
next
  case (Some z)
  then have "Some z \<in> set xs" by (rule first_some_SomeD)
  with assms(2) Some show ?thesis by simp
qed

end
