(* ===== verification/Extern.thy ===== *)
theory Extern
  imports CLib
begin

text \<open>
  The world around the server's own code. Every call that leaves the code (to the kernel, to
  libc, to libev) is a value of type \<open>call\<close>; a process records the calls it has made, in
  order, and an arbitrary environment answers each of them, seeing everything the process did
  before. No assumption on the answers is built in. The functions of the string library sds,
  which is not part of the repository, are parameters of the same environment; what its
  documentation promises is the predicate \<open>sds_doc\<close>.
\<close>

section \<open>Calls out of the code\<close>

datatype signal = SIGINT | SIGTERM | SIGKILL | SIGHUP

datatype (plugins only: code size) call =
    \<comment> \<open>sockets\<close>
    Getaddrinfo string | Freeaddrinfo | Socket string | Setsockopt int | Bind int string
  | Listen int int | Fcntl_nonblock int | Accept int | Connect int string
  | Recv int nat | Send int string | Shutdown int | Getpeername int | Inet_ntop int
  | Sendmsg_fd int int | Recvmsg_fd int
    \<comment> \<open>files\<close>
  | Access string | Open string | Fstat int | Read int nat | Close int | Dup int
  | Stat string | Mkdir string | Unlink string | Chmod string | Chdir string | Umask | Ini_close
    \<comment> \<open>processes\<close>
  | Fork | Setsid | Sigaction signal | Getrlimit | Kill int signal | Waitpid int | Printf string
    \<comment> \<open>memory, time, randomness, regular expressions\<close>
  | Malloc string | Free string | Random | Gettimeofday | Srand int | Sleep | Regcomp string | Regfree
    \<comment> \<open>libev\<close>
  | Ev_default_loop | Ev_signal_start signal | Ev_io_start int | Ev_io_stop int
  | Ev_timer_start int | Ev_timer_again int | Ev_timer_stop int | Ev_run | Ev_break
  | Ev_suspend | Ev_loop_destroy

text \<open>The answer: the returned number, the value left in \<^verbatim>\<open>errno\<close> (0: untouched), bytes.\<close>

record sysret =
  sr_val :: int
  sr_errno :: int
  sr_data :: string

record env =
  os :: "call list \<Rightarrow> call \<Rightarrow> sysret"
  sched :: "nat \<Rightarrow> nat"                \<comment> \<open>steps the logger thread makes in the n-th nap\<close>
  clock :: "nat \<Rightarrow> string"             \<comment> \<open>the text of the n-th time stamp\<close>
  lres :: "nat \<Rightarrow> int"                 \<comment> \<open>result of the n-th fallible call of the logger\<close>
  strerror_text :: "int \<Rightarrow> string"
  fuel :: nat                          \<comment> \<open>rounds granted to a loop that the world ends\<close>
  child_pid :: "nat \<Rightarrow> int"           \<comment> \<open>own process number of the child of the n-th fork\<close>
  uninit :: "nat \<Rightarrow> char"              \<comment> \<open>bytes of fresh memory nobody has written\<close>
  sds_null :: string                   \<comment> \<open>what \<^verbatim>\<open>sdsnew(NULL)\<close> gives\<close>
  sds_newlen :: "string \<Rightarrow> string"
  sds_catlen :: "string \<Rightarrow> string \<Rightarrow> string"
  sds_catprintf :: "string \<Rightarrow> fmt list \<Rightarrow> arg list \<Rightarrow> string option"
  sds_lower :: "string \<Rightarrow> string"
  sds_moves :: "string \<Rightarrow> string \<Rightarrow> bool" \<comment> \<open>does appending give the string a new address?\<close>

section \<open>The state every process has\<close>

record base =
  hist :: "call list"
  errno :: int
  pid :: int
  sds_live :: int                      \<comment> \<open>sds strings allocated and not yet freed, log messages apart\<close>

text \<open>The value of \<^verbatim>\<open>errno\<close> after a call, from the calls before it and the value it had.\<close>

definition errno_after :: "env \<Rightarrow> call list \<Rightarrow> call \<Rightarrow> int \<Rightarrow> int" where
  "errno_after E h c e = (let r = os E h c in if sr_errno r = 0 then e else sr_errno r)"

definition sysP :: "env \<Rightarrow> call \<Rightarrow> ('a base_scheme, sysret) prog" where
  "sysP E c = (\<lambda>s. Ret (os E (hist s) c)
     (s\<lparr>hist := hist s @ [c], errno := errno_after E (hist s) c (errno s)\<rparr>))"

definition callP :: "env \<Rightarrow> call \<Rightarrow> ('a base_scheme, int) prog" where
  "callP E c = bindP (sysP E c) (\<lambda>r. retP (sr_val r))"

lemma sysP_apply [simp, prog_simps]:
  "sysP E c s = Ret (os E (hist s) c) (s\<lparr>hist := hist s @ [c],
     errno := errno_after E (hist s) c (errno s)\<rparr>)"
  by (simp add: sysP_def)

lemma callP_apply [simp, prog_simps]:
  "callP E c s = Ret (sr_val (os E (hist s) c)) (s\<lparr>hist := hist s @ [c],
     errno := errno_after E (hist s) c (errno s)\<rparr>)"
  by (simp add: callP_def)

text \<open>
  A busy loop \<^verbatim>\<open>while (c() != 0);\<close> over a call. It ends only when the world answers 0, so it
  is given a number of rounds; running out of them stands for not ending.
\<close>

fun until_zero :: "env \<Rightarrow> nat \<Rightarrow> call \<Rightarrow> ('a base_scheme, unit) prog" where
  "until_zero E 0 c = stuckP"
| "until_zero E (Suc n) c = bindP (callP E c) (\<lambda>r. if r \<noteq> 0 then until_zero E n c else retP ())"

lemma until_zero_run:
  assumes "sr_val (os E (hist s @ replicate k c) c) = 0"
    and "\<And>j. j < k \<Longrightarrow> sr_val (os E (hist s @ replicate j c) c) \<noteq> 0"
    and "k < n"
  shows "\<exists>e. until_zero E n c s = Ret () (s\<lparr>hist := hist s @ replicate (Suc k) c, errno := e\<rparr>)"
  using assms
proof (induction k arbitrary: s n)
  case 0
  then show ?case by (cases n) auto
next
  case (Suc k)
  then obtain m where n: "n = Suc m" by (cases n) auto
  have r: "sr_val (os E (hist s) c) \<noteq> 0" using Suc.prems(2)[of 0] by simp
  define e where "e = errno_after E (hist s) c (errno s)"
  let ?s = "s\<lparr>hist := hist s @ [c], errno := e\<rparr>"
  have eq: "hist ?s @ replicate j c = hist s @ replicate (Suc j) c" for j by simp
  have "\<exists>e. until_zero E m c ?s = Ret () (?s\<lparr>hist := hist ?s @ replicate (Suc k) c, errno := e\<rparr>)"
  proof (rule Suc.IH)
    show "sr_val (os E (hist ?s @ replicate k c) c) = 0"
      using Suc.prems(1) by (simp only: eq)
    show "sr_val (os E (hist ?s @ replicate j c) c) \<noteq> 0" if "j < k" for j
      using Suc.prems(2)[of "Suc j"] that by (simp only: eq) simp
    show "k < m" using Suc.prems(3) n by simp
  qed
  with r n show ?case by (auto simp: e_def)
qed

text \<open>The least number of rounds, from any bound on it.\<close>

lemma first_zero:
  assumes "sr_val (os E (h @ replicate k0 c) c) = 0" and "k0 < n"
  obtains k where "sr_val (os E (h @ replicate k c) c) = 0" and "k < n"
    and "\<And>j. j < k \<Longrightarrow> sr_val (os E (h @ replicate j c) c) \<noteq> 0"
proof -
  let ?P = "\<lambda>k. sr_val (os E (h @ replicate k c) c) = 0"
  have "?P (LEAST k. ?P k)" "(LEAST k. ?P k) < n" "\<And>j. j < (LEAST k. ?P k) \<Longrightarrow> \<not> ?P j"
    using LeastI[of ?P k0] Least_le[of ?P k0] not_less_Least[of _ ?P] assms by auto
  then show thesis by (rule that)
qed

lemma until_zero_never:
  "(\<And>h. sr_val (os E h c) \<noteq> 0) \<Longrightarrow> \<exists>t. until_zero E n c s = Stuck t"
  by (induction n arbitrary: s) simp_all

section \<open>sds strings\<close>

text \<open>
  A variable of type \<^verbatim>\<open>sds\<close> that owns its string: NULL, a live string, or an address
  that is not valid any more.
\<close>

datatype sds = SNull | SLive string | SFreed

definition sds_new :: "env \<Rightarrow> string \<Rightarrow> ('a base_scheme, sds) prog" where
  "sds_new E t = (\<lambda>s. Ret (SLive (sds_newlen E t)) (s\<lparr>sds_live := sds_live s + 1\<rparr>))"

definition sds_get :: "sds \<Rightarrow> ('a base_scheme, string) prog" where
  "sds_get v = (case v of
      SLive t \<Rightarrow> retP t
    | SNull \<Rightarrow> faultP NullDereference
    | SFreed \<Rightarrow> faultP UseAfterFree)"

definition sds_free :: "sds \<Rightarrow> ('a base_scheme, unit) prog" where
  "sds_free v = (case v of
      SLive t \<Rightarrow> modP (\<lambda>s. s\<lparr>sds_live := sds_live s - 1\<rparr>)
    | SNull \<Rightarrow> retP ()
    | SFreed \<Rightarrow> faultP DoubleFree)"

text \<open>\<^verbatim>\<open>v = sdscatlen(v, t, n)\<close> and \<^verbatim>\<open>v = sdscatprintf(v, fmt, ...)\<close>: the new value of \<^verbatim>\<open>v\<close>.\<close>

definition sds_cat :: "env \<Rightarrow> sds \<Rightarrow> string \<Rightarrow> ('a base_scheme, sds) prog" where
  "sds_cat E v t = bindP (sds_get v) (\<lambda>c. retP (SLive (sds_catlen E c t)))"

definition sds_printf :: "env \<Rightarrow> sds \<Rightarrow> fmt list \<Rightarrow> arg list \<Rightarrow> ('a base_scheme, sds) prog" where
  "sds_printf E v f as = bindP (sds_get v) (\<lambda>c.
     case sds_catprintf E c f as of
       None \<Rightarrow> faultP MissingFormatArgument
     | Some t \<Rightarrow> retP (SLive t))"

text \<open>
  \<^verbatim>\<open>sdscat(v, t)\<close> with its result thrown away: \<^verbatim>\<open>v\<close> still holds the address it had,
  which is the string only if appending did not move it.
\<close>

definition sds_cat_dropped :: "env \<Rightarrow> sds \<Rightarrow> string \<Rightarrow> ('a base_scheme, sds) prog" where
  "sds_cat_dropped E v t = bindP (sds_get v) (\<lambda>c.
     retP (if sds_moves E c t then SFreed else SLive (sds_catlen E c t)))"

text \<open>What the documentation of sds says of these functions.\<close>

definition sds_doc :: "env \<Rightarrow> bool" where
  "sds_doc E \<longleftrightarrow>
     (\<forall>t. sds_newlen E t = t) \<and>
     (\<forall>c t. sds_catlen E c t = c @ t) \<and>
     (\<forall>c f as. sds_catprintf E c f as = map_option ((@) c) (vformat f as)) \<and>
     (\<forall>t. sds_lower E t = map c_tolower t)"

lemma sds_docD:
  assumes "sds_doc E"
  shows "sds_newlen E t = t" and "sds_catlen E c t = c @ t"
    and "sds_catprintf E c f as = map_option ((@) c) (vformat f as)"
    and "sds_lower E t = map c_tolower t"
  using assms by (simp_all add: sds_doc_def)

lemma sds_new_apply [simp, prog_simps]:
  "sds_new E t s = Ret (SLive (sds_newlen E t)) (s\<lparr>sds_live := sds_live s + 1\<rparr>)"
  by (simp add: sds_new_def)

lemma sds_get_simps [simp, prog_simps]:
  "sds_get (SLive t) s = Ret t s"
  "sds_get SNull s = Fault NullDereference s"
  "sds_get SFreed s = Fault UseAfterFree s"
  by (simp_all add: sds_get_def)

lemma sds_free_simps [simp, prog_simps]:
  "sds_free (SLive t) s = Ret () (s\<lparr>sds_live := sds_live s - 1\<rparr>)"
  "sds_free SNull s = Ret () s"
  "sds_free SFreed s = Fault DoubleFree s"
  by (simp_all add: sds_free_def)

lemma sds_cat_live [simp, prog_simps]:
  "sds_cat E (SLive c) t s = Ret (SLive (sds_catlen E c t)) s"
  by (simp add: sds_cat_def)

lemma sds_cat_dropped_live [simp, prog_simps]:
  "sds_cat_dropped E (SLive c) t s =
     Ret (if sds_moves E c t then SFreed else SLive (sds_catlen E c t)) s"
  by (simp add: sds_cat_dropped_def)

lemma sds_printf_live:
  "sds_doc E \<Longrightarrow> vformat f as = Some t \<Longrightarrow>
   sds_printf E (SLive c) f as s = Ret (SLive (c @ t)) s"
  by (simp add: sds_printf_def sds_docD)

text \<open>The sds library as documented, with a given answer to whether appending moves a string.\<close>

definition documented_sds :: "(string \<Rightarrow> string \<Rightarrow> bool) \<Rightarrow> env \<Rightarrow> env" where
  "documented_sds mv E = E\<lparr>
     sds_newlen := (\<lambda>t. t),
     sds_catlen := (@),
     sds_catprintf := (\<lambda>c f as. map_option ((@) c) (vformat f as)),
     sds_lower := map c_tolower,
     sds_moves := mv\<rparr>"

lemma sds_doc_documented [simp]: "sds_doc (documented_sds mv E)"
  by (simp add: sds_doc_def documented_sds_def)

text \<open>
  An environment for concrete runs: every call succeeds with the value 0, the logger thread
  gets a hundred steps in every nap, sds behaves as documented and never moves a string.
\<close>

definition calm_env :: env where
  "calm_env = documented_sds (\<lambda>_ _. False) \<lparr>
     os = (\<lambda>_ _. \<lparr>sr_val = 0, sr_errno = 0, sr_data = []\<rparr>),
     sched = (\<lambda>_. 100),
     clock = (\<lambda>_. ''now''),
     lres = (\<lambda>_. 0),
     strerror_text = (\<lambda>_. ''error''),
     fuel = 100,
     child_pid = (\<lambda>n. 1000 + int n),
     uninit = (\<lambda>_. NUL),
     sds_null = [],
     sds_newlen = (\<lambda>t. t),
     sds_catlen = (@),
     sds_catprintf = (\<lambda>_ _ _. None),
     sds_lower = (\<lambda>t. t),
     sds_moves = (\<lambda>_ _. False)\<rparr>"

lemma calm_env_simps [simp]:
  "sds_doc calm_env" "lres calm_env n = 0" "sched calm_env n = 100" "clock calm_env n = ''now''"
  "os calm_env h c = \<lparr>sr_val = 0, sr_errno = 0, sr_data = []\<rparr>" "fuel calm_env = 100"
  by (simp_all add: calm_env_def documented_sds_def sds_doc_def)

end
