(* ===== verification/Logger.thy ===== *)
theory Logger
  imports Extern
begin

text \<open>
  The logger, \<^verbatim>\<open>src/src/cew_logger.c\<close> with \<^verbatim>\<open>src/include/cew_logger.h\<close>: callers
  put formatted messages into a tail queue, a thread of its own writes them to the log file.
  This theory has the logger's global state, every function that a caller uses, and the
  thread as a step function with one step per block of its loop. The thread and its callers
  interleaved are the subject of \<^verbatim>\<open>Logger_Concurrency\<close>.
\<close>

section \<open>Data\<close>

datatype tLoggerType = eERROR | eWARNING | eINFO | eDEBUG

text \<open>The enum's values; the compiler represents it as an unsigned 32-bit number.\<close>

fun level_of :: "tLoggerType \<Rightarrow> 32 word" where
  "level_of eERROR = 0"
| "level_of eWARNING = 1"
| "level_of eINFO = 2"
| "level_of eDEBUG = 3"

fun pcLogTypeMsg :: "tLoggerType \<Rightarrow> string" where
  "pcLogTypeMsg eERROR = ''Error''"
| "pcLogTypeMsg eWARNING = ''Warning''"
| "pcLogTypeMsg eINFO = ''Info''"
| "pcLogTypeMsg eDEBUG = ''Debug''"

lemma level_of_inj [simp]: "level_of a = level_of b \<longleftrightarrow> a = b"
  by (cases a; cases b) simp_all

instantiation tLoggerType :: linorder
begin

definition less_eq_tLoggerType :: "tLoggerType \<Rightarrow> tLoggerType \<Rightarrow> bool" where
  "less_eq_tLoggerType a b \<longleftrightarrow> level_of a \<le> level_of b"

definition less_tLoggerType :: "tLoggerType \<Rightarrow> tLoggerType \<Rightarrow> bool" where
  "less_tLoggerType a b \<longleftrightarrow> level_of a < level_of b"

instance
  by intro_classes (auto simp: less_eq_tLoggerType_def less_tLoggerType_def order_less_le)

end

record tsLogSettings =
  iPollingInterval :: int
  iLoggerQueueSize :: int
  iBulkWrite :: int
  iCurrLogLevel :: "32 word"

definition default_log_settings :: tsLogSettings where
  "default_log_settings = \<lparr>iPollingInterval = 1000, iLoggerQueueSize = 50, iBulkWrite = 0,
     iCurrLogLevel = level_of eWARNING\<rparr>"

definition LOGGER_MAX_USER_MSG_LEN :: nat where "LOGGER_MAX_USER_MSG_LEN = 1024"
abbreviation (input) LOG_EXIT_SUCCESS :: int where "LOG_EXIT_SUCCESS \<equiv> 0"
abbreviation (input) LOG_EXIT_FAILURE :: int where "LOG_EXIT_FAILURE \<equiv> 1"
abbreviation (input) LOG_NOINIT :: int where "LOG_NOINIT \<equiv> - 1"
abbreviation (input) LOG_NOLVL :: int where "LOG_NOLVL \<equiv> - 2"
abbreviation (input) LOG_SHUTTING_DOWN :: int where "LOG_SHUTTING_DOWN \<equiv> - 3"
abbreviation (input) ENOBUFS :: int where "ENOBUFS \<equiv> 105"
abbreviation (input) EBUSY :: int where "EBUSY \<equiv> 16"

text \<open>Where the thread is in its loop, and its local variables.\<close>

datatype tpc = TPoll | TOpen | TPop | TWrite string | TClose | TUpdate

record tlocal =
  pc :: tpc
  iDataToWrite :: int
  iDataWritten :: int

record logger = base +
  gpcLogfile :: sds
  sCurrLogSettings :: tsLogSettings
  Head :: "string list"
  LogfileFd :: bool                 \<comment> \<open>is the stream open (not NULL)?\<close>
  iDataInQueueCount :: int
  iIsInitDone :: bool
  iDoForceFlush :: bool
  iShuttingDown :: bool
  bTerminateProg :: bool
  LoggerThread :: "tlocal option"   \<comment> \<open>None: this process has no logger thread\<close>
  logfile :: "string list"          \<comment> \<open>the messages in the log file, in order\<close>
  terminal :: "string list"         \<comment> \<open>the messages shown on stderr, in order\<close>
  lops :: nat                       \<comment> \<open>fallible calls the logger has made\<close>
  stamps :: nat                     \<comment> \<open>time stamps taken\<close>
  naps :: nat                       \<comment> \<open>calls of usleep() in logger_flush\<close>

text \<open>A fallible call of the logger: 0 is success; a libc call leaves its error in \<^verbatim>\<open>errno\<close>.\<close>

definition lop :: "env \<Rightarrow> ('a logger_scheme, int) prog" where
  "lop E = (\<lambda>s. Ret (lres E (lops s)) (s\<lparr>lops := Suc (lops s)\<rparr>))"

definition lop_errno :: "env \<Rightarrow> ('a logger_scheme, int) prog" where
  "lop_errno E = (\<lambda>s. Ret (lres E (lops s)) (s\<lparr>lops := Suc (lops s),
     errno := (if lres E (lops s) = 0 then errno s else lres E (lops s))\<rparr>))"

definition exit_errno :: "('a logger_scheme, 'b) prog" where
  "exit_errno = (\<lambda>s. Exited (errno s) s)"

section \<open>The tail queue\<close>

definition STAILQ_INSERT_TAIL :: "'a list \<Rightarrow> 'a \<Rightarrow> 'a list" where
  "STAILQ_INSERT_TAIL q x = q @ [x]"

definition STAILQ_FIRST :: "'a list \<Rightarrow> 'a option" where
  "STAILQ_FIRST q = (case q of [] \<Rightarrow> None | x # _ \<Rightarrow> Some x)"

definition STAILQ_REMOVE_HEAD :: "'a list \<Rightarrow> 'a list" where
  "STAILQ_REMOVE_HEAD q = tl q"

section \<open>Callers\<close>

definition is_msg_allowed :: "tLoggerType \<Rightarrow> 'a logger_scheme \<Rightarrow> int" where
  "is_msg_allowed eType s =
     (if \<not> iIsInitDone s then LOG_NOLVL
      else if bTerminateProg s then LOG_SHUTTING_DOWN
      else if iShuttingDown s then LOG_SHUTTING_DOWN
      else if iCurrLogLevel (sCurrLogSettings s) < level_of eType then LOG_NOINIT
      else LOG_EXIT_SUCCESS)"

text \<open>The text of one log line; the user part is cut to the size of its buffer.\<close>

definition log_line :: "env \<Rightarrow> string \<Rightarrow> tLoggerType \<Rightarrow> string \<Rightarrow> string option" where
  "log_line E acTime eType msg =
     sds_catprintf E (sds_newlen E []) [FS, FL '' : '', FS, FL '' : '', FS, FL [CHR 0x0A]]
       [AS acTime, AS (pcLogTypeMsg eType), AS (snprintf_cut LOGGER_MAX_USER_MSG_LEN msg)]"

text \<open>The block between lock and unlock at the end of \<^verbatim>\<open>log_add_to_queue\<close>.\<close>

definition log_enqueue :: "string \<Rightarrow> 'a logger_scheme \<Rightarrow> 'a logger_scheme" where
  "log_enqueue m s = s\<lparr>Head := STAILQ_INSERT_TAIL (Head s) m,
     iDataInQueueCount := iDataInQueueCount s + 1\<rparr>"

definition log_add_to_queue ::
  "env \<Rightarrow> tLoggerType \<Rightarrow> fmt list \<Rightarrow> arg list \<Rightarrow> ('a logger_scheme, int) prog" where
  "log_add_to_queue E eType pcMsg args =
     bindP (getP id) (\<lambda>s.
     if iDataInQueueCount s > iLoggerQueueSize (sCurrLogSettings s) then
       seqP (modP (\<lambda>s. s\<lparr>errno := ENOBUFS\<rparr>)) (retP LOG_EXIT_FAILURE)
     else
       seqP (modP (\<lambda>s. s\<lparr>stamps := Suc (stamps s)\<rparr>)) (
       case vformat pcMsg args of
         None \<Rightarrow> faultP MissingFormatArgument
       | Some msg \<Rightarrow>
           (case log_line E (clock E (stamps s)) eType msg of
              None \<Rightarrow> faultP MissingFormatArgument
            | Some LogMsg \<Rightarrow>
                bindP (lop E) (\<lambda>lock.
                if lock \<noteq> 0 then retP LOG_EXIT_FAILURE
                else
                  seqP (modP (log_enqueue LogMsg)) (
                  bindP (lop E) (\<lambda>unlock.
                  if unlock \<noteq> 0 then retP LOG_EXIT_FAILURE else retP LOG_EXIT_SUCCESS))))))"

definition log_msg ::
  "env \<Rightarrow> tLoggerType \<Rightarrow> fmt list \<Rightarrow> arg list \<Rightarrow> ('a logger_scheme, int) prog" where
  "log_msg E eType message args =
     bindP (getP (is_msg_allowed eType)) (\<lambda>ok.
     if ok = LOG_EXIT_SUCCESS then log_add_to_queue E eType message args
     else retP LOG_EXIT_FAILURE)"

text \<open>The macros of the header, used as statements.\<close>

definition log_debug :: "env \<Rightarrow> fmt list \<Rightarrow> arg list \<Rightarrow> ('a logger_scheme, unit) prog" where
  "log_debug E f as = voidP (log_msg E eDEBUG f as)"
definition log_info :: "env \<Rightarrow> fmt list \<Rightarrow> arg list \<Rightarrow> ('a logger_scheme, unit) prog" where
  "log_info E f as = voidP (log_msg E eINFO f as)"
definition log_warning :: "env \<Rightarrow> fmt list \<Rightarrow> arg list \<Rightarrow> ('a logger_scheme, unit) prog" where
  "log_warning E f as = voidP (log_msg E eWARNING f as)"
definition log_error :: "env \<Rightarrow> fmt list \<Rightarrow> arg list \<Rightarrow> ('a logger_scheme, unit) prog" where
  "log_error E f as = voidP (log_msg E eERROR f as)"

section \<open>The writing thread\<close>

definition goto :: "tpc \<Rightarrow> tlocal \<Rightarrow> 'a logger_scheme \<Rightarrow> 'a logger_scheme" where
  "goto p l s = s\<lparr>LoggerThread := Some (l\<lparr>pc := p\<rparr>)\<rparr>"

text \<open>Polling: cancellation point, sleep, then the block that takes the snapshot.\<close>

definition thread_poll :: "env \<Rightarrow> tlocal \<Rightarrow> ('a logger_scheme, unit) prog" where
  "thread_poll E l =
     bindP (lop E) (\<lambda>trylock.
     if trylock \<noteq> 0 then
       if trylock = EBUSY then retP () else exit_errno
     else
       bindP (getP id) (\<lambda>s.
       seqP
         (if iDataInQueueCount s > iBulkWrite (sCurrLogSettings s) \<or>
             iDoForceFlush s \<and> iDataInQueueCount s \<noteq> 0
          then modP (goto TOpen (l\<lparr>iDataToWrite := iDataInQueueCount s, iDataWritten := 0\<rparr>))
          else retP ())
         (bindP (lop E) (\<lambda>unlock. if unlock \<noteq> 0 then exit_errno else retP ()))))"

definition thread_open :: "env \<Rightarrow> tlocal \<Rightarrow> ('a logger_scheme, unit) prog" where
  "thread_open E l =
     bindP (lop_errno E) (\<lambda>r.
     if r \<noteq> 0 then exit_errno
     else modP (\<lambda>s. goto TPop l (s\<lparr>LogfileFd := True\<rparr>)))"

definition thread_pop :: "env \<Rightarrow> tlocal \<Rightarrow> ('a logger_scheme, unit) prog" where
  "thread_pop E l =
     bindP (getP Head) (\<lambda>q.
     case STAILQ_FIRST q of
       None \<Rightarrow> faultP NullDereference
     | Some LogMessage \<Rightarrow>
         bindP (lop E) (\<lambda>lock.
         if lock \<noteq> 0 then exit_errno
         else
           seqP (modP (\<lambda>s. s\<lparr>Head := STAILQ_REMOVE_HEAD (Head s)\<rparr>)) (
           bindP (lop E) (\<lambda>unlock.
           if unlock \<noteq> 0 then exit_errno else modP (goto (TWrite LogMessage) l)))))"

definition thread_write :: "env \<Rightarrow> tlocal \<Rightarrow> string \<Rightarrow> ('a logger_scheme, unit) prog" where
  "thread_write E l LogMessage =
     seqP (modP (\<lambda>s. s\<lparr>terminal := terminal s @ [cstr LogMessage]\<rparr>)) (
     bindP (lop_errno E) (\<lambda>r.
     if r \<noteq> 0 then exit_errno
     else modP (\<lambda>s.
       goto (if iDataToWrite l - 1 \<noteq> 0 then TPop else TClose)
         (l\<lparr>iDataWritten := iDataWritten l + 1, iDataToWrite := iDataToWrite l - 1\<rparr>)
         (s\<lparr>logfile := logfile s @ [LogMessage]\<rparr>))))"

definition thread_close :: "env \<Rightarrow> tlocal \<Rightarrow> ('a logger_scheme, unit) prog" where
  "thread_close E l =
     bindP (lop_errno E) (\<lambda>r.
     if r \<noteq> 0 then exit_errno
     else
       bindP (lop_errno E) (\<lambda>r.
       if r \<noteq> 0 then exit_errno
       else modP (\<lambda>s. goto TUpdate l (s\<lparr>LogfileFd := False\<rparr>))))"

definition thread_update :: "env \<Rightarrow> tlocal \<Rightarrow> ('a logger_scheme, unit) prog" where
  "thread_update E l =
     bindP (lop E) (\<lambda>lock.
     if lock \<noteq> 0 then exit_errno
     else
       seqP (modP (\<lambda>s. s\<lparr>iDoForceFlush := False,
               iDataInQueueCount := iDataInQueueCount s - iDataWritten l\<rparr>)) (
       bindP (lop E) (\<lambda>unlock.
       if unlock \<noteq> 0 then exit_errno else modP (goto TPoll l))))"

definition logger_thread_step :: "env \<Rightarrow> ('a logger_scheme, unit) prog" where
  "logger_thread_step E =
     bindP (getP LoggerThread) (\<lambda>th.
     case th of
       None \<Rightarrow> retP ()
     | Some l \<Rightarrow>
         (case pc l of
            TPoll \<Rightarrow> thread_poll E l
          | TOpen \<Rightarrow> thread_open E l
          | TPop \<Rightarrow> thread_pop E l
          | TWrite m \<Rightarrow> thread_write E l m
          | TClose \<Rightarrow> thread_close E l
          | TUpdate \<Rightarrow> thread_update E l))"

fun thread_run :: "env \<Rightarrow> nat \<Rightarrow> ('a logger_scheme, unit) prog" where
  "thread_run E 0 = retP ()"
| "thread_run E (Suc n) = seqP (logger_thread_step E) (thread_run E n)"

section \<open>Flush, start, stop\<close>

text \<open>\<^verbatim>\<open>usleep(500)\<close>: the time in which the thread, if there is one, makes its steps.\<close>

definition usleep_nap :: "env \<Rightarrow> ('a logger_scheme, unit) prog" where
  "usleep_nap E = bindP (getP naps) (\<lambda>n.
     seqP (modP (\<lambda>s. s\<lparr>naps := Suc n\<rparr>)) (thread_run E (sched E n)))"

fun flush_loop :: "env \<Rightarrow> nat \<Rightarrow> ('a logger_scheme, unit) prog" where
  "flush_loop E 0 = retP ()"
| "flush_loop E (Suc MaxLoops) =
     bindP (getP iDataInQueueCount) (\<lambda>n.
     if n = 0 then retP () else seqP (usleep_nap E) (flush_loop E MaxLoops))"

definition logger_flush :: "env \<Rightarrow> ('a logger_scheme, int) prog" where
  "logger_flush E =
     seqP (modP (\<lambda>s. s\<lparr>iDoForceFlush := True\<rparr>))
       (seqP (flush_loop E 20) (retP LOG_EXIT_SUCCESS))"

text \<open>
  \<^verbatim>\<open>pthread_cancel\<close> and \<^verbatim>\<open>pthread_join\<close>: cancellation is enabled only while the thread
  polls, so a thread in the middle of a batch finishes the batch first. A batch takes at most
  two steps per queued message and four more, which is the number of steps granted here.
  In a child process, which has no such thread, both come back at once, as they do in glibc.
\<close>

fun join_run :: "env \<Rightarrow> nat \<Rightarrow> ('a logger_scheme, unit) prog" where
  "join_run E 0 = stuckP"
| "join_run E (Suc n) =
     bindP (getP LoggerThread) (\<lambda>th.
     case th of
       None \<Rightarrow> retP ()
     | Some l \<Rightarrow> if pc l = TPoll then modP (\<lambda>s. s\<lparr>LoggerThread := None\<rparr>)
         else seqP (logger_thread_step E) (join_run E n))"

definition cancel_and_join :: "env \<Rightarrow> ('a logger_scheme, unit) prog" where
  "cancel_and_join E = bindP (getP Head) (\<lambda>q. join_run E (2 * length q + 6))"

definition logger_init ::
  "env \<Rightarrow> string option \<Rightarrow> 32 word \<Rightarrow> ('a logger_scheme, int) prog" where
  "logger_init E pcLogfilePath Loglevel =
     bindP (getP iIsInitDone) (\<lambda>ready.
     if ready then retP LOG_NOINIT
     else
       bindP (case pcLogfilePath of
                None \<Rightarrow> seqP (sds_new E []) (retP (SLive (sds_null E)))
              | Some p \<Rightarrow> sds_new E p) (\<lambda>f.
       seqP (modP (\<lambda>s. s\<lparr>gpcLogfile := f,
               sCurrLogSettings := (sCurrLogSettings s)\<lparr>iCurrLogLevel := Loglevel\<rparr>\<rparr>)) (
       bindP (lop_errno E) (\<lambda>fopen.
       if fopen \<noteq> 0 then
         seqP (sds_free f) (seqP (modP (\<lambda>s. s\<lparr>gpcLogfile := SFreed\<rparr>)) (retP LOG_EXIT_FAILURE))
       else
         seqP (modP (\<lambda>s. s\<lparr>Head := [], iDataInQueueCount := 0,
                 iDoForceFlush := False, iShuttingDown := False\<rparr>)) (
         bindP (lop E) (\<lambda>create.
         if create \<noteq> 0 then
           seqP (sds_free f) (seqP (modP (\<lambda>s. s\<lparr>gpcLogfile := SFreed\<rparr>)) (retP LOG_EXIT_FAILURE))
         else
           seqP (modP (\<lambda>s. s\<lparr>
             LoggerThread := Some \<lparr>pc = TPoll, iDataToWrite = 0, iDataWritten = 0\<rparr>,
             iIsInitDone := True\<rparr>)) (retP LOG_EXIT_SUCCESS)))))))"

definition logger_destroy :: "env \<Rightarrow> ('a logger_scheme, int) prog" where
  "logger_destroy E =
     bindP (getP iIsInitDone) (\<lambda>ready.
     if \<not> ready then retP LOG_NOINIT
     else
       bindP (getP pid) (\<lambda>p.
       seqP (log_debug E [FL ''Destroying the logger from pid '', FD, FL ''.''] [AI p]) (
       seqP (modP (\<lambda>s. s\<lparr>iShuttingDown := True\<rparr>)) (
       seqP (logger_flush E) (
       seqP (cancel_and_join E) (
       seqP (modP (\<lambda>s. s\<lparr>LogfileFd := False\<rparr>)) (
       bindP (getP gpcLogfile) (\<lambda>f.
       seqP (sds_free f) (
       seqP (modP (\<lambda>s. s\<lparr>gpcLogfile := SNull, Head := [], iDataInQueueCount := 0,
               iIsInitDone := False\<rparr>))
         (retP LOG_EXIT_SUCCESS))))))))))"

definition logger_get :: "'a logger_scheme \<Rightarrow> tsLogSettings" where
  "logger_get s = sCurrLogSettings s"

definition logger_set :: "tsLogSettings \<Rightarrow> ('a logger_scheme, int) prog" where
  "logger_set sNewSettings =
     seqP (modP (\<lambda>s. s\<lparr>sCurrLogSettings := sNewSettings\<rparr>)) (retP LOG_EXIT_SUCCESS)"

section \<open>What one log call does\<close>

text \<open>
  The specification of a call of \<^verbatim>\<open>log_msg\<close> whose format and arguments agree: the line it
  produces, the value it returns, the state it leaves.
\<close>

definition log_text :: "string \<Rightarrow> tLoggerType \<Rightarrow> string \<Rightarrow> string" where
  "log_text t eType msg = t @ '' : '' @ pcLogTypeMsg eType @ '' : '' @ take 1023 msg @ [CHR 0x0A]"

definition log_full :: "'a logger_scheme \<Rightarrow> bool" where
  "log_full s \<longleftrightarrow> iDataInQueueCount s > iLoggerQueueSize (sCurrLogSettings s)"

definition log_st :: "env \<Rightarrow> tLoggerType \<Rightarrow> string \<Rightarrow> 'a logger_scheme \<Rightarrow> 'a logger_scheme" where
  "log_st E eType msg s =
     (if is_msg_allowed eType s \<noteq> 0 then s
      else if log_full s then s\<lparr>errno := ENOBUFS\<rparr>
      else if lres E (lops s) \<noteq> 0 then s\<lparr>stamps := Suc (stamps s), lops := Suc (lops s)\<rparr>
      else log_enqueue (log_text (clock E (stamps s)) eType msg)
             (s\<lparr>stamps := Suc (stamps s), lops := Suc (Suc (lops s))\<rparr>))"

definition log_ret :: "env \<Rightarrow> tLoggerType \<Rightarrow> 'a logger_scheme \<Rightarrow> int" where
  "log_ret E eType s =
     (if is_msg_allowed eType s \<noteq> 0 \<or> log_full s \<or> lres E (lops s) \<noteq> 0 \<or>
         lres E (Suc (lops s)) \<noteq> 0
      then LOG_EXIT_FAILURE else LOG_EXIT_SUCCESS)"

lemma log_line_doc: "sds_doc E \<Longrightarrow> log_line E t eType msg = Some (log_text t eType msg)"
  by (simp add: log_line_def sds_docD log_text_def snprintf_cut_def LOGGER_MAX_USER_MSG_LEN_def)

lemma lop_apply [simp, prog_simps]:
  "lop E s = Ret (lres E (lops s)) (s\<lparr>lops := Suc (lops s)\<rparr>)"
  by (simp add: lop_def)

lemma lop_errno_apply [simp, prog_simps]:
  "lop_errno E s = Ret (lres E (lops s)) (s\<lparr>lops := Suc (lops s),
     errno := (if lres E (lops s) = 0 then errno s else lres E (lops s))\<rparr>)"
  by (simp add: lop_errno_def)

lemma log_msg_eq:
  assumes "sds_doc E" and "vformat f as = Some msg"
  shows "log_msg E eType f as s = Ret (log_ret E eType s) (log_st E eType msg s)"
proof (cases "is_msg_allowed eType s = 0 \<and> \<not> log_full s")
  case False
  then show ?thesis
    by (auto simp: log_msg_def log_add_to_queue_def log_ret_def log_st_def log_full_def)
next
  case True
  with assms show ?thesis
    by (simp add: log_msg_def log_add_to_queue_def log_ret_def log_st_def log_full_def
        log_line_doc log_enqueue_def)
qed

text \<open>A call whose format lacks an argument is harmless only while it is filtered out.\<close>

lemma log_msg_bad_format:
  assumes "vformat f as = None"
  shows "log_msg E eType f as s =
    (if is_msg_allowed eType s \<noteq> 0 then Ret LOG_EXIT_FAILURE s
     else if log_full s then Ret LOG_EXIT_FAILURE (s\<lparr>errno := ENOBUFS\<rparr>)
     else Fault MissingFormatArgument (s\<lparr>stamps := Suc (stamps s)\<rparr>))"
  using assms by (simp add: log_msg_def log_add_to_queue_def log_full_def)

lemma log_calls:
  assumes "sds_doc E" and "fmt_ok f as"
  shows "log_debug E f as s = Ret () (log_st E eDEBUG (rendered f as) s)"
    and "log_info E f as s = Ret () (log_st E eINFO (rendered f as) s)"
    and "log_warning E f as s = Ret () (log_st E eWARNING (rendered f as) s)"
    and "log_error E f as s = Ret () (log_st E eERROR (rendered f as) s)"
  by (simp_all add: log_debug_def log_info_def log_warning_def log_error_def
      log_msg_eq[OF assms(1) vformat_rendered[OF assms(2)]])

lemma log_st_frame [simp, frame]:
  "hist (log_st E ty m s) = hist s"
  "pid (log_st E ty m s) = pid s"
  "sds_live (log_st E ty m s) = sds_live s"
  "gpcLogfile (log_st E ty m s) = gpcLogfile s"
  "sCurrLogSettings (log_st E ty m s) = sCurrLogSettings s"
  "LogfileFd (log_st E ty m s) = LogfileFd s"
  "iIsInitDone (log_st E ty m s) = iIsInitDone s"
  "iDoForceFlush (log_st E ty m s) = iDoForceFlush s"
  "iShuttingDown (log_st E ty m s) = iShuttingDown s"
  "bTerminateProg (log_st E ty m s) = bTerminateProg s"
  "LoggerThread (log_st E ty m s) = LoggerThread s"
  "logfile (log_st E ty m s) = logfile s"
  "naps (log_st E ty m s) = naps s"
  by (simp_all add: log_st_def log_enqueue_def)

lemma is_msg_allowed_iff:
  "is_msg_allowed ty s = 0 \<longleftrightarrow> iIsInitDone s \<and> \<not> bTerminateProg s \<and> \<not> iShuttingDown s \<and>
     level_of ty \<le> iCurrLogLevel (sCurrLogSettings s)"
  by (auto simp: is_msg_allowed_def not_less)

end
