(* ===== verification/Logger_Concurrency.thy ===== *)
theory Logger_Concurrency
  imports Logger
begin

text \<open>
  The logger's thread and any number of logging callers, interleaved. A caller makes two
  steps: it tests the queue's size without holding the mutex, and later inserts its message
  inside the mutex; the thread makes one step per block of its loop. Mutex blocks are single
  steps. What holds in every interleaving: the counter agrees with the queue, the thread never
  finds the queue empty, messages reach the file in the order in which they were inserted and
  none is lost, and the queue's length has a bound.
\<close>

section \<open>The queue as an interface\<close>

text \<open>What a client of a first-in first-out queue relies on.\<close>

locale fifo =
  fixes ins :: "'q \<Rightarrow> 'a \<Rightarrow> 'q"
    and first :: "'q \<Rightarrow> 'a option"
    and rem :: "'q \<Rightarrow> 'q"
    and lst :: "'q \<Rightarrow> 'a list"
  assumes lst_ins: "lst (ins q x) = lst q @ [x]"
    and lst_rem: "lst (rem q) = tl (lst q)"
    and first_None: "first q = None \<longleftrightarrow> lst q = []"
    and first_Some: "first q = Some x \<Longrightarrow> lst q = x # tl (lst q)"
begin

lemma first_rem: "first q = Some x \<Longrightarrow> lst q = x # lst (rem q)"
  using first_Some[of q x] by (simp add: lst_rem)

lemma first_exists: "lst q \<noteq> [] \<Longrightarrow> \<exists>x. first q = Some x"
  using first_None[of q] by (cases "first q") auto

end

interpretation stailq: fifo STAILQ_INSERT_TAIL STAILQ_FIRST STAILQ_REMOVE_HEAD "\<lambda>q. q"
  by unfold_locales
    (auto simp: STAILQ_INSERT_TAIL_def STAILQ_FIRST_def STAILQ_REMOVE_HEAD_def split: list.splits)

section \<open>Interleaved steps\<close>

record conc = logger +
  pending :: "string list"    \<comment> \<open>callers past the size test, with the line to insert\<close>
  accepted :: "string list"   \<comment> \<open>the lines inserted so far, in order\<close>

text \<open>A caller's insertion, or its failure to get the mutex.\<close>

definition caller_insert :: "env \<Rightarrow> string list \<Rightarrow> string \<Rightarrow> string list \<Rightarrow> conc \<Rightarrow> conc" where
  "caller_insert E xs m ys s =
     (if lres E (lops s) \<noteq> 0 then s\<lparr>lops := Suc (lops s), pending := xs @ ys\<rparr>
      else (log_enqueue m s)\<lparr>lops := Suc (Suc (lops s)), pending := xs @ ys,
             accepted := accepted s @ [m]\<rparr>)"

inductive lstep :: "env \<Rightarrow> nat \<Rightarrow> conc \<Rightarrow> conc \<Rightarrow> bool" for E :: env and callers :: nat where
  check: "is_msg_allowed ty s = LOG_EXIT_SUCCESS \<Longrightarrow> \<not> log_full s \<Longrightarrow>
    length (pending s) < callers \<Longrightarrow>
    log_line E (clock E (stamps s)) ty msg = Some m \<Longrightarrow>
    lstep E callers s (s\<lparr>stamps := Suc (stamps s), pending := pending s @ [m]\<rparr>)"
| insert: "pending s = xs @ m # ys \<Longrightarrow> lstep E callers s (caller_insert E xs m ys s)"
| request_flush: "lstep E callers s (s\<lparr>iDoForceFlush := True\<rparr>)"
| thread: "logger_thread_step E s = Ret () t \<Longrightarrow> lstep E callers s t"

inductive_cases lstepE: "lstep E callers s t"

text \<open>The state right after \<^verbatim>\<open>logger_init\<close> has started the thread.\<close>

definition conc_init :: "conc \<Rightarrow> bool" where
  "conc_init s \<longleftrightarrow> Head s = [] \<and> iDataInQueueCount s = 0 \<and> pending s = [] \<and>
     accepted s = logfile s \<and> LoggerThread s = Some \<lparr>pc = TPoll, iDataToWrite = 0, iDataWritten = 0\<rparr> \<and>
     0 \<le> iBulkWrite (sCurrLogSettings s) \<and> 0 \<le> iLoggerQueueSize (sCurrLogSettings s)"

text \<open>The message the thread has taken out of the queue and not yet written.\<close>

definition in_hand :: "'a logger_scheme \<Rightarrow> string list" where
  "in_hand s = (case LoggerThread s of
      Some l \<Rightarrow> (case pc l of TWrite m \<Rightarrow> [m] | _ \<Rightarrow> [])
    | None \<Rightarrow> [])"

text \<open>How the counter, the queue and the thread's variables agree at each point of its loop.\<close>

definition thread_ok :: "tlocal \<Rightarrow> int \<Rightarrow> int \<Rightarrow> bool" where
  "thread_ok l queued n = (case pc l of
      TPoll \<Rightarrow> n = queued
    | TOpen \<Rightarrow> n = queued \<and> iDataWritten l = 0 \<and> 1 \<le> iDataToWrite l \<and> iDataToWrite l \<le> queued
    | TPop \<Rightarrow> n = queued + iDataWritten l \<and> 1 \<le> iDataToWrite l \<and> iDataToWrite l \<le> queued
    | TWrite m \<Rightarrow> n = queued + 1 + iDataWritten l \<and> 1 \<le> iDataToWrite l \<and>
        iDataToWrite l \<le> queued + 1
    | TClose \<Rightarrow> n = queued + iDataWritten l
    | TUpdate \<Rightarrow> n = queued + iDataWritten l)"

definition conc_inv :: "nat \<Rightarrow> conc \<Rightarrow> bool" where
  "conc_inv callers s \<longleftrightarrow>
     (\<exists>l. LoggerThread s = Some l \<and> 0 \<le> iDataWritten l \<and>
        thread_ok l (int (length (Head s))) (iDataInQueueCount s)) \<and>
     accepted s = logfile s @ in_hand s @ Head s \<and>
     iDataInQueueCount s + int (length (pending s)) \<le>
       iLoggerQueueSize (sCurrLogSettings s) + int callers \<and>
     0 \<le> iBulkWrite (sCurrLogSettings s)"

lemma conc_inv_init: "conc_init s \<Longrightarrow> conc_inv callers s"
  by (simp add: conc_init_def conc_inv_def thread_ok_def in_hand_def)

lemma conc_inv_check:
  assumes "conc_inv callers s" and "\<not> log_full s" and "length (pending s) < callers"
  shows "conc_inv callers (s\<lparr>stamps := n, pending := pending s @ [m]\<rparr>)"
  using assms by (auto simp: conc_inv_def log_full_def in_hand_def)

lemma thread_ok_grow: "thread_ok l q n \<Longrightarrow> thread_ok l (1 + q) (n + 1)"
  by (auto simp: thread_ok_def split: tpc.splits)

lemma conc_inv_insert:
  assumes "conc_inv callers s" and "pending s = xs @ m # ys"
  shows "conc_inv callers (caller_insert E xs m ys s)"
  using assms
  by (auto simp: conc_inv_def caller_insert_def log_enqueue_def in_hand_def stailq.lst_ins
      intro: thread_ok_grow)

text \<open>The steps of the thread, block by block.\<close>

lemma first_Head: "Head s \<noteq> [] \<Longrightarrow> \<exists>m q. Head s = m # q \<and> STAILQ_FIRST (Head s) = Some m"
  using stailq.first_exists[of "Head s"] stailq.first_rem[of "Head s"] by auto

lemma thread_poll_inv:
  assumes "conc_inv callers s" and "LoggerThread s = Some l" and "pc l = TPoll"
    and "thread_poll E l s = Ret () t"
  shows "conc_inv callers t"
  using assms
  by (auto simp: thread_poll_def conc_inv_def thread_ok_def in_hand_def goto_def exit_errno_def
      Suc_le_eq split: if_splits)

lemma thread_open_inv:
  assumes "conc_inv callers s" and "LoggerThread s = Some l" and "pc l = TOpen"
    and "thread_open E l s = Ret () t"
  shows "conc_inv callers t"
  using assms
  by (auto simp: thread_open_def conc_inv_def thread_ok_def in_hand_def goto_def exit_errno_def
      split: if_splits)

lemma thread_pop_inv:
  assumes "conc_inv callers s" and "LoggerThread s = Some l" and "pc l = TPop"
    and "thread_pop E l s = Ret () t"
  shows "conc_inv callers t"
proof -
  from assms have "Head s \<noteq> []" by (auto simp: conc_inv_def thread_ok_def)
  then obtain m q where "Head s = m # q" and "STAILQ_FIRST (Head s) = Some m"
    using first_Head by blast
  with assms show ?thesis
    by (auto simp: thread_pop_def conc_inv_def thread_ok_def in_hand_def goto_def exit_errno_def
        stailq.lst_rem split: if_splits)
qed

lemma thread_write_inv:
  assumes "conc_inv callers s" and "LoggerThread s = Some l" and "pc l = TWrite m"
    and "thread_write E l m s = Ret () t"
  shows "conc_inv callers t"
  using assms
  by (auto simp: thread_write_def conc_inv_def thread_ok_def in_hand_def goto_def exit_errno_def
      split: if_splits)

lemma thread_close_inv:
  assumes "conc_inv callers s" and "LoggerThread s = Some l" and "pc l = TClose"
    and "thread_close E l s = Ret () t"
  shows "conc_inv callers t"
  using assms
  by (auto simp: thread_close_def conc_inv_def thread_ok_def in_hand_def goto_def exit_errno_def
      split: if_splits)

lemma thread_update_inv:
  assumes "conc_inv callers s" and "LoggerThread s = Some l" and "pc l = TUpdate"
    and "thread_update E l s = Ret () t"
  shows "conc_inv callers t"
  using assms
  by (auto simp: thread_update_def conc_inv_def thread_ok_def in_hand_def goto_def exit_errno_def
      split: if_splits)

lemmas thread_block_inv =
  thread_poll_inv thread_open_inv thread_pop_inv thread_write_inv thread_close_inv thread_update_inv

lemma logger_thread_step_inv:
  assumes "conc_inv callers s" and "logger_thread_step E s = Ret () t"
  shows "conc_inv callers t"
proof -
  from assms(1) obtain l where l: "LoggerThread s = Some l" by (auto simp: conc_inv_def)
  with assms show ?thesis
    by (cases "pc l") (auto simp: logger_thread_step_def intro: thread_block_inv)
qed

lemma conc_inv_flush: "conc_inv callers s \<Longrightarrow> conc_inv callers (s\<lparr>iDoForceFlush := True\<rparr>)"
  by (simp add: conc_inv_def in_hand_def)

lemma conc_inv_lstep: "conc_inv callers s \<Longrightarrow> lstep E callers s t \<Longrightarrow> conc_inv callers t"
  by (erule lstepE)
    (blast intro: conc_inv_check conc_inv_insert conc_inv_flush logger_thread_step_inv)+

interpretation log_system: inductive_invariant conc_init "lstep E callers" "conc_inv callers"
  for E callers
  by unfold_locales (auto intro: conc_inv_init conc_inv_lstep)

abbreviation lreach :: "env \<Rightarrow> nat \<Rightarrow> conc \<Rightarrow> bool" where
  "lreach E callers \<equiv> reach conc_init (lstep E callers)"

lemma thread_never_faults:
  assumes "conc_inv callers s"
  shows "logger_thread_step E s \<noteq> Fault e t"
proof -
  from assms obtain l where l: "LoggerThread s = Some l" by (auto simp: conc_inv_def)
  show ?thesis
  proof (cases "pc l = TPop")
    case True
    with assms l have "Head s \<noteq> []" by (auto simp: conc_inv_def thread_ok_def)
    then obtain m q where "Head s = m # q" "STAILQ_FIRST (Head s) = Some m"
      using first_Head by blast
    with l True show ?thesis
      by (simp add: logger_thread_step_def thread_pop_def exit_errno_def)
  next
    case False
    with l show ?thesis
      by (cases "pc l") (simp_all add: logger_thread_step_def thread_poll_def thread_open_def
          thread_write_def thread_close_def thread_update_def exit_errno_def)
  qed
qed

section \<open>The abstract log\<close>

text \<open>
  What a log is to its user: the lines already in the file and the accepted lines still to be
  written. A line is accepted at the end; the oldest accepted line moves to the file.
\<close>

inductive abs_log_step :: "string list \<times> string list \<Rightarrow> string list \<times> string list \<Rightarrow> bool" where
  accept: "abs_log_step (f, b) (f, b @ [m])"
| written: "abs_log_step (f, m # b) (f @ [m], b)"
| stutter: "abs_log_step (f, b) (f, b)"

definition abs_log :: "conc \<Rightarrow> string list \<times> string list" where
  "abs_log s = (logfile s, in_hand s @ Head s)"

lemma abs_log_thread_step:
  assumes "conc_inv callers s" and "logger_thread_step E s = Ret () t"
  shows "abs_log_step (abs_log s) (abs_log t)"
proof -
  from assms(1) obtain l where l: "LoggerThread s = Some l" by (auto simp: conc_inv_def)
  show ?thesis
  proof (cases "pc l")
    case TPop
    with assms l have "Head s \<noteq> []" by (auto simp: conc_inv_def thread_ok_def)
    then obtain m q where "Head s = m # q" "STAILQ_FIRST (Head s) = Some m"
      using first_Head by blast
    with assms(2) l TPop show ?thesis
      by (auto simp: logger_thread_step_def thread_pop_def goto_def exit_errno_def in_hand_def
          stailq.lst_rem abs_log_def abs_log_step.stutter split: if_splits)
  next
    case (TWrite m)
    with assms(2) l show ?thesis
      by (auto simp: logger_thread_step_def thread_write_def goto_def exit_errno_def in_hand_def
          abs_log_def abs_log_step.written split: if_splits)
  qed (use assms(2) l in \<open>auto simp: logger_thread_step_def thread_poll_def thread_open_def
      thread_close_def thread_update_def goto_def exit_errno_def in_hand_def
      abs_log_def abs_log_step.stutter split: if_splits\<close>)
qed

lemma abs_log_insert:
  "abs_log_step (abs_log s) (abs_log (caller_insert E xs m ys s))"
  by (auto simp: caller_insert_def log_enqueue_def abs_log_def in_hand_def stailq.lst_ins
      intro: abs_log_step.stutter abs_log_step.accept[of _ "a @ b" for a b, simplified])

lemma abs_log_lstep:
  assumes "conc_inv callers s" and "lstep E callers s t"
  shows "abs_log_step (abs_log s) (abs_log t)"
  using assms(2)
proof (cases rule: lstep.cases)
  case (thread)
  with assms(1) show ?thesis by (rule abs_log_thread_step)
next
  case (insert xs m ys)
  then show ?thesis using abs_log_insert by simp
qed (simp_all add: abs_log_def in_hand_def abs_log_step.stutter)

section \<open>Properties\<close>

definition demo_conc :: conc where
  "demo_conc = \<lparr>hist = [], errno = 0, pid = 1, sds_live = 1, gpcLogfile = SLive ''/log'',
     sCurrLogSettings = default_log_settings, Head = [], LogfileFd = False,
     iDataInQueueCount = 0, iIsInitDone = True, iDoForceFlush = False, iShuttingDown = False,
     bTerminateProg = False,
     LoggerThread = Some \<lparr>pc = TPoll, iDataToWrite = 0, iDataWritten = 0\<rparr>,
     logfile = [], terminal = [], lops = 0, stamps = 0, naps = 0, pending = [], accepted = []\<rparr>"

definition demo_line :: string where
  "demo_line = log_text ''now'' eERROR ''hello''"

definition demo_pending :: conc where
  "demo_pending = demo_conc\<lparr>stamps := Suc (stamps demo_conc), pending := pending demo_conc @ [demo_line]\<rparr>"

definition demo_queued :: conc where
  "demo_queued = caller_insert calm_env [] demo_line [] demo_pending"

lemma demo_queued_eq:
  "demo_queued = demo_conc\<lparr>stamps := 1, lops := 2, pending := [], accepted := [demo_line],
     Head := [demo_line], iDataInQueueCount := 1\<rparr>"
  by (simp add: demo_queued_def demo_pending_def demo_conc_def caller_insert_def log_enqueue_def
      STAILQ_INSERT_TAIL_def)

lemma demo_pending_reach: "lreach calm_env 1 demo_pending"
proof -
  have "lreach calm_env 1 demo_conc"
    by (rule reach.start)
      (simp add: conc_init_def demo_conc_def default_log_settings_def)
  moreover have "lstep calm_env 1 demo_conc demo_pending"
    unfolding demo_pending_def by (rule lstep.check[where ty = eERROR and msg = "''hello''"])
      (simp_all add: demo_conc_def is_msg_allowed_def default_log_settings_def log_full_def
        log_line_doc demo_line_def)
  ultimately show ?thesis by (rule reach.move)
qed

lemma demo_queued_step: "lstep calm_env 1 demo_pending demo_queued"
  unfolding demo_queued_def by (rule lstep.insert) (simp add: demo_pending_def demo_conc_def)

lemmas demo_queued_reach = reach.move[OF demo_pending_reach demo_queued_step]

text \<open>
  C6. Whatever the interleaving of callers and the writing thread, no accepted log line is
  lost, duplicated or reordered: the lines accepted so far are exactly the lines in the file,
  followed by the one the thread has in its hand, followed by the queue.
\<close>

theorem log_no_line_lost:
  assumes "lreach E callers s"
  shows "accepted s = logfile s @ in_hand s @ Head s"
  using log_system.inv_reach[OF assms] by (simp add: conc_inv_def)

theorem log_no_line_lost_witness:
  "accepted demo_queued = logfile demo_queued @ in_hand demo_queued @ Head demo_queued \<and>
   accepted demo_queued = [demo_line]"
  using log_no_line_lost[OF demo_queued_reach] by (simp add: demo_queued_eq)

text \<open>
  C14. The implementation refines the abstract log: every step of a caller or of the thread is,
  seen through \<^term>\<open>abs_log\<close>, the acceptance of one line at the end, the writing of the oldest
  accepted line, or no change.
\<close>

theorem log_refines_abstract_log:
  assumes "lreach E callers s" and "lstep E callers s t"
  shows "abs_log_step (abs_log s) (abs_log t)"
  using abs_log_lstep[OF log_system.inv_reach[OF assms(1)] assms(2)] .

theorem log_refines_abstract_log_witness:
  "abs_log_step (abs_log demo_pending) (abs_log demo_queued) \<and>
   abs_log demo_pending = ([], []) \<and> abs_log demo_queued = ([], [demo_line])"
  using log_refines_abstract_log[OF demo_pending_reach demo_queued_step]
  by (simp add: abs_log_def demo_queued_eq demo_pending_def in_hand_def demo_conc_def)

text \<open>
  The writing thread never takes from an empty queue and never follows a null pointer,
  although it reads the head of the queue outside the mutex and decides how much to write from
  a counter it read earlier.
\<close>

lemma log_thread_no_fault:
  assumes "lreach E callers s"
  shows "logger_thread_step E s \<noteq> Fault e t"
  using thread_never_faults[OF log_system.inv_reach[OF assms]] .

text \<open>
  C24. The queue is bounded. The size test is made outside the mutex, so with \<open>callers\<close>
  threads logging at once the number of queued lines can pass the configured
  \<^verbatim>\<open>iLoggerQueueSize\<close>, but never by more than \<open>callers\<close>.
\<close>

theorem log_queue_bounded:
  assumes "lreach E callers s"
  shows "iDataInQueueCount s \<le> iLoggerQueueSize (sCurrLogSettings s) + int callers \<and>
    int (length (Head s)) \<le> iDataInQueueCount s"
proof -
  from log_system.inv_reach[OF assms] have inv: "conc_inv callers s" .
  then obtain l where "0 \<le> iDataWritten l"
    "thread_ok l (int (length (Head s))) (iDataInQueueCount s)" by (auto simp: conc_inv_def)
  then have "int (length (Head s)) \<le> iDataInQueueCount s"
    by (cases "pc l") (auto simp: thread_ok_def)
  with inv show ?thesis by (auto simp: conc_inv_def)
qed

theorem log_queue_bounded_witness:
  "iDataInQueueCount demo_queued \<le> iLoggerQueueSize (sCurrLogSettings demo_queued) + int 1 \<and>
   int (length (Head demo_queued)) \<le> iDataInQueueCount demo_queued"
  using log_queue_bounded[OF demo_queued_reach] .

end
