(* ===== verification/Logger_Flush.thy ===== *)
theory Logger_Flush
  imports Logger_Concurrency
begin

text \<open>
  Progress of the logger: how many steps the thread needs to write everything that is queued,
  that \<^verbatim>\<open>logger_flush\<close> therefore empties the queue when the thread gets that much time
  within its twenty naps, and what starting and stopping the logger does.
\<close>

section \<open>A ranking of the thread's states\<close>

text \<open>The logger's own calls (mutex, file) all succeed.\<close>

definition log_io_ok :: "env \<Rightarrow> bool" where
  "log_io_ok E \<longleftrightarrow> (\<forall>n. lres E n = 0)"

text \<open>
  \<open>batch q f k s\<close>: a batch that started with the queue \<open>q\<close> and the file \<open>f\<close> needs
  \<open>k\<close> more steps; with \<open>k = 0\<close> it is finished. \<open>todo\<close> and \<open>wr\<close> are the thread's
  counters \<^verbatim>\<open>iDataToWrite\<close> and \<^verbatim>\<open>iDataWritten\<close>.
\<close>

fun batch_at ::
  "tpc \<Rightarrow> string list \<Rightarrow> string list \<Rightarrow> nat \<Rightarrow> int \<Rightarrow> int \<Rightarrow> 'a logger_scheme \<Rightarrow> bool" where
  "batch_at TPoll q f k todo wr s \<longleftrightarrow>
     k = 0 \<and> Head s = [] \<and> iDataInQueueCount s = 0 \<and> logfile s = f @ q \<or>
     k = 2 * length q + 4 \<and> q \<noteq> [] \<and> iDoForceFlush s \<and>
     Head s = q \<and> iDataInQueueCount s = int (length q) \<and> logfile s = f"
| "batch_at TOpen q f k todo wr s \<longleftrightarrow>
     k = 2 * length q + 3 \<and> q \<noteq> [] \<and> todo = int (length q) \<and> wr = 0 \<and>
     Head s = q \<and> iDataInQueueCount s = int (length q) \<and> logfile s = f"
| "batch_at TPop q f k todo wr s \<longleftrightarrow>
     (\<exists>d. q = d @ Head s \<and> Head s \<noteq> [] \<and> k = 2 * length (Head s) + 2 \<and>
        todo = int (length (Head s)) \<and> wr = int (length d) \<and>
        iDataInQueueCount s = int (length q) \<and> logfile s = f @ d)"
| "batch_at (TWrite m) q f k todo wr s \<longleftrightarrow>
     (\<exists>d. q = d @ m # Head s \<and> k = 2 * length (Head s) + 3 \<and>
        todo = int (length (Head s)) + 1 \<and> wr = int (length d) \<and>
        iDataInQueueCount s = int (length q) \<and> logfile s = f @ d)"
| "batch_at TClose q f k todo wr s \<longleftrightarrow>
     k = 2 \<and> q \<noteq> [] \<and> wr = int (length q) \<and>
     Head s = [] \<and> iDataInQueueCount s = int (length q) \<and> logfile s = f @ q"
| "batch_at TUpdate q f k todo wr s \<longleftrightarrow>
     k = 1 \<and> q \<noteq> [] \<and> wr = int (length q) \<and>
     Head s = [] \<and> iDataInQueueCount s = int (length q) \<and> logfile s = f @ q"

definition batch :: "string list \<Rightarrow> string list \<Rightarrow> nat \<Rightarrow> 'a logger_scheme \<Rightarrow> bool" where
  "batch q f k s \<longleftrightarrow> 0 \<le> iBulkWrite (sCurrLogSettings s) \<and>
     (\<exists>l. LoggerThread s = Some l \<and> batch_at (pc l) q f k (iDataToWrite l) (iDataWritten l) s)"

lemma batchE:
  assumes "batch q f k s"
  obtains l where "0 \<le> iBulkWrite (sCurrLogSettings s)" and "LoggerThread s = Some l"
    and "batch_at (pc l) q f k (iDataToWrite l) (iDataWritten l) s"
  using assms by (auto simp: batch_def)

lemma batch_count: "batch q f (Suc k) s \<Longrightarrow> iDataInQueueCount s \<noteq> 0"
  by (erule batchE) (case_tac "pc l"; auto simp: neq_Nil_conv)

lemma batch_done:
  "batch q f 0 s \<Longrightarrow> Head s = [] \<and> iDataInQueueCount s = 0 \<and> logfile s = f @ q \<and>
     (\<exists>l. LoggerThread s = Some l \<and> pc l = TPoll)"
  by (erule batchE) (case_tac "pc l"; auto)

lemma batch_at_naps [simp]: "batch_at p q f k a b (s\<lparr>naps := n\<rparr>) = batch_at p q f k a b s"
  by (cases p) simp_all

lemma batch_naps [simp]: "batch q f k (s\<lparr>naps := n\<rparr>) = batch q f k s"
  by (simp add: batch_def)

text \<open>Each step of the thread brings the batch one step nearer to its end.\<close>

lemma batch_step:
  assumes "log_io_ok E" and "batch q f (Suc k) s"
  shows "\<exists>t. logger_thread_step E s = Ret () t \<and> batch q f k t \<and> naps t = naps s"
proof -
  from assms(1) have ok [simp]: "\<And>n. lres E n = 0" by (simp add: log_io_ok_def)
  from assms(2) obtain l where l: "0 \<le> iBulkWrite (sCurrLogSettings s)" "LoggerThread s = Some l"
    "batch_at (pc l) q f (Suc k) (iDataToWrite l) (iDataWritten l) s" by (rule batchE)
  note thread_defs = logger_thread_step_def goto_def batch_def
  show ?thesis
  proof (cases "pc l")
    case TPoll
    with l show ?thesis by (simp add: thread_defs thread_poll_def)
  next
    case TOpen
    with l show ?thesis by (simp add: thread_defs thread_open_def)
  next
    case TPop
    with l obtain m r where r: "Head s = m # r" by (auto simp: neq_Nil_conv)
    with l TPop show ?thesis
      by (auto simp: thread_defs thread_pop_def STAILQ_FIRST_def STAILQ_REMOVE_HEAD_def)
  next
    case (TWrite m)
    with l show ?thesis by (cases "Head s") (auto simp: thread_defs thread_write_def)
  next
    case TClose
    with l show ?thesis by (simp add: thread_defs thread_close_def)
  next
    case TUpdate
    with l show ?thesis by (simp add: thread_defs thread_update_def)
  qed
qed

text \<open>With the queue empty the thread keeps polling.\<close>

lemma batch_idle:
  assumes "log_io_ok E" and "batch q f 0 s"
  shows "\<exists>t. logger_thread_step E s = Ret () t \<and> batch q f 0 t \<and> naps t = naps s"
proof -
  from assms(1) have ok [simp]: "\<And>n. lres E n = 0" by (simp add: log_io_ok_def)
  from assms(2) obtain l where l: "0 \<le> iBulkWrite (sCurrLogSettings s)" "LoggerThread s = Some l"
    "batch_at (pc l) q f 0 (iDataToWrite l) (iDataWritten l) s" by (rule batchE)
  moreover from l(3) have "pc l = TPoll" by (cases "pc l") auto
  ultimately show ?thesis
    by (auto simp: logger_thread_step_def thread_poll_def goto_def batch_def)
qed

lemma batch_run:
  assumes "log_io_ok E" and "batch q f k s"
  shows "\<exists>t. thread_run E n s = Ret () t \<and> batch q f (k - n) t \<and> naps t = naps s"
  using assms(2)
proof (induction n arbitrary: k s)
  case 0
  then show ?case by simp
next
  case (Suc n)
  have "\<exists>t. logger_thread_step E s = Ret () t \<and> batch q f (k - 1) t \<and> naps t = naps s"
    using batch_step[OF assms(1)] batch_idle[OF assms(1)] Suc.prems by (cases k) auto
  then obtain t where t: "logger_thread_step E s = Ret () t" "batch q f (k - 1) t" "naps t = naps s"
    by blast
  from Suc.IH[OF t(2)] t show ?case by simp
qed

section \<open>What the logger's own work leaves alone\<close>

text \<open>
  Everything in a process state except the fields that logging and the logger thread write.
  Two states with the same \<open>outside_log\<close> agree on every other field, also on the fields
  that larger components add to the record.
\<close>

definition outside_log :: "'a logger_scheme \<Rightarrow> 'a logger_scheme" where
  "outside_log s = s\<lparr>LoggerThread := None, Head := [], LogfileFd := False, iDataInQueueCount := 0,
     iDoForceFlush := False, logfile := [], terminal := [], lops := 0, stamps := 0, naps := 0, errno := 0\<rparr>"

lemma outside_log_eqD:
  assumes "outside_log t = outside_log s"
  shows "hist t = hist s" and "pid t = pid s" and "sds_live t = sds_live s"
    and "gpcLogfile t = gpcLogfile s" and "sCurrLogSettings t = sCurrLogSettings s"
    and "iIsInitDone t = iIsInitDone s" and "iShuttingDown t = iShuttingDown s"
    and "bTerminateProg t = bTerminateProg s"
proof -
  note h = assms[unfolded outside_log_def]
  show "hist t = hist s" using arg_cong[OF h, of hist] by simp
  show "pid t = pid s" using arg_cong[OF h, of pid] by simp
  show "sds_live t = sds_live s" using arg_cong[OF h, of sds_live] by simp
  show "gpcLogfile t = gpcLogfile s" using arg_cong[OF h, of gpcLogfile] by simp
  show "sCurrLogSettings t = sCurrLogSettings s" using arg_cong[OF h, of sCurrLogSettings] by simp
  show "iIsInitDone t = iIsInitDone s" using arg_cong[OF h, of iIsInitDone] by simp
  show "iShuttingDown t = iShuttingDown s" using arg_cong[OF h, of iShuttingDown] by simp
  show "bTerminateProg t = bTerminateProg s" using arg_cong[OF h, of bTerminateProg] by simp
qed

lemma outside_log_log_st [simp, frame]: "outside_log (log_st E ty m s) = outside_log s"
  by (simp add: outside_log_def log_st_def log_enqueue_def)

lemma outside_log_updates [simp]:
  "outside_log (s\<lparr>LoggerThread := a\<rparr>) = outside_log s"
  "outside_log (s\<lparr>Head := b\<rparr>) = outside_log s"
  "outside_log (s\<lparr>LogfileFd := c\<rparr>) = outside_log s"
  "outside_log (s\<lparr>iDataInQueueCount := d\<rparr>) = outside_log s"
  "outside_log (s\<lparr>iDoForceFlush := e\<rparr>) = outside_log s"
  "outside_log (s\<lparr>logfile := g\<rparr>) = outside_log s"
  "outside_log (s\<lparr>terminal := g\<rparr>) = outside_log s"
  "outside_log (s\<lparr>lops := h\<rparr>) = outside_log s"
  "outside_log (s\<lparr>stamps := i\<rparr>) = outside_log s"
  "outside_log (s\<lparr>naps := j\<rparr>) = outside_log s"
  "outside_log (s\<lparr>errno := k\<rparr>) = outside_log s"
  by (simp_all add: outside_log_def)

lemma outside_log_base [simp]:
  "outside_log (s\<lparr>hist := c\<rparr>) = (outside_log s)\<lparr>hist := c\<rparr>"
  "outside_log (s\<lparr>pid := p\<rparr>) = (outside_log s)\<lparr>pid := p\<rparr>"
  "outside_log (s\<lparr>sds_live := n\<rparr>) = (outside_log s)\<lparr>sds_live := n\<rparr>"
  "hist (outside_log s) = hist s"
  "pid (outside_log s) = pid s"
  "sds_live (outside_log s) = sds_live s"
  by (simp_all add: outside_log_def)

text \<open>
  \<open>after s cs n t\<close>: compared with \<open>s\<close>, the process in state \<open>t\<close> has made the calls \<open>cs\<close>,
  holds \<open>n\<close> more sds strings and may have logged; everything else is as it was.
\<close>

definition after :: "'a logger_scheme \<Rightarrow> call list \<Rightarrow> int \<Rightarrow> 'a logger_scheme \<Rightarrow> bool" where
  "after s cs n t \<longleftrightarrow>
     outside_log t = (outside_log s)\<lparr>hist := hist s @ cs, sds_live := sds_live s + n\<rparr>"

lemma outside_log_idem: "(outside_log s)\<lparr>hist := hist s, sds_live := sds_live s\<rparr> = outside_log s"
  by (cases s) (simp add: outside_log_def)

lemma after_refl [simp]: "after s [] 0 s"
  by (simp add: after_def outside_log_idem)

lemma after_0: "after s cs 0 t \<longleftrightarrow> outside_log t = (outside_log s)\<lparr>hist := hist s @ cs\<rparr>"
proof -
  have "(outside_log s)\<lparr>hist := hist s @ cs, sds_live := sds_live s\<rparr> = (outside_log s)\<lparr>hist := hist s @ cs\<rparr>"
    by (cases s) (simp add: outside_log_def)
  then show ?thesis unfolding after_def by (simp only: add_0_right)
qed

lemma after_fields:
  assumes "after s cs n t"
  shows "hist t = hist s @ cs" and "sds_live t = sds_live s + n" and "pid t = pid s"
proof -
  note h = assms[unfolded after_def]
  show "hist t = hist s @ cs" using arg_cong[OF h, of hist] by simp
  show "sds_live t = sds_live s + n" using arg_cong[OF h, of sds_live] by simp
  show "pid t = pid s" using arg_cong[OF h, of pid] by simp
qed

lemma after_trans:
  assumes "after s cs n t" and "after t ds m u"
  shows "after s (cs @ ds) (n + m) u"
  using assms(2) after_fields[OF assms(1)] assms(1)
  by (simp add: after_def add.assoc)

lemma after_log [simp]: "after s cs n (log_st E ty m t) \<longleftrightarrow> after s cs n t"
  by (simp add: after_def)

lemma after_errno [simp]: "after s cs n (t\<lparr>errno := e\<rparr>) \<longleftrightarrow> after s cs n t"
  by (simp add: after_def)

lemma after_live:
  "after s cs n t \<Longrightarrow> after s cs (n + d) (t\<lparr>sds_live := sds_live t + d\<rparr>)"
  using after_fields(2)[of s cs n t] by (simp add: after_def add.assoc)

text \<open>Programs on the logger's state cannot touch the fields that larger components add.\<close>

lemma more_eq_upd:
  "logger.more t = logger.more s \<Longrightarrow> t = s\<lparr>hist := hist t, errno := errno t, pid := pid t,
     sds_live := sds_live t, gpcLogfile := gpcLogfile t, sCurrLogSettings := sCurrLogSettings t,
     Head := Head t, LogfileFd := LogfileFd t, iDataInQueueCount := iDataInQueueCount t,
     iIsInitDone := iIsInitDone t, iDoForceFlush := iDoForceFlush t, iShuttingDown := iShuttingDown t,
     bTerminateProg := bTerminateProg t, LoggerThread := LoggerThread t, logfile := logfile t,
     terminal := terminal t,
     lops := lops t, stamps := stamps t, naps := naps t\<rparr>"
  by (cases s; cases t) simp

lemma keeps_more_calls [frame]:
  "keeps logger.more (sysP E c)" "keeps logger.more (callP E c)" "keeps logger.more (sds_new E t)"
  "keeps logger.more (sds_get v)" "keeps logger.more (sds_free v)" "keeps logger.more (sds_cat E v t)"
  "keeps logger.more (sds_printf E v f as)" "keeps logger.more (sds_cat_dropped E v t)"
  by (auto simp: keeps_def sds_cat_def sds_printf_def sds_cat_dropped_def sds_get_def sds_free_def
      split: sds.split option.split)

lemma keeps_more_until_zero [frame]: "keeps logger.more (until_zero E n c)"
proof (induction n)
  case 0
  show ?case unfolding until_zero.simps by (rule keeps_trivial)
next
  case (Suc n)
  show ?case unfolding until_zero.simps by (intro keeps_rules keeps_more_calls Suc)
qed

lemma keeps_more_log [frame]:
  "keeps logger.more (log_debug E f as)" "keeps logger.more (log_info E f as)"
  "keeps logger.more (log_warning E f as)" "keeps logger.more (log_error E f as)"
  by (auto simp: keeps_def log_debug_def log_info_def log_warning_def log_error_def log_msg_def
      log_add_to_queue_def log_enqueue_def split: option.split)

lemma outside_log_blocks:
  "outside_log (final (thread_poll E l s)) = outside_log s"
  "outside_log (final (thread_open E l s)) = outside_log s"
  "outside_log (final (thread_pop E l s)) = outside_log s"
  "outside_log (final (thread_write E l m s)) = outside_log s"
  "outside_log (final (thread_close E l s)) = outside_log s"
  "outside_log (final (thread_update E l s)) = outside_log s"
  by (simp_all add: thread_poll_def thread_open_def thread_pop_def thread_write_def
      thread_close_def thread_update_def goto_def exit_errno_def split: option.split)

lemma outside_log_thread_step [frame]:
  "outside_log (final (logger_thread_step E s)) = outside_log s"
proof (cases "LoggerThread s")
  case None
  then show ?thesis by (simp add: logger_thread_step_def)
next
  case (Some l)
  then show ?thesis
    by (cases "pc l") (simp_all add: logger_thread_step_def outside_log_blocks)
qed

lemma outside_log_thread_run [frame]:
  "outside_log (final (thread_run E n s)) = outside_log s"
proof (induction n arbitrary: s)
  case (Suc n)
  then show ?case
    using outside_log_thread_step[of E s]
    by (cases "logger_thread_step E s") auto
qed simp

lemma outside_log_nap [frame]: "outside_log (final (usleep_nap E s)) = outside_log s"
  using outside_log_thread_run[of E "sched E (naps s)" "s\<lparr>naps := Suc (naps s)\<rparr>"]
  by (simp add: usleep_nap_def)

lemma outside_log_flush_loop [frame]:
  "outside_log (final (flush_loop E n s)) = outside_log s"
proof (induction n arbitrary: s)
  case (Suc n)
  show ?case
  proof (cases "usleep_nap E s")
    case (Ret u t)
    then have "outside_log t = outside_log s" using outside_log_nap[of E s] by simp
    with Ret Suc.IH[of t] show ?thesis by simp
  qed (use outside_log_nap[of E s] in simp_all)
qed simp

lemma outside_log_flush [frame]: "outside_log (final (logger_flush E s)) = outside_log s"
proof -
  let ?s = "s\<lparr>iDoForceFlush := True\<rparr>"
  have "outside_log ?s = outside_log s" by simp
  then show ?thesis
    using outside_log_flush_loop[of E 20 ?s]
    by (cases "flush_loop E 20 ?s") (auto simp: logger_flush_def simp del: flush_loop.simps)
qed

section \<open>Flushing\<close>

lemma flush_loop_drains:
  assumes "log_io_ok E" and "batch q f k s" and "k \<le> (\<Sum>i<n. sched E (naps s + i))"
  shows "\<exists>t. flush_loop E n s = Ret () t \<and> batch q f 0 t"
  using assms(2,3)
proof (induction n arbitrary: k s)
  case 0
  then show ?case by simp
next
  case (Suc n)
  show ?case
  proof (cases k)
    case 0
    with Suc.prems have "iDataInQueueCount s = 0" using batch_done by blast
    with 0 Suc.prems show ?thesis by simp
  next
    case (Suc k')
    with Suc.prems have c: "iDataInQueueCount s \<noteq> 0" using batch_count by blast
    let ?s = "s\<lparr>naps := Suc (naps s)\<rparr>"
    obtain t where t: "thread_run E (sched E (naps s)) ?s = Ret () t"
      "batch q f (k - sched E (naps s)) t" "naps t = Suc (naps s)"
      using batch_run[OF assms(1), of q f k ?s "sched E (naps s)"] Suc.prems(1) by auto
    have "k - sched E (naps s) \<le> (\<Sum>i<n. sched E (naps t + i))"
      using Suc.prems(2) by (simp add: sum.lessThan_Suc_shift t(3) del: sum.lessThan_Suc)
    from Suc.IH[OF t(2) this] t(1) c show ?thesis by (simp add: usleep_nap_def)
  qed
qed

text \<open>Steps a thread that is polling needs for \<open>n\<close> queued messages.\<close>

definition drain_steps :: "nat \<Rightarrow> nat" where
  "drain_steps n = (if n = 0 then 0 else 2 * n + 4)"

definition log_idle :: "'a logger_scheme \<Rightarrow> bool" where
  "log_idle s \<longleftrightarrow> (\<exists>l. LoggerThread s = Some l \<and> pc l = TPoll) \<and>
     iDataInQueueCount s = int (length (Head s)) \<and> 0 \<le> iBulkWrite (sCurrLogSettings s)"

lemma batch_idle_start:
  "log_idle s \<Longrightarrow> iDoForceFlush s \<Longrightarrow> batch (Head s) (logfile s) (drain_steps (length (Head s))) s"
  by (auto simp: log_idle_def batch_def drain_steps_def)

lemma logger_flush_batch:
  assumes "log_io_ok E" and "log_idle s"
    and "drain_steps (length (Head s)) \<le> (\<Sum>i<20. sched E (naps s + i))"
  shows "\<exists>t. logger_flush E s = Ret LOG_EXIT_SUCCESS t \<and> batch (Head s) (logfile s) 0 t"
proof -
  let ?s = "s\<lparr>iDoForceFlush := True\<rparr>"
  have "log_idle ?s" using assms(2) by (simp add: log_idle_def)
  from batch_idle_start[OF this] have "batch (Head s) (logfile s) (drain_steps (length (Head s))) ?s"
    by simp
  from flush_loop_drains[OF assms(1) this, of 20] assms(3)
  show ?thesis by (auto simp: logger_flush_def simp del: flush_loop.simps)
qed

text \<open>What starting, stopping and waiting for the logger leave alone, however they end.\<close>

definition aside :: "'a logger_scheme \<Rightarrow> call list \<times> int \<times> 'a" where
  "aside s = (hist s, pid s, logger.more s)"

lemma aside_outside_log: "outside_log t = outside_log s \<Longrightarrow> aside t = aside s"
proof -
  assume h: "outside_log t = outside_log s"
  have "logger.more (outside_log u) = logger.more u" for u :: "'a logger_scheme"
    by (simp add: outside_log_def)
  with h have "logger.more t = logger.more s" by metis
  with outside_log_eqD(1,2)[OF h] show ?thesis by (simp add: aside_def)
qed

lemma keeps_aside_sds [frame]:
  "keeps aside (sds_new E t)" "keeps aside (sds_free v)"
  by (auto simp: keeps_def aside_def sds_free_def split: sds.split)

lemma keeps_aside_log [frame]:
  "keeps aside (log_debug E f as)" "keeps aside (log_info E f as)"
  "keeps aside (log_warning E f as)" "keeps aside (log_error E f as)"
  by (auto simp: keeps_def aside_def log_debug_def log_info_def log_warning_def log_error_def log_msg_def
      log_add_to_queue_def log_enqueue_def split: option.split)

lemma keeps_aside_thread [frame]: "keeps aside (logger_thread_step E)" "keeps aside (logger_flush E)"
  using outside_log_thread_step outside_log_flush by (auto simp: keeps_def intro!: aside_outside_log)

lemma outside_log_thread_field [simp]: "outside_log (s\<lparr>LoggerThread := th\<rparr>) = outside_log s"
  by (simp add: outside_log_def)

lemma keeps_outside_join [frame]: "keeps outside_log (join_run E n)"
proof (induction n)
  case 0
  show ?case unfolding join_run.simps by (rule keeps_trivial)
next
  case (Suc n)
  have "keeps outside_log (logger_thread_step E)"
    unfolding keeps_def using outside_log_thread_step by blast
  with Suc show ?case unfolding join_run.simps
    by (intro keeps_rules keeps_modP) simp_all
qed

lemma keeps_aside_join [frame]: "keeps aside (join_run E n)"
  using keeps_outside_join[of E n] unfolding keeps_def by (blast intro: aside_outside_log)

lemma keeps_aside_destroy [frame]: "keeps aside (logger_destroy E)"
  unfolding logger_destroy_def cancel_and_join_def
  by (intro keeps_rules keeps_modP frame) (simp_all add: aside_def)

lemma keeps_aside_init [frame]: "keeps aside (logger_init E p lvl)"
  unfolding logger_init_def
  by (intro keeps_rules keeps_modP frame)
    (auto simp: aside_def keeps_def intro!: keeps_rules split: option.split)

text \<open>Joining a thread that is polling stops it at once.\<close>

lemma join_polling:
  assumes "LoggerThread s = Some l" and "pc l = TPoll"
  shows "cancel_and_join E s = Ret () (s\<lparr>LoggerThread := None\<rparr>)"
  using assms by (simp add: cancel_and_join_def numeral_eq_Suc)

text \<open>A process without the thread: nothing moves, the call still comes back.\<close>

lemma thread_run_none: "LoggerThread s = None \<Longrightarrow> thread_run E n s = Ret () s"
  by (induction n) (simp_all add: logger_thread_step_def)

lemma flush_loop_none:
  "LoggerThread s = None \<Longrightarrow> \<exists>k \<le> n. flush_loop E n s = Ret () (s\<lparr>naps := naps s + k\<rparr>)"
proof (induction n arbitrary: s)
  case 0
  then show ?case by (intro exI[of _ 0]) simp
next
  case (Suc n)
  show ?case
  proof (cases "iDataInQueueCount s = 0")
    case True
    then show ?thesis by (intro exI[of _ 0]) simp
  next
    case False
    from Suc.IH[of "s\<lparr>naps := Suc (naps s)\<rparr>"] Suc.prems
    obtain k where "k \<le> n" "flush_loop E n (s\<lparr>naps := Suc (naps s)\<rparr>) =
        Ret () (s\<lparr>naps := Suc (naps s) + k\<rparr>)" by auto
    with False Suc.prems show ?thesis
      by (intro exI[of _ "Suc k"]) (simp add: usleep_nap_def thread_run_none)
  qed
qed

lemma logger_flush_none:
  assumes "LoggerThread s = None"
  shows "\<exists>k \<le> 20. logger_flush E s = Ret LOG_EXIT_SUCCESS (s\<lparr>iDoForceFlush := True, naps := naps s + k\<rparr>)"
  using flush_loop_none[of "s\<lparr>iDoForceFlush := True\<rparr>" 20 E] assms
  by (auto simp: logger_flush_def simp del: flush_loop.simps)

section \<open>A logger in good order\<close>

text \<open>
  Whatever the thread is doing, its variables agree with the queue; or this process has no
  thread. With file and mutex calls that succeed, that is kept by everything a process does, and
  flushing always returns.
\<close>

definition log_sane :: "'a logger_scheme \<Rightarrow> bool" where
  "log_sane s \<longleftrightarrow> 0 \<le> iBulkWrite (sCurrLogSettings s) \<and> (\<forall>l. LoggerThread s = Some l \<longrightarrow>
     0 \<le> iDataWritten l \<and> thread_ok l (int (length (Head s))) (iDataInQueueCount s))"

lemma log_sane_updates [simp]:
  "log_sane (s\<lparr>hist := h\<rparr>) = log_sane s" "log_sane (s\<lparr>errno := e\<rparr>) = log_sane s"
  "log_sane (s\<lparr>sds_live := n\<rparr>) = log_sane s" "log_sane (s\<lparr>pid := p\<rparr>) = log_sane s"
  "log_sane (s\<lparr>naps := k\<rparr>) = log_sane s" "log_sane (s\<lparr>iDoForceFlush := b\<rparr>) = log_sane s"
  by (simp_all add: log_sane_def)

lemma log_sane_log_st: "log_sane s \<Longrightarrow> log_sane (log_st E ty m s)"
  by (auto simp: log_sane_def log_st_def log_enqueue_def STAILQ_INSERT_TAIL_def intro: thread_ok_grow)

lemma log_sane_step:
  assumes "log_io_ok E" and "log_sane s"
  shows "\<exists>t. logger_thread_step E s = Ret () t \<and> log_sane t"
proof (cases "LoggerThread s")
  case None
  with assms(2) show ?thesis by (simp add: logger_thread_step_def)
next
  case (Some l)
  from assms(1) have ok [simp]: "\<And>n. lres E n = 0" by (simp add: log_io_ok_def)
  note defs = logger_thread_step_def goto_def log_sane_def thread_ok_def
  show ?thesis
  proof (cases "pc l")
    case TPop
    with Some assms(2) have "Head s \<noteq> []" by (auto simp: log_sane_def thread_ok_def)
    then obtain m q where "Head s = m # q" by (auto simp: neq_Nil_conv)
    with Some TPop assms(2) show ?thesis
      by (simp add: defs thread_pop_def STAILQ_FIRST_def STAILQ_REMOVE_HEAD_def)
  qed (use Some assms(2) in \<open>auto simp: defs thread_poll_def thread_open_def thread_write_def
      thread_close_def thread_update_def Suc_le_eq\<close>)
qed

text \<open>Failing file or mutex calls end the process; short of that they do no harm either.\<close>

lemma preserves_sane_thread: "preserves log_sane (logger_thread_step E)"
proof (unfold preserves_def, intro allI impI)
  fix s t :: "'a logger_scheme" and a
  assume sane: "log_sane s" and step: "logger_thread_step E s = Ret a t"
  show "log_sane t"
  proof (cases "LoggerThread s")
    case None
    with sane step show ?thesis by (simp add: logger_thread_step_def)
  next
    case (Some l)
    note defs = logger_thread_step_def goto_def log_sane_def thread_ok_def exit_errno_def
    show ?thesis
    proof (cases "pc l")
      case TPop
      with Some sane have "Head s \<noteq> []" by (auto simp: log_sane_def thread_ok_def)
      then obtain m q where "Head s = m # q" by (auto simp: neq_Nil_conv)
      with Some TPop sane step show ?thesis
        by (auto simp: defs thread_pop_def STAILQ_FIRST_def STAILQ_REMOVE_HEAD_def split: if_split_asm)
    qed (use Some sane step in \<open>auto simp: defs thread_poll_def thread_open_def thread_write_def
        thread_close_def thread_update_def Suc_le_eq split: if_split_asm\<close>)
  qed
qed

lemma preserves_sane_flush: "preserves log_sane (logger_flush E)"
proof -
  have run: "preserves log_sane (thread_run E n)" for n
    by (induction n; unfold thread_run.simps) (intro preserves_rules preserves_sane_thread; assumption)+
  have "preserves log_sane (flush_loop E n)" for n
    by (induction n; unfold flush_loop.simps usleep_nap_def)
      (intro preserves_rules preserves_modP run; simp)+
  then show ?thesis unfolding logger_flush_def by (intro preserves_rules preserves_modP) simp_all
qed

lemma log_sane_run:
  assumes "log_io_ok E" and "log_sane s"
  shows "\<exists>t. thread_run E n s = Ret () t \<and> log_sane t"
  using assms(2)
proof (induction n arbitrary: s)
  case (Suc n)
  from log_sane_step[OF assms(1) Suc.prems] obtain t where "logger_thread_step E s = Ret () t" "log_sane t"
    by blast
  with Suc.IH[of t] show ?case by simp
qed simp

lemma log_sane_flush_loop:
  assumes "log_io_ok E" and "log_sane s"
  shows "\<exists>t. flush_loop E n s = Ret () t \<and> log_sane t"
  using assms(2)
proof (induction n arbitrary: s)
  case (Suc n)
  from Suc.prems log_sane_run[OF assms(1), of "s\<lparr>naps := Suc (naps s)\<rparr>" "sched E (naps s)"]
  obtain t where t: "usleep_nap E s = Ret () t" "log_sane t" by (auto simp: usleep_nap_def)
  with Suc show ?case by simp
qed simp

lemma log_sane_flush:
  assumes "log_io_ok E" and "log_sane s"
  shows "\<exists>t. logger_flush E s = Ret LOG_EXIT_SUCCESS t \<and> log_sane t \<and> outside_log t = outside_log s"
proof -
  from log_sane_flush_loop[OF assms(1), of "s\<lparr>iDoForceFlush := True\<rparr>" 20] assms(2) obtain t where
    "logger_flush E s = Ret LOG_EXIT_SUCCESS t" "log_sane t"
    by (auto simp: logger_flush_def simp del: flush_loop.simps)
  with outside_log_flush[of E s] show ?thesis by auto
qed

text \<open>
  The contract of an invariant that calls out of the code, sds strings and log calls respect.
  Every operation built from them keeps such an invariant; the components that follow prove that
  for their operations by extending this locale.
\<close>

locale call_invariant =
  fixes Q :: "'a logger_scheme \<Rightarrow> bool"
  assumes Q_call: "Q s \<Longrightarrow> Q (s\<lparr>hist := hist s @ [c], errno := e\<rparr>)"
    and Q_live: "Q s \<Longrightarrow> Q (s\<lparr>sds_live := n\<rparr>)"
    and Q_log: "Q s \<Longrightarrow> Q (log_st E ty m s)"
begin

lemma keep_calls:
  "preserves Q (callP E c)" "preserves Q (sysP E c)" "preserves Q (sds_new E t)"
  "preserves Q (sds_get v)" "preserves Q (sds_free v)" "preserves Q (sds_printf E v f as)"
  by (auto simp: preserves_def sds_get_def sds_free_def sds_printf_def Q_call Q_live split: sds.splits option.splits)

lemma keep_log:
  assumes "sds_doc E" and "fmt_ok f as"
  shows "preserves Q (log_debug E f as)" "preserves Q (log_info E f as)"
    "preserves Q (log_warning E f as)" "preserves Q (log_error E f as)"
  by (auto simp: preserves_def log_calls[OF assms] intro: Q_log)

end

interpretation sane: call_invariant log_sane
  by unfold_locales (simp_all add: log_sane_log_st)

text \<open>A process without the logger's thread writes nothing into the log file.\<close>

definition quiet :: "string list \<Rightarrow> 'a logger_scheme \<Rightarrow> bool" where
  "quiet f s \<longleftrightarrow> LoggerThread s = None \<and> logfile s = f"

interpretation quiet: call_invariant "quiet f" for f
  by unfold_locales (simp_all add: quiet_def)

section \<open>Stopping under any schedule\<close>

text \<open>The lines the logger is responsible for, in order, and the steps to the end of a batch.\<close>

definition log_lines :: "'a logger_scheme \<Rightarrow> string list" where
  "log_lines s = logfile s @ in_hand s @ Head s"

fun thread_left :: "tpc \<Rightarrow> int \<Rightarrow> nat" where
  "thread_left TPoll n = 0"
| "thread_left TOpen n = 2 * nat n + 3"
| "thread_left TPop n = 2 * nat n + 2"
| "thread_left (TWrite m) n = 2 * nat n + 1"
| "thread_left TClose n = 2"
| "thread_left TUpdate n = 1"

lemma log_lines_step:
  assumes "log_io_ok E" and "log_sane s" and "LoggerThread s = Some l"
  shows "\<exists>t l'. logger_thread_step E s = Ret () t \<and> LoggerThread t = Some l' \<and> log_lines t = log_lines s \<and>
    (pc l \<noteq> TPoll \<longrightarrow> Suc (thread_left (pc l') (iDataToWrite l')) = thread_left (pc l) (iDataToWrite l))"
proof -
  from assms(1) have ok [simp]: "\<And>n. lres E n = 0" by (simp add: log_io_ok_def)
  from assms(2,3) have tok: "thread_ok l (int (length (Head s))) (iDataInQueueCount s)"
    by (simp add: log_sane_def)
  note defs = logger_thread_step_def goto_def log_lines_def in_hand_def thread_ok_def
  show ?thesis
  proof (cases "pc l")
    case TPop
    with tok have "Head s \<noteq> []" by (auto simp: thread_ok_def)
    then obtain m q where "Head s = m # q" by (auto simp: neq_Nil_conv)
    with assms(3) TPop tok show ?thesis
      by (simp add: defs thread_pop_def STAILQ_FIRST_def STAILQ_REMOVE_HEAD_def)
  next
    case (TWrite m)
    with tok have "Suc (nat (iDataToWrite l - 1)) = nat (iDataToWrite l)" by (auto simp: thread_ok_def)
    with TWrite assms(3) tok show ?thesis by (auto simp: defs thread_write_def)
  next
    case TOpen
    with assms(3) tok show ?thesis by (simp add: defs thread_open_def)
  qed (use assms(3) in \<open>simp_all add: defs thread_poll_def thread_close_def thread_update_def\<close>)
qed

lemma log_lines_run:
  assumes "log_io_ok E" and "log_sane s" and "thread_run E n s = Ret () t"
  shows "log_lines t = log_lines s"
  using assms(2,3)
proof (induction n arbitrary: s)
  case (Suc n)
  from log_sane_step[OF assms(1) Suc.prems(1)] obtain u where
    u: "logger_thread_step E s = Ret () u" "log_sane u" by blast
  have "log_lines u = log_lines s"
  proof (cases "LoggerThread s")
    case None
    with u(1) show ?thesis by (simp add: logger_thread_step_def)
  next
    case (Some l)
    from log_lines_step[OF assms(1) Suc.prems(1) Some] u(1) show ?thesis by auto
  qed
  moreover from u(1) Suc.prems(2) have "thread_run E n u = Ret () t" by simp
  ultimately show ?case using Suc.IH[OF u(2)] by simp
qed simp

lemma log_lines_flush_loop:
  assumes "log_io_ok E" and "log_sane s" and "flush_loop E n s = Ret () t"
  shows "log_lines t = log_lines s"
  using assms(2,3)
proof (induction n arbitrary: s)
  case (Suc n)
  show ?case
  proof (cases "iDataInQueueCount s = 0")
    case False
    let ?s = "s\<lparr>naps := Suc (naps s)\<rparr>"
    from Suc.prems(1) have sane: "log_sane ?s" by simp
    from log_sane_run[OF assms(1) sane] obtain u where
      u: "thread_run E (sched E (naps s)) ?s = Ret () u" "log_sane u" by blast
    have "log_lines u = log_lines ?s" using log_lines_run[OF assms(1) sane u(1)] .
    then have "log_lines u = log_lines s" by (simp add: log_lines_def in_hand_def)
    with Suc.IH[OF u(2)] Suc.prems(2) u(1) False show ?thesis by (simp add: usleep_nap_def)
  qed (use Suc.prems in simp)
qed simp

text \<open>Cancelling waits for the batch in progress and loses none of its lines.\<close>

lemma join_run_returns:
  assumes "log_io_ok E" and "log_sane s"
    and "\<And>l. LoggerThread s = Some l \<Longrightarrow> thread_left (pc l) (iDataToWrite l) < n" and "0 < n"
  shows "\<exists>t. join_run E n s = Ret () t \<and> LoggerThread t = None \<and> log_lines t = log_lines s"
  using assms(2-4)
proof (induction n arbitrary: s)
  case (Suc n)
  show ?case
  proof (cases "LoggerThread s")
    case (Some l)
    show ?thesis
    proof (cases "pc l = TPoll")
      case True
      with Some show ?thesis by (simp add: log_lines_def in_hand_def)
    next
      case False
      from log_lines_step[OF assms(1) Suc.prems(1) Some] False obtain u l' where
        u: "logger_thread_step E s = Ret () u" "LoggerThread u = Some l'" "log_lines u = log_lines s"
        "Suc (thread_left (pc l') (iDataToWrite l')) = thread_left (pc l) (iDataToWrite l)" by blast
      have sane: "log_sane u" using log_sane_step[OF assms(1) Suc.prems(1)] u(1) by auto
      from Suc.prems(2)[OF Some] u(4) have "thread_left (pc l') (iDataToWrite l') < n" by simp
      with u(2) Suc.IH[OF sane] obtain t where
        "join_run E n u = Ret () t" "LoggerThread t = None" "log_lines t = log_lines u" by fastforce
      with Some False u(1,3) show ?thesis by simp
    qed
  qed simp
qed simp

lemma cancel_and_join_returns:
  assumes "log_io_ok E" and "log_sane s"
  shows "\<exists>t. cancel_and_join E s = Ret () t \<and> LoggerThread t = None \<and> log_lines t = log_lines s"
proof -
  have "thread_left (pc l) (iDataToWrite l) < 2 * length (Head s) + 6" if "LoggerThread s = Some l" for l
    using assms(2) that by (cases "pc l") (auto simp: log_sane_def thread_ok_def nat_less_iff)
  from join_run_returns[OF assms this] show ?thesis by (simp add: cancel_and_join_def)
qed

lemma logger_flush_lines:
  assumes "log_io_ok E" and "log_sane s"
  shows "\<exists>t. logger_flush E s = Ret LOG_EXIT_SUCCESS t \<and> log_sane t \<and> log_lines t = log_lines s \<and>
    outside_log t = outside_log s"
proof -
  let ?s = "s\<lparr>iDoForceFlush := True\<rparr>"
  from assms(2) have sane: "log_sane ?s" by simp
  from log_sane_flush_loop[OF assms(1) sane, of 20] obtain t where
    t: "flush_loop E 20 ?s = Ret () t" "log_sane t" by blast
  from log_lines_flush_loop[OF assms(1) sane t(1)] have "log_lines t = log_lines s"
    by (simp add: log_lines_def in_hand_def)
  with t outside_log_flush[of E s] show ?thesis
    by (auto simp: logger_flush_def simp del: flush_loop.simps)
qed

section \<open>Starting and stopping\<close>

text \<open>The line a log call puts into the queue: one, or none.\<close>

definition log_adds :: "env \<Rightarrow> tLoggerType \<Rightarrow> string \<Rightarrow> 'a logger_scheme \<Rightarrow> string list" where
  "log_adds E eType msg s =
     (if is_msg_allowed eType s = 0 \<and> \<not> log_full s \<and> lres E (lops s) = 0
      then [log_text (clock E (stamps s)) eType msg] else [])"

lemma log_st_queue:
  "Head (log_st E ty m s) = Head s @ log_adds E ty m s"
  "iDataInQueueCount (log_st E ty m s) = iDataInQueueCount s + int (length (log_adds E ty m s))"
  by (simp_all add: log_st_def log_adds_def log_enqueue_def STAILQ_INSERT_TAIL_def)

lemma log_idle_log_st: "log_idle s \<Longrightarrow> log_idle (log_st E ty m s)"
  by (auto simp: log_idle_def log_st_queue)

lemma length_log_adds: "length (log_adds E ty m s) \<le> 1"
  by (simp add: log_adds_def)

lemma drain_steps_mono: "m \<le> n \<Longrightarrow> drain_steps m \<le> drain_steps n"
  by (auto simp: drain_steps_def)

text \<open>The tail of \<^verbatim>\<open>logger_destroy\<close>, after the flush.\<close>

lemma logger_destroy_unfold:
  assumes "sds_doc E" and "iIsInitDone s"
  shows "logger_destroy E s =
    (let m = rendered [FL ''Destroying the logger from pid '', FD, FL ''.''] [AI (pid s)] in
     bindP (logger_flush E) (\<lambda>_.
     seqP (cancel_and_join E) (
     seqP (modP (\<lambda>s. s\<lparr>LogfileFd := False\<rparr>)) (
     bindP (getP gpcLogfile) (\<lambda>f.
     seqP (sds_free f) (
     seqP (modP (\<lambda>s. s\<lparr>gpcLogfile := SNull, Head := [], iDataInQueueCount := 0,
               iIsInitDone := False\<rparr>)) (retP LOG_EXIT_SUCCESS))))))
       ((log_st E eDEBUG m s)\<lparr>iShuttingDown := True\<rparr>))"
  using assms by (simp add: logger_destroy_def log_calls Let_def)

lemma logger_destroy_drains:
  assumes "sds_doc E" and "log_io_ok E" and "iIsInitDone s" and "log_idle s"
    and "gpcLogfile s = SLive p"
    and "drain_steps (Suc (length (Head s))) \<le> (\<Sum>i<20. sched E (naps s + i))"
  shows "\<exists>t extra. logger_destroy E s = Ret LOG_EXIT_SUCCESS t \<and>
    logfile t = logfile s @ Head s @ extra \<and> length extra \<le> 1 \<and>
    Head t = [] \<and> iDataInQueueCount t = 0 \<and> \<not> iIsInitDone t \<and> LoggerThread t = None \<and>
    gpcLogfile t = SNull \<and> \<not> LogfileFd t \<and> sds_live t = sds_live s - 1"
proof -
  define m where
    "m = rendered [FL ''Destroying the logger from pid '', FD, FL ''.''] [AI (pid s)]"
  define u where "u = (log_st E eDEBUG m s)\<lparr>iShuttingDown := True\<rparr>"
  define extra where "extra = log_adds E eDEBUG m s"
  have H: "Head u = Head s @ extra" and u: "naps u = naps s" "logfile u = logfile s"
    "gpcLogfile u = SLive p" "sds_live u = sds_live s"
    using assms by (simp_all add: u_def log_st_queue extra_def)
  have idle: "log_idle u" using log_idle_log_st[OF assms(4), of E eDEBUG m]
    by (simp add: u_def log_idle_def)
  have len: "length extra \<le> 1" unfolding extra_def by (rule length_log_adds)
  then have "drain_steps (length (Head u)) \<le> (\<Sum>i<20. sched E (naps u + i))"
    using assms(6) drain_steps_mono[of "length (Head u)" "Suc (length (Head s))"]
    by (simp add: H u del: sum.lessThan_Suc)
  from logger_flush_batch[OF assms(2) idle this] obtain v where
    v: "logger_flush E u = Ret LOG_EXIT_SUCCESS v" "batch (Head u) (logfile u) 0 v" by blast
  from outside_log_flush[of E u] v(1) have "outside_log v = outside_log u" by simp
  note o = outside_log_eqD[OF this]
  from batch_done[OF v(2)] obtain l where l: "Head v = []" "logfile v = logfile s @ Head s @ extra"
    "LoggerThread v = Some l" "pc l = TPoll" by (auto simp: H u)
  have "logger_destroy E s = Ret LOG_EXIT_SUCCESS (v\<lparr>LoggerThread := None, LogfileFd := False,
      sds_live := sds_live v - 1, gpcLogfile := SNull, Head := [], iDataInQueueCount := 0,
      iIsInitDone := False\<rparr>)"
    using logger_destroy_unfold[OF assms(1,3)] v(1) join_polling[OF l(3,4)] o u
    by (simp add: Let_def m_def[symmetric] u_def[symmetric])
  with l len o u show ?thesis by auto
qed

text \<open>
  Whatever the schedule, stopping the logger returns; what it puts into the file are the first
  of the lines it was responsible for.
\<close>

lemma logger_destroy_returns:
  assumes "sds_doc E" and "log_io_ok E" and "iIsInitDone s" and "log_sane s" and "gpcLogfile s = SLive p"
  shows "\<exists>t extra. logger_destroy E s = Ret LOG_EXIT_SUCCESS t \<and> length extra \<le> 1 \<and>
    prefix (logfile t) (log_lines s @ extra) \<and> LoggerThread t = None \<and> \<not> iIsInitDone t \<and>
    sds_live t = sds_live s - 1"
proof -
  define m where
    "m = rendered [FL ''Destroying the logger from pid '', FD, FL ''.''] [AI (pid s)]"
  define u where "u = (log_st E eDEBUG m s)\<lparr>iShuttingDown := True\<rparr>"
  have "log_sane (log_st E eDEBUG m s)" using assms(4) by (rule log_sane_log_st)
  then have sane: "log_sane u" by (simp add: u_def log_sane_def)
  have lu: "log_lines u = log_lines s @ log_adds E eDEBUG m s"
    by (simp add: u_def log_lines_def in_hand_def log_st_queue)
  from logger_flush_lines[OF assms(2) sane] obtain v where
    v: "logger_flush E u = Ret 0 v" "log_sane v" "log_lines v = log_lines u" "outside_log v = outside_log u" by blast
  from cancel_and_join_returns[OF assms(2) v(2)] obtain w where
    w: "cancel_and_join E v = Ret () w" "LoggerThread w = None" "log_lines w = log_lines v" by blast
  have "keeps outside_log (cancel_and_join E)"
    unfolding cancel_and_join_def by (intro keeps_rules keeps_outside_join)
  from keepsD[OF this w(1)] have "outside_log w = outside_log u" using v(4) by simp
  from outside_log_eqD(3,4)[OF this] assms(5) have g: "gpcLogfile w = SLive p" "sds_live w = sds_live s"
    by (simp_all add: u_def)
  have "log_lines w = logfile w @ Head w" using w(2) by (simp add: log_lines_def in_hand_def)
  with w(3) v(3) lu have p: "prefix (logfile w) (log_lines s @ log_adds E eDEBUG m s)" by (metis prefixI)
  show ?thesis
    using logger_destroy_unfold[OF assms(1,3)] v(1) w(1,2) g p length_log_adds[of E eDEBUG m s]
    by (intro exI[of _ "w\<lparr>LogfileFd := False, sds_live := sds_live w - 1, gpcLogfile := SNull, Head := [],
      iDataInQueueCount := 0, iIsInitDone := False\<rparr>"] exI[of _ "log_adds E eDEBUG m s"])
      (simp add: Let_def flip: m_def u_def)
qed

lemma logger_destroy_forked:
  assumes "sds_doc E" and "iIsInitDone s" and "LoggerThread s = None" and "gpcLogfile s = SLive p"
  shows "\<exists>t. logger_destroy E s = Ret LOG_EXIT_SUCCESS t \<and> logfile t = logfile s \<and>
    Head t = [] \<and> iDataInQueueCount t = 0 \<and> \<not> iIsInitDone t \<and> LoggerThread t = None \<and>
    gpcLogfile t = SNull \<and> sds_live t = sds_live s - 1"
proof -
  define m where
    "m = rendered [FL ''Destroying the logger from pid '', FD, FL ''.''] [AI (pid s)]"
  define u where "u = (log_st E eDEBUG m s)\<lparr>iShuttingDown := True\<rparr>"
  have u: "LoggerThread u = None" "logfile u = logfile s" "gpcLogfile u = SLive p"
    "sds_live u = sds_live s"
    using assms by (simp_all add: u_def)
  from logger_flush_none[OF u(1)] obtain k where
    k: "logger_flush E u = Ret 0 (u\<lparr>iDoForceFlush := True, naps := naps u + k\<rparr>)" by blast
  have j: "cancel_and_join E v = Ret () v" if "LoggerThread v = None" for v :: "'a logger_scheme"
    using that by (simp add: cancel_and_join_def numeral_eq_Suc)
  show ?thesis
    using logger_destroy_unfold[OF assms(1,2)] k u
    by (simp add: Let_def m_def[symmetric] u_def[symmetric] j)
qed

section \<open>Properties\<close>

definition demo_logger :: logger where
  "demo_logger = \<lparr>hist = [], errno = 0, pid = 1, sds_live = 1, gpcLogfile = SLive ''/log'',
     sCurrLogSettings = default_log_settings, Head = [''a'', ''b''], LogfileFd = False,
     iDataInQueueCount = 2, iIsInitDone = True, iDoForceFlush = False, iShuttingDown = False,
     bTerminateProg = False,
     LoggerThread = Some \<lparr>pc = TPoll, iDataToWrite = 0, iDataWritten = 0\<rparr>,
     logfile = [''x''], terminal = [], lops = 0, stamps = 0, naps = 0\<rparr>"

lemma demo_logger_ok:
  "log_io_ok calm_env" "log_idle demo_logger" "iIsInitDone demo_logger"
  "gpcLogfile demo_logger = SLive ''/log''" "Head demo_logger = [''a'', ''b'']"
  "drain_steps (length (Head demo_logger)) \<le> (\<Sum>i<20. sched calm_env (naps demo_logger + i))"
  "drain_steps (Suc (length (Head demo_logger))) \<le> (\<Sum>i<20. sched calm_env (naps demo_logger + i))"
  by (simp_all add: log_io_ok_def log_idle_def demo_logger_def default_log_settings_def
      drain_steps_def)

text \<open>
  C15. Flushing is effective: if the thread is polling when \<^verbatim>\<open>logger_flush\<close> is called, its
  file and mutex calls succeed, and it gets two steps per queued line and four more within the
  twenty naps, then the call returns with an empty queue and all lines in the file, in order.
\<close>

theorem logger_flush_writes_all:
  assumes "log_io_ok E" and "log_idle s"
    and "drain_steps (length (Head s)) \<le> (\<Sum>i<20. sched E (naps s + i))"
  shows "\<exists>t. logger_flush E s = Ret LOG_EXIT_SUCCESS t \<and> Head t = [] \<and>
    iDataInQueueCount t = 0 \<and> logfile t = logfile s @ Head s \<and> outside_log t = outside_log s"
proof -
  obtain t where t: "logger_flush E s = Ret 0 t" "batch (Head s) (logfile s) 0 t"
    using logger_flush_batch[OF assms] by blast
  with batch_done[OF t(2)] outside_log_flush[of E s] show ?thesis by auto
qed

theorem logger_flush_writes_all_witness:
  "\<exists>t. logger_flush calm_env demo_logger = Ret LOG_EXIT_SUCCESS t \<and> Head t = [] \<and>
    iDataInQueueCount t = 0 \<and> logfile t = logfile demo_logger @ Head demo_logger \<and>
    outside_log t = outside_log demo_logger"
  by (rule logger_flush_writes_all[OF demo_logger_ok(1,2,6)])

text \<open>
  C25. Stopping the logger loses nothing the thread had time for: if the logger runs, its thread is
  polling, its file and mutex calls succeed, and within the twenty naps the thread gets two steps
  for every queued line and for one more, and four besides, then \<^verbatim>\<open>logger_destroy\<close> writes every
  queued line (and possibly its own farewell line), ends the thread, frees the file name once and
  leaves the logger ready to be started again.
\<close>

theorem logger_destroy_writes_all:
  assumes "sds_doc E" and "log_io_ok E" and "iIsInitDone s" and "log_idle s"
    and "gpcLogfile s = SLive p"
    and "drain_steps (Suc (length (Head s))) \<le> (\<Sum>i<20. sched E (naps s + i))"
  shows "\<exists>t extra. logger_destroy E s = Ret LOG_EXIT_SUCCESS t \<and>
    logfile t = logfile s @ Head s @ extra \<and> length extra \<le> 1 \<and>
    Head t = [] \<and> iDataInQueueCount t = 0 \<and> \<not> iIsInitDone t \<and> LoggerThread t = None \<and>
    gpcLogfile t = SNull \<and> \<not> LogfileFd t \<and> sds_live t = sds_live s - 1"
  by (rule logger_destroy_drains[OF assms])

theorem logger_destroy_writes_all_witness:
  "\<exists>t extra. logger_destroy calm_env demo_logger = Ret LOG_EXIT_SUCCESS t \<and>
    logfile t = logfile demo_logger @ Head demo_logger @ extra \<and> length extra \<le> 1 \<and>
    Head t = [] \<and> iDataInQueueCount t = 0 \<and> \<not> iIsInitDone t \<and> LoggerThread t = None \<and>
    gpcLogfile t = SNull \<and> \<not> LogfileFd t \<and> sds_live t = sds_live demo_logger - 1"
  by (rule logger_destroy_writes_all[OF _ demo_logger_ok(1,3,2,4,7)]) simp

text \<open>
  C26. Which messages are accepted: a call succeeds exactly if the logger is running, neither it
  nor the program is shutting down, the message's level is not above the configured one, the
  counter does not exceed the configured size, and the mutex calls succeed. An accepted message
  is appended as one line, cut to 1023 characters; a message that fails any of the tests before
  the mutex leaves the queue as it was.
\<close>

theorem log_msg_accepts:
  assumes "sds_doc E" and "vformat f as = Some msg"
  shows "\<exists>r t. log_msg E ty f as s = Ret r t \<and>
    (r = LOG_EXIT_SUCCESS \<longleftrightarrow>
       iIsInitDone s \<and> \<not> bTerminateProg s \<and> \<not> iShuttingDown s \<and>
       level_of ty \<le> iCurrLogLevel (sCurrLogSettings s) \<and>
       iDataInQueueCount s \<le> iLoggerQueueSize (sCurrLogSettings s) \<and>
       lres E (lops s) = 0 \<and> lres E (Suc (lops s)) = 0) \<and>
    (r = LOG_EXIT_SUCCESS \<longrightarrow>
       Head t = Head s @ [clock E (stamps s) @ '' : '' @ pcLogTypeMsg ty @ '' : '' @
         take 1023 msg @ [CHR 0x0A]] \<and>
       iDataInQueueCount t = iDataInQueueCount s + 1) \<and>
    (is_msg_allowed ty s \<noteq> 0 \<or> log_full s \<longrightarrow> Head t = Head s) \<and>
    outside_log t = outside_log s"
  unfolding log_msg_eq[OF assms]
  by (intro exI conjI, rule refl)
    (auto simp: log_ret_def is_msg_allowed_iff log_full_def log_st_def log_enqueue_def
      STAILQ_INSERT_TAIL_def log_text_def not_less)

theorem log_msg_accepts_witness:
  "\<exists>t. log_msg calm_env eERROR [FL ''boom''] [] demo_logger = Ret LOG_EXIT_SUCCESS t \<and>
     Head t = [''a'', ''b'', ''now : Error : boom'' @ [CHR 0x0A]]"
  using log_msg_accepts[of calm_env "[FL ''boom'']" "[]" "''boom''" eERROR demo_logger]
  by (auto simp: demo_logger_def default_log_settings_def)

text \<open>
  The configured queue size is not the maximum number of queued lines: the test is
  \<open>count > size\<close>, so a call that finds exactly \<^verbatim>\<open>iLoggerQueueSize\<close> lines still adds one.
\<close>

lemma log_queue_overshoots:
  assumes "sds_doc E" and "log_io_ok E" and "fmt_ok f as" and "is_msg_allowed ty s = 0"
    and "iDataInQueueCount s = iLoggerQueueSize (sCurrLogSettings s)"
  shows "\<exists>t. log_msg E ty f as s = Ret LOG_EXIT_SUCCESS t \<and>
    iDataInQueueCount t = iLoggerQueueSize (sCurrLogSettings t) + 1"
  using assms
  by (simp add: log_msg_eq[OF assms(1) vformat_rendered[OF assms(3)]] log_ret_def log_full_def
      log_io_ok_def log_st_queue log_adds_def)

text \<open>
  Starting and stopping: a start whose file opens and whose thread is created succeeds; a
  second start is refused and changes nothing; so is a stop of a logger that is not running.
  A start that fails releases the file name it had copied and leaves the logger not running.
\<close>

lemma logger_start_stop:
  assumes "\<not> iIsInitDone s"
  shows "(lres E (lops s) = 0 \<and> lres E (Suc (lops s)) = 0 \<longrightarrow>
      (\<exists>t. logger_init E (Some p) lvl s = Ret LOG_EXIT_SUCCESS t \<and> iIsInitDone t \<and> log_idle (t\<lparr>
          sCurrLogSettings := default_log_settings\<rparr>) \<and> Head t = [] \<and>
          iCurrLogLevel (sCurrLogSettings t) = lvl \<and> gpcLogfile t = SLive (sds_newlen E p) \<and>
          (\<forall>p' lvl'. logger_init E p' lvl' t = Ret LOG_NOINIT t)))
    \<and> (lres E (lops s) \<noteq> 0 \<or> lres E (Suc (lops s)) \<noteq> 0 \<longrightarrow>
      (\<exists>t. logger_init E (Some p) lvl s = Ret LOG_EXIT_FAILURE t \<and> \<not> iIsInitDone t \<and>
          sds_live t = sds_live s \<and> LoggerThread t = LoggerThread s))
    \<and> logger_destroy E s = Ret LOG_NOINIT s"
  using assms
  by (auto simp: logger_init_def logger_destroy_def log_idle_def default_log_settings_def)

end
