(* ===== verification/Settings.thy ===== *)
theory Settings
  imports Logger_Flush
begin

text \<open>
  The settings, \<^verbatim>\<open>src/src/cew_settings.c\<close> with \<^verbatim>\<open>src/include/cew_settings.h\<close>: a table
  maps sections and keys of an ini file to the fields of a global structure. The ini parser
  libini is not part of the repository; its three reading functions are the record
  \<open>ini_lib\<close>, a parameter of \<^verbatim>\<open>settings_load\<close>, over an abstract reader state.
\<close>

section \<open>Data\<close>

record tsSSettings =
  lMaxClientsPerThread :: "64 word"
  lWorkerThreads :: "64 word"
  lLogLevel :: "64 word"
  lPort :: "64 word"
  pcLogfile :: sds

definition zero_settings :: tsSSettings where
  "zero_settings = \<lparr>lMaxClientsPerThread = 0, lWorkerThreads = 0, lLogLevel = 0, lPort = 0,
     pcLogfile = SNull\<rparr>"

record settings = logger +
  sCurrSSettings :: tsSSettings

datatype eSettingsType = TYPE_NONE | TYPE_LONG | TYPE_STRING

text \<open>The destinations: addresses of fields of \<^verbatim>\<open>sCurrSSettings\<close>.\<close>

datatype dst = At_lWorkerThreads | At_lMaxClientsPerThread | At_lPort | At_pcLogfile | At_lLogLevel

record tsOptionMapping =
  pSection :: "string option"
  pKey :: "string option"
  eType :: eSettingsType
  pvDst :: "dst option"

definition sKnownOptions :: "tsOptionMapping list" where
  "sKnownOptions =
    [\<lparr>pSection = Some ''general'', pKey = Some ''workers'', eType = TYPE_LONG, pvDst = Some At_lWorkerThreads\<rparr>,
     \<lparr>pSection = Some ''general'', pKey = Some ''clients'', eType = TYPE_LONG, pvDst = Some At_lMaxClientsPerThread\<rparr>,
     \<lparr>pSection = Some ''general'', pKey = Some ''port'', eType = TYPE_LONG, pvDst = Some At_lPort\<rparr>,
     \<lparr>pSection = Some ''logging'', pKey = Some ''logfile'', eType = TYPE_STRING, pvDst = Some At_pcLogfile\<rparr>,
     \<lparr>pSection = Some ''logging'', pKey = Some ''level'', eType = TYPE_LONG, pvDst = Some At_lLogLevel\<rparr>,
     \<lparr>pSection = None, pKey = None, eType = TYPE_NONE, pvDst = None\<rparr>]"

abbreviation (input) SET_EXIT_SUCCESS :: int where "SET_EXIT_SUCCESS \<equiv> 0"
abbreviation (input) SET_EXIT_FAILURE :: int where "SET_EXIT_FAILURE \<equiv> 1"
abbreviation (input) SET_NOTYPE :: int where "SET_NOTYPE \<equiv> - 1"
abbreviation (input) SET_NOMAP :: int where "SET_NOMAP \<equiv> - 2"
abbreviation (input) SET_NOFILE :: int where "SET_NOFILE \<equiv> - 3"

text \<open>Writing a long through an option's destination, and reading one.\<close>

fun put_long :: "dst option \<Rightarrow> 64 word \<Rightarrow> tsSSettings \<Rightarrow> tsSSettings" where
  "put_long (Some At_lWorkerThreads) v c = c\<lparr>lWorkerThreads := v\<rparr>"
| "put_long (Some At_lMaxClientsPerThread) v c = c\<lparr>lMaxClientsPerThread := v\<rparr>"
| "put_long (Some At_lPort) v c = c\<lparr>lPort := v\<rparr>"
| "put_long (Some At_lLogLevel) v c = c\<lparr>lLogLevel := v\<rparr>"
| "put_long _ v c = c"

fun get_long :: "dst option \<Rightarrow> tsSSettings \<Rightarrow> 64 word" where
  "get_long (Some At_lWorkerThreads) c = lWorkerThreads c"
| "get_long (Some At_lMaxClientsPerThread) c = lMaxClientsPerThread c"
| "get_long (Some At_lPort) c = lPort c"
| "get_long (Some At_lLogLevel) c = lLogLevel c"
| "get_long _ c = 0"

section \<open>Operations\<close>

abbreviation QUOTE :: string where "QUOTE \<equiv> [CHR 0x27]"

text \<open>
  \<^verbatim>\<open>printf("%s")\<close> of the log file setting; glibc prints a null pointer as \<^verbatim>\<open>(null)\<close>. A
  name that was freed is read only if the message gets as far as being formatted.
\<close>

definition show_sds :: "sds \<Rightarrow> string" where
  "show_sds v = (case v of SLive t \<Rightarrow> cstr t | _ \<Rightarrow> ''(null)'')"

definition log_setting :: "env \<Rightarrow> tsOptionMapping \<Rightarrow> ('a settings_scheme, unit) prog" where
  "log_setting E psSetting =
     (case pSection psSetting of
        None \<Rightarrow> faultP AssertionFailed
      | Some sec \<Rightarrow>
          bindP (getP sCurrSSettings) (\<lambda>c.
          case eType psSetting of
            TYPE_LONG \<Rightarrow>
              log_info E [FL ''Setting '', FS, FL '':'', FS, FL '' = '', FD]
                [AS sec, AS (the (pKey psSetting)), AI (sint (get_long (pvDst psSetting) c))]
          | TYPE_STRING \<Rightarrow>
              bindP (getP (\<lambda>s. is_msg_allowed eINFO s = 0 \<and> \<not> log_full s)) (\<lambda>formatted.
              if pcLogfile c = SFreed \<and> formatted then faultP UseAfterFree
              else log_info E [FL ''Setting '', FS, FL '':'', FS, FL '' = '', FS]
                [AS sec, AS (the (pKey psSetting)), AS (show_sds (pcLogfile c))])
          | TYPE_NONE \<Rightarrow> retP ()))"

definition settings_to_log :: "env \<Rightarrow> ('a settings_scheme, unit) prog" where
  "settings_to_log E = blockP (map (log_setting E) (take (length sKnownOptions - 1) sKnownOptions))"

definition option_matches :: "tsOptionMapping \<Rightarrow> string \<Rightarrow> string \<Rightarrow> bool" where
  "option_matches psSetting cpcSection cpcKey \<longleftrightarrow>
     strncmp (the (pSection psSetting)) (cstr cpcSection) (length (the (pSection psSetting))) = 0 \<and>
     strncmp (the (pKey psSetting)) (cstr cpcKey) (length (the (pKey psSetting))) = 0"

text \<open>The new string is copied after the old one is freed; the loop then goes on.\<close>

fun parse_loop ::
  "env \<Rightarrow> tsOptionMapping list \<Rightarrow> string \<Rightarrow> string \<Rightarrow> string \<Rightarrow> ('a settings_scheme, int) prog" where
  "parse_loop E [] cpcSection cpcKey cpcValue = retP SET_NOMAP"
| "parse_loop E (psSetting # rest) cpcSection cpcKey cpcValue =
     (case pSection psSetting of
        None \<Rightarrow> faultP AssertionFailed
      | Some _ \<Rightarrow>
          if option_matches psSetting cpcSection cpcKey then
            (case eType psSetting of
               TYPE_LONG \<Rightarrow>
                 seqP (modP (\<lambda>s. s\<lparr>sCurrSSettings := put_long (pvDst psSetting)
                         (word_of_int (strtol10 (cstr cpcValue))) (sCurrSSettings s)\<rparr>))
                   (retP SET_EXIT_SUCCESS)
             | TYPE_STRING \<Rightarrow>
                 bindP (getP (\<lambda>s. pcLogfile (sCurrSSettings s))) (\<lambda>old.
                 seqP (whenP (old \<noteq> SNull) (sds_free old)) (
                 bindP (sds_new E cpcValue) (\<lambda>new.
                 seqP (modP (\<lambda>s. s\<lparr>sCurrSSettings := (sCurrSSettings s)\<lparr>pcLogfile := new\<rparr>\<rparr>))
                   (parse_loop E rest cpcSection cpcKey cpcValue))))
             | TYPE_NONE \<Rightarrow> retP SET_NOTYPE)
          else parse_loop E rest cpcSection cpcKey cpcValue)"

definition parse_option ::
  "env \<Rightarrow> string \<Rightarrow> string \<Rightarrow> string \<Rightarrow> ('a settings_scheme, int) prog" where
  "parse_option E = parse_loop E (take (length sKnownOptions - 1) sKnownOptions)"

record 'h ini_lib =
  ini_open :: "string \<Rightarrow> 'h option"
  ini_next_section :: "'h \<Rightarrow> int \<times> string \<times> 'h"
  ini_read_pair :: "'h \<Rightarrow> int \<times> string \<times> string \<times> 'h"

text \<open>\<^verbatim>\<open>for (i = 0; s[i]; i++) s[i] = tolower(s[i])\<close>\<close>

definition lower_in_place :: "string \<Rightarrow> string" where
  "lower_in_place t = map c_tolower (cstr t) @ drop (length (cstr t)) t"

text \<open>
  The inner loop. Its result says whether the reader reported an error; then the caller jumps
  to its error label. \<open>n\<close> counts the rounds granted.
\<close>

fun pair_loop ::
  "env \<Rightarrow> 'h ini_lib \<Rightarrow> nat \<Rightarrow> string \<Rightarrow> 'h \<Rightarrow> ('a settings_scheme, bool \<times> 'h) prog" where
  "pair_loop E I 0 Section h = stuckP"
| "pair_loop E I (Suc n) Section h =
     (case ini_read_pair I h of (iRet, cpcBuf, buf2, h') \<Rightarrow>
      if iRet = 0 then
        seqP (log_debug E [FL ''No more data.''] []) (retP (False, h'))
      else if iRet < 0 then
        seqP (log_error E [FL ''ERROR: code '', FD] [AI iRet]) (retP (True, h'))
      else
        bindP (sds_new E cpcBuf) (\<lambda>vKey.
        bindP (sds_new E buf2) (\<lambda>vValue.
        bindP (sds_get vKey) (\<lambda>Key.
        bindP (sds_get vValue) (\<lambda>Value.
        seqP (log_info E [FL ''Reading Key: '', FL QUOTE, FS, FL QUOTE, FL '' Value: '', FL QUOTE, FS, FL QUOTE]
                [AS (cstr Key), AS (cstr Value)]) (
        bindP (parse_option E (lower_in_place Section) (lower_in_place Key) Value) (\<lambda>r.
        seqP (whenP (r \<noteq> 0) (log_error E [FL ''Error parsing option''] [])) (
        seqP (sds_free vKey) (
        seqP (sds_free vValue) (
        pair_loop E I n (lower_in_place Section) h'))))))))))"

fun section_loop ::
  "env \<Rightarrow> 'h ini_lib \<Rightarrow> nat \<Rightarrow> 'h \<Rightarrow> ('a settings_scheme, bool) prog" where
  "section_loop E I 0 h = stuckP"
| "section_loop E I (Suc n) h =
     (case ini_next_section I h of (iRet, cpcBuf, h') \<Rightarrow>
      if iRet = 0 then
        seqP (log_debug E [FL ''End of file.''] []) (retP False)
      else if iRet < 0 then
        seqP (log_debug E [FL ''ERROR: code '', FD] [AI iRet]) (retP True)
      else
        bindP (sds_new E cpcBuf) (\<lambda>vSection.
        bindP (sds_get vSection) (\<lambda>Section.
        seqP (log_debug E [FL ''Opening section: '', FL QUOTE, FS, FL QUOTE] [AS (cstr Section)]) (
        bindP (pair_loop E I (fuel E) Section h') (\<lambda>(err, h'').
        if err then retP True
        else seqP (sds_free vSection) (section_loop E I n h''))))))"

definition settings_load ::
  "env \<Rightarrow> 'h ini_lib \<Rightarrow> string \<Rightarrow> ('a settings_scheme, int) prog" where
  "settings_load E I cpcSettingsFile =
     (case ini_open I cpcSettingsFile of
        None \<Rightarrow> retP SET_NOFILE
      | Some sIni \<Rightarrow>
          seqP (log_debug E [FL ''INI file '', FS, FL '' opened.''] [AS cpcSettingsFile]) (
          bindP (section_loop E I (fuel E) sIni) (\<lambda>err.
          seqP (callP E Ini_close) (
          if err then retP SET_EXIT_FAILURE
          else seqP (settings_to_log E) (retP SET_EXIT_SUCCESS)))))"

definition settings_init :: "('a settings_scheme, int) prog" where
  "settings_init = retP SET_EXIT_SUCCESS"

definition settings_destroy :: "env \<Rightarrow> ('a settings_scheme, int) prog" where
  "settings_destroy E =
     bindP (getP (\<lambda>s. pcLogfile (sCurrSSettings s))) (\<lambda>f.
     seqP (whenP (f \<noteq> SNull) (sds_free f)) (
     seqP (modP (\<lambda>s. s\<lparr>sCurrSSettings := zero_settings\<rparr>)) (
     bindP (getP pid) (\<lambda>p.
     seqP (log_info E [FL ''Destroying settings from pid '', FD] [AI p])
       (retP SET_EXIT_SUCCESS)))))"

definition settings_get :: "('a settings_scheme, tsSSettings) prog" where
  "settings_get = getP sCurrSSettings"

definition settings_set :: "tsSSettings \<Rightarrow> ('a settings_scheme, int) prog" where
  "settings_set sNewSettings =
     seqP (modP (\<lambda>s. s\<lparr>sCurrSSettings := sNewSettings\<rparr>)) (retP SET_EXIT_SUCCESS)"

section \<open>Specification\<close>

text \<open>The option a section and a key name: the first whose two names are their prefixes.\<close>

definition find_option :: "string \<Rightarrow> string \<Rightarrow> tsOptionMapping option" where
  "find_option sec key = 
     find (\<lambda>opt. prefix (the (pSection opt)) (cstr sec) \<and> prefix (the (pKey opt)) (cstr key))
       (take 5 sKnownOptions)"

text \<open>The effect of one line of the file on the settings.\<close>

definition apply_pair :: "string \<Rightarrow> string \<times> string \<Rightarrow> tsSSettings \<Rightarrow> tsSSettings" where
  "apply_pair sec kv c =
     (case find_option (map c_tolower (cstr sec)) (map c_tolower (cstr (fst kv))) of
        None \<Rightarrow> c
      | Some opt \<Rightarrow>
          if eType opt = TYPE_STRING then c\<lparr>pcLogfile := SLive (snd kv)\<rparr>
          else put_long (pvDst opt) (word_of_int (strtol10 (cstr (snd kv)))) c)"

definition apply_file :: "(string \<times> (string \<times> string) list) list \<Rightarrow> tsSSettings \<Rightarrow> tsSSettings" where
  "apply_file secs c = fold (\<lambda>(sec, ps). fold (apply_pair sec) ps) secs c"

text \<open>The reader delivers these pairs, then says that the section ends.\<close>

fun ini_pairs :: "'h ini_lib \<Rightarrow> 'h \<Rightarrow> (string \<times> string) list \<Rightarrow> 'h option" where
  "ini_pairs I h [] = (case ini_read_pair I h of (r, k, v, h') \<Rightarrow> if r = 0 then Some h' else None)"
| "ini_pairs I h (kv # ps) = (case ini_read_pair I h of (r, k, v, h') \<Rightarrow>
     if r > 0 \<and> kv = (k, v) then ini_pairs I h' ps else None)"

fun ini_file :: "'h ini_lib \<Rightarrow> 'h \<Rightarrow> (string \<times> (string \<times> string) list) list \<Rightarrow> bool" where
  "ini_file I h [] = (fst (ini_next_section I h) = 0)"
| "ini_file I h ((sec, ps) # secs) = (case ini_next_section I h of (r, s', h') \<Rightarrow>
     r > 0 \<and> s' = sec \<and> (case ini_pairs I h' ps of None \<Rightarrow> False | Some h'' \<Rightarrow> ini_file I h'' secs))"

text \<open>
  Reading that may also go wrong: the pairs of a section up to its end or to an error of the
  reader, and the sections up to the end of the file, to an error between two sections, or to one
  inside the last section given.
\<close>

fun pairs_until :: "'h ini_lib \<Rightarrow> 'h \<Rightarrow> (string \<times> string) list \<Rightarrow> (bool \<times> 'h) option" where
  "pairs_until I h [] = (case ini_read_pair I h of (r, k, v, h') \<Rightarrow> if r > 0 then None else Some (r < 0, h'))"
| "pairs_until I h (kv # ps) = (case ini_read_pair I h of (r, k, v, h') \<Rightarrow>
     if r > 0 \<and> kv = (k, v) then pairs_until I h' ps else None)"

datatype ini_end = EndOfFile | BadSection | BadPair

fun ini_reads :: "'h ini_lib \<Rightarrow> 'h \<Rightarrow> (string \<times> (string \<times> string) list) list \<Rightarrow> ini_end \<Rightarrow> bool" where
  "ini_reads I h [] fin = (let r = fst (ini_next_section I h) in
     fin = EndOfFile \<and> r = 0 \<or> fin = BadSection \<and> r < 0)"
| "ini_reads I h ((sec, ps) # secs) fin = (case ini_next_section I h of (r, s', h') \<Rightarrow>
     r > 0 \<and> s' = sec \<and> (case pairs_until I h' ps of None \<Rightarrow> False
       | Some (bad, h'') \<Rightarrow> if bad then fin = BadPair \<and> secs = [] else ini_reads I h'' secs fin))"

text \<open>Strings the settings own.\<close>

definition owns :: "sds \<Rightarrow> int" where
  "owns v = (case v of SLive _ \<Rightarrow> 1 | _ \<Rightarrow> 0)"

section \<open>Operations that only log\<close>

lemma log_st_settings [simp, frame]: "sCurrSSettings (log_st E ty m s) = sCurrSSettings s"
  by (simp add: log_st_def log_enqueue_def)

lemma outside_log_settings: "outside_log t = outside_log s \<Longrightarrow> sCurrSSettings t = sCurrSSettings s"
  unfolding outside_log_def by (drule arg_cong[where f = sCurrSSettings]) simp

lemma outside_log_settings_upd [simp]:
  "outside_log (s\<lparr>sCurrSSettings := c\<rparr>) = (outside_log s)\<lparr>sCurrSSettings := c\<rparr>"
  by (simp add: outside_log_def)

lemma length_known [simp]: "length sKnownOptions - Suc 0 = 5"
  by (simp add: sKnownOptions_def)

lemma log_setting_run:
  assumes "sds_doc E" and "pSection opt \<noteq> None" and "pcLogfile (sCurrSSettings s) \<noteq> SFreed"
  shows "\<exists>t. log_setting E opt s = Ret () t \<and> outside_log t = outside_log s"
  using assms by (auto simp: log_setting_def log_calls split: eSettingsType.split)

lemma settings_to_log_run:
  assumes "sds_doc E" and "pcLogfile (sCurrSSettings s) \<noteq> SFreed"
  obtains t where "settings_to_log E s = Ret () t" and "outside_log t = outside_log s"
proof -
  have "\<exists>t. blockP (map (log_setting E) opts) s = Ret () t \<and> outside_log t = outside_log s"
    if "\<forall>opt \<in> set opts. pSection opt \<noteq> None" for opts
    using that assms(2)
  proof (induction opts arbitrary: s)
    case (Cons opt opts)
    then obtain u where u: "log_setting E opt s = Ret () u" "outside_log u = outside_log s"
      using log_setting_run[OF assms(1), of opt s] by auto
    with Cons.prems outside_log_settings[OF u(2)] Cons.IH[of u] show ?case by auto
  qed auto
  from this[of "take 5 sKnownOptions"] that show ?thesis
    unfolding settings_to_log_def by (auto simp: sKnownOptions_def)
qed

section \<open>One option\<close>

lemma known_options:
  assumes "opt \<in> set (take 5 sKnownOptions)"
  shows "\<exists>a. pSection opt = Some a" and "eType opt \<noteq> TYPE_NONE"
    and "NUL \<notin> set (the (pSection opt))" and "NUL \<notin> set (the (pKey opt))"
  using assms by (auto simp: sKnownOptions_def)

lemma option_matches_prefix:
  "opt \<in> set (take 5 sKnownOptions) \<Longrightarrow>
   option_matches opt sec key \<longleftrightarrow>
     prefix (the (pSection opt)) (cstr sec) \<and> prefix (the (pKey opt)) (cstr key)"
  by (simp add: option_matches_def strncmp_prefix known_options)

lemma find_option_matches:
  "find_option sec key = find (\<lambda>opt. option_matches opt sec key) (take 5 sKnownOptions)"
  unfolding find_option_def by (rule find_cong) (simp_all add: option_matches_prefix)

text \<open>The loop over a table in which nothing matches, then over any table.\<close>

lemma parse_loop_none:
  "(\<And>opt. opt \<in> set opts \<Longrightarrow> (\<exists>a. pSection opt = Some a) \<and> \<not> option_matches opt sec key) \<Longrightarrow>
   parse_loop E opts sec key v s = Ret SET_NOMAP s"
proof (induction opts)
  case (Cons opt opts)
  then obtain a where "pSection opt = Some a" "\<not> option_matches opt sec key" by auto
  with Cons show ?case by simp
qed simp

lemma parse_loop_eq:
  assumes "sds_doc E" and "pcLogfile (sCurrSSettings s) \<noteq> SFreed"
    and "\<And>opt. opt \<in> set opts \<Longrightarrow> (\<exists>a. pSection opt = Some a) \<and> eType opt \<noteq> TYPE_NONE"
    and "\<And>xs opt ys opt'. opts = xs @ opt # ys \<Longrightarrow> opt' \<in> set ys \<Longrightarrow> eType opt = TYPE_STRING \<Longrightarrow>
      option_matches opt sec key \<Longrightarrow> \<not> option_matches opt' sec key"
  shows "parse_loop E opts sec key v s =
    (case find (\<lambda>opt. option_matches opt sec key) opts of
       None \<Rightarrow> Ret SET_NOMAP s
     | Some opt \<Rightarrow>
         if eType opt = TYPE_STRING then
           Ret SET_NOMAP (s\<lparr>sCurrSSettings := (sCurrSSettings s)\<lparr>pcLogfile := SLive v\<rparr>,
             sds_live := sds_live s + 1 - owns (pcLogfile (sCurrSSettings s))\<rparr>)
         else
           Ret SET_EXIT_SUCCESS (s\<lparr>sCurrSSettings :=
             put_long (pvDst opt) (word_of_int (strtol10 (cstr v))) (sCurrSSettings s)\<rparr>))"
  using assms(3,4)
proof (induction opts)
  case (Cons opt opts)
  from Cons.prems(1)[of opt] obtain a where a: "pSection opt = Some a" and t: "eType opt \<noteq> TYPE_NONE"
    by auto
  show ?case
  proof (cases "option_matches opt sec key")
    case False
    have "parse_loop E (opt # opts) sec key v s = parse_loop E opts sec key v s"
      using a False by simp
    also have "\<dots> = (case find (\<lambda>opt. option_matches opt sec key) opts of
       None \<Rightarrow> Ret SET_NOMAP s
     | Some opt \<Rightarrow>
         if eType opt = TYPE_STRING then
           Ret SET_NOMAP (s\<lparr>sCurrSSettings := (sCurrSSettings s)\<lparr>pcLogfile := SLive v\<rparr>,
             sds_live := sds_live s + 1 - owns (pcLogfile (sCurrSSettings s))\<rparr>)
         else
           Ret SET_EXIT_SUCCESS (s\<lparr>sCurrSSettings :=
             put_long (pvDst opt) (word_of_int (strtol10 (cstr v))) (sCurrSSettings s)\<rparr>))"
      using Cons.prems(1) Cons.prems(2)[of "opt # xs" for xs] by (intro Cons.IH) auto
    finally show ?thesis using False by simp
  next
    case True
    show ?thesis
    proof (cases "eType opt = TYPE_STRING")
      case False
      with t have "eType opt = TYPE_LONG" by (cases "eType opt") auto
      with True a show ?thesis by simp
    next
      case str: True
      have rest: "parse_loop E opts sec key v u = Ret SET_NOMAP u" for u :: "'a settings_scheme"
        using Cons.prems(1) Cons.prems(2)[of "[]" opt opts] True str by (intro parse_loop_none) auto
      with True a str assms(1,2) show ?thesis
        by (cases "pcLogfile (sCurrSSettings s)") (simp_all add: sds_docD owns_def)
    qed
  qed
qed simp

lemma string_option_alone:
  assumes "take 5 sKnownOptions = xs @ opt # ys" and "opt' \<in> set ys" and "eType opt = TYPE_STRING"
    and "option_matches opt sec key"
  shows "\<not> option_matches opt' sec key"
proof -
  have o: "opt = sKnownOptions ! 3 \<and> opt' = sKnownOptions ! 4"
    using assms(1-3) by (auto simp: sKnownOptions_def Cons_eq_append_conv)
  have "opt \<in> set (take 5 sKnownOptions)" "opt' \<in> set (take 5 sKnownOptions)" using assms(1,2) by auto
  moreover have "\<not> (prefix ''logfile'' k \<and> prefix ''level'' k)" for k by (auto simp: prefix_def)
  moreover have "the (pKey opt) = ''logfile''" "the (pKey opt') = ''level''"
    using o by (simp_all add: sKnownOptions_def)
  ultimately show ?thesis using assms(4) option_matches_prefix by metis
qed

lemma parse_option_eq:
  assumes "sds_doc E" and "pcLogfile (sCurrSSettings s) \<noteq> SFreed"
  shows "parse_option E sec key v s =
    (case find_option sec key of
       None \<Rightarrow> Ret SET_NOMAP s
     | Some opt \<Rightarrow>
         if eType opt = TYPE_STRING then
           Ret SET_NOMAP (s\<lparr>sCurrSSettings := (sCurrSSettings s)\<lparr>pcLogfile := SLive v\<rparr>,
             sds_live := sds_live s + 1 - owns (pcLogfile (sCurrSSettings s))\<rparr>)
         else
           Ret SET_EXIT_SUCCESS (s\<lparr>sCurrSSettings :=
             put_long (pvDst opt) (word_of_int (strtol10 (cstr v))) (sCurrSSettings s)\<rparr>))"
proof -
  have five: "length sKnownOptions - 1 = 5" by simp
  show ?thesis
    unfolding parse_option_def five find_option_matches
    by (rule parse_loop_eq[OF assms]) (auto simp: known_options string_option_alone)
qed

section \<open>Whole files\<close>

text \<open>
  \<open>t\<close> is \<open>s\<close> with the settings \<open>c\<close>, up to logging: nothing else has changed, and the number
  of live strings has changed exactly by what the settings own.
\<close>

definition cfg_result :: "tsSSettings \<Rightarrow> 'a settings_scheme \<Rightarrow> 'a settings_scheme \<Rightarrow> bool" where
  "cfg_result c s t \<longleftrightarrow> outside_log t = (outside_log s)\<lparr>sCurrSSettings := c,
     sds_live := sds_live s + owns (pcLogfile c) - owns (pcLogfile (sCurrSSettings s))\<rparr>"

lemma cfg_resultD:
  assumes "cfg_result c s t"
  shows "sCurrSSettings t = c"
    and "sds_live t = sds_live s + owns (pcLogfile c) - owns (pcLogfile (sCurrSSettings s))"
proof -
  note h = assms[unfolded cfg_result_def]
  show "sCurrSSettings t = c" using arg_cong[OF h, of sCurrSSettings] by (simp add: outside_log_def)
  show "sds_live t = sds_live s + owns (pcLogfile c) - owns (pcLogfile (sCurrSSettings s))"
    using arg_cong[OF h, of sds_live] by (simp add: outside_log_def)
qed

lemma cfg_result_trans:
  assumes "cfg_result c s t" and "cfg_result c' t u"
  shows "cfg_result c' s u"
  using assms(2) cfg_resultD[OF assms(1)] assms(1) by (simp add: cfg_result_def)

lemma cfg_result_log:
  "outside_log t = outside_log s \<Longrightarrow> cfg_result (sCurrSSettings s) s t"
  "outside_log t = outside_log s \<Longrightarrow> cfg_result (sCurrSSettings s) (s\<lparr>sds_live := sds_live s\<rparr>) t"
  by (simp_all add: cfg_result_def outside_log_def)

lemma cfg_result_leak:
  "cfg_result c s t \<Longrightarrow> cfg_result c (s\<lparr>sds_live := sds_live s + l\<rparr>) (t\<lparr>sds_live := sds_live t + l\<rparr>)"
  using cfg_resultD(2)[of c s t] by (simp add: cfg_result_def)

lemma pairs_until_ok: "ini_pairs I h ps = Some h' \<Longrightarrow> pairs_until I h ps = Some (False, h')"
  by (induction ps arbitrary: h) (auto split: prod.splits if_splits)

lemma ini_file_reads: "ini_file I h secs \<Longrightarrow> ini_reads I h secs EndOfFile"
proof (induction secs arbitrary: h)
  case (Cons a secs)
  then show ?case by (cases a) (auto simp: pairs_until_ok split: prod.splits option.splits)
qed simp

lemma pcLogfile_put_long [simp]: "pcLogfile (put_long d v c) = pcLogfile c"
  by (cases "(d, v, c)" rule: put_long.cases) simp_all

lemma cstr_lower_in_place [simp]: "cstr (lower_in_place t) = map c_tolower (cstr t)"
proof -
  have "cstr (map c_tolower (cstr t) @ drop (length (cstr t)) t) = map c_tolower (cstr t)"
  proof (cases "drop (length (cstr t)) t")
    case Nil
    then show ?thesis using cstr_no_nul[of t] by (simp add: cstr_id)
  next
    case (Cons c r)
    then have "c = NUL"
      using hd_dropWhile[of "\<lambda>c. c \<noteq> NUL" t] by (auto simp: cstr_def dropWhile_eq_drop)
    with Cons show ?thesis using cstr_no_nul[of t] by (simp add: cstr_append_nul)
  qed
  then show ?thesis by (simp add: lower_in_place_def)
qed

lemma cstr_map_lower [simp]: "cstr (map c_tolower (cstr t)) = map c_tolower (cstr t)"
  using cstr_no_nul[of t] by (simp add: cstr_id)

lemma map_lower_idem [simp]: "map c_tolower (map c_tolower t) = map c_tolower t"
  by simp

lemma apply_pair_lower [simp]: "apply_pair (lower_in_place sec) = apply_pair sec"
  by (simp add: fun_eq_iff apply_pair_def comp_def)

lemma apply_pair_not_freed: "pcLogfile c \<noteq> SFreed \<Longrightarrow> pcLogfile (apply_pair sec kv c) \<noteq> SFreed"
  by (simp add: apply_pair_def split: option.split)

lemma parse_option_cfg:
  assumes "sds_doc E" and "pcLogfile (sCurrSSettings s) \<noteq> SFreed"
  shows "\<exists>r t. parse_option E (lower_in_place sec) (lower_in_place k) v s = Ret r t \<and>
    cfg_result (apply_pair sec (k, v) (sCurrSSettings s)) s t"
proof -
  have f: "find_option (lower_in_place sec) (lower_in_place k) =
      find_option (map c_tolower (cstr sec)) (map c_tolower (cstr k))"
    by (simp add: find_option_def)
  show ?thesis
    unfolding parse_option_eq[OF assms] f
    by (auto simp: cfg_result_def apply_pair_def owns_def outside_log_def split: option.split)
qed

lemma pair_loop_cfg:
  assumes "sds_doc E" and "pairs_until I h ps = Some (bad, h')" and "length ps < n"
    and "pcLogfile (sCurrSSettings s) \<noteq> SFreed"
  shows "\<exists>t. pair_loop E I n Section h s = Ret (bad, h') t \<and>
    cfg_result (fold (apply_pair Section) ps (sCurrSSettings s)) s t"
  using assms(2-)
proof (induction ps arbitrary: n Section h s)
  case Nil
  then obtain n' where n: "n = Suc n'" by (cases n) auto
  from Nil.prems obtain r k v where "ini_read_pair I h = (r, k, v, h')" "\<not> r > 0" "bad = (r < 0)"
    by (auto split: prod.splits if_splits)
  with n show ?case by (auto simp: log_calls[OF assms(1)] cfg_result_log)
next
  case (Cons kv ps)
  obtain k v where kv: "kv = (k, v)" by (cases kv)
  from Cons.prems(2) obtain n' where n: "n = Suc n'" "length ps < n'" by (cases n) auto
  from Cons.prems(1) kv obtain r h1 where r: "ini_read_pair I h = (r, k, v, h1)" "r > 0"
    "pairs_until I h1 ps = Some (bad, h')" by (auto split: prod.splits if_splits)
  define m where "m = rendered [FL ''Reading Key: '', FL QUOTE, FS, FL QUOTE, FL '' Value: '',
    FL QUOTE, FS, FL QUOTE] [AS (cstr k), AS (cstr v)]"
  define u where "u = log_st E eINFO m (s\<lparr>sds_live := sds_live s + 1 + 1\<rparr>)"
  have u: "sCurrSSettings u = sCurrSSettings s" "sds_live u = sds_live s + 2"
    "outside_log u = (outside_log s)\<lparr>sds_live := sds_live s + 2\<rparr>"
    by (simp_all add: u_def)
  obtain x w where w: "parse_option E (lower_in_place Section) (lower_in_place k) v u = Ret x w"
    "cfg_result (apply_pair Section kv (sCurrSSettings u)) u w"
    using parse_option_cfg[OF assms(1), of u Section k v] Cons.prems(3) u(1) kv by auto
  define y where "y = (if x \<noteq> 0
    then log_st E eERROR (rendered [FL ''Error parsing option''] []) w else w)
    \<lparr>sds_live := sds_live w - 1 - 1\<rparr>"
  have y: "cfg_result (apply_pair Section kv (sCurrSSettings s)) s y"
    using w(2) cfg_resultD[OF w(2)] u by (simp add: y_def cfg_result_def)
  have "pcLogfile (sCurrSSettings y) \<noteq> SFreed"
    using cfg_resultD(1)[OF y] apply_pair_not_freed Cons.prems(3) by simp
  from Cons.IH[OF r(3) n(2) this, of "lower_in_place Section"] obtain t where
    t: "pair_loop E I n' (lower_in_place Section) h1 y = Ret (bad, h') t"
    "cfg_result (fold (apply_pair Section) ps (sCurrSSettings y)) y t" by auto
  have "pair_loop E I n Section h s = pair_loop E I n' (lower_in_place Section) h1 y"
    using n(1) r(1,2) w(1)
    by (simp add: log_calls[OF assms(1)] sds_docD[OF assms(1)] u_def m_def y_def)
  with t y cfg_resultD(1)[OF y] show ?case by (auto intro: cfg_result_trans)
qed

lemma apply_file_simps [simp]:
  "apply_file [] c = c"
  "apply_file ((sec, ps) # secs) c = apply_file secs (fold (apply_pair sec) ps c)"
  by (simp_all add: apply_file_def)

lemma fold_apply_pair_not_freed:
  "pcLogfile c \<noteq> SFreed \<Longrightarrow> pcLogfile (fold (apply_pair sec) ps c) \<noteq> SFreed"
  by (induction ps arbitrary: c) (simp_all add: apply_pair_not_freed)

lemma apply_file_not_freed:
  "pcLogfile c \<noteq> SFreed \<Longrightarrow> pcLogfile (apply_file secs c) \<noteq> SFreed"
proof (induction secs arbitrary: c)
  case (Cons a secs)
  then show ?case by (cases a) (simp add: fold_apply_pair_not_freed)
qed simp

definition leak_of :: "ini_end \<Rightarrow> int" where
  "leak_of fin = (if fin = BadPair then 1 else 0)"

lemma section_loop_cfg:
  assumes "sds_doc E" and "ini_reads I h secs fin" and "length secs < n"
    and "\<forall>(sec, ps) \<in> set secs. length ps < fuel E"
    and "pcLogfile (sCurrSSettings s) \<noteq> SFreed"
  shows "\<exists>t. section_loop E I n h s = Ret (fin \<noteq> EndOfFile) t \<and>
    cfg_result (apply_file secs (sCurrSSettings s)) (s\<lparr>sds_live := sds_live s + leak_of fin\<rparr>) t"
  using assms(2-)
proof (induction secs arbitrary: n h s)
  case Nil
  then obtain n' where n: "n = Suc n'" by (cases n) auto
  obtain r b h' where nx: "ini_next_section I h = (r, b, h')" by (cases "ini_next_section I h")
  with Nil.prems(1) have "fin = EndOfFile \<and> r = 0 \<or> fin = BadSection \<and> r < 0" by simp
  then show ?case
  proof
    assume "fin = EndOfFile \<and> r = 0"
    with n nx show ?thesis by (simp add: log_calls[OF assms(1)] leak_of_def cfg_result_log)
  next
    assume "fin = BadSection \<and> r < 0"
    with n nx show ?thesis by (simp add: log_calls[OF assms(1)] leak_of_def cfg_result_log)
  qed
next
  case (Cons sp secs)
  obtain sec ps where sp: "sp = (sec, ps)" by (cases sp)
  from Cons.prems(2) obtain n' where n: "n = Suc n'" "length secs < n'" by (cases n) auto
  from Cons.prems(1) sp obtain r bad h1 h2 where r: "ini_next_section I h = (r, sec, h1)" "r > 0"
    "pairs_until I h1 ps = Some (bad, h2)" "if bad then fin = BadPair \<and> secs = [] else ini_reads I h2 secs fin"
    by (auto split: prod.splits option.splits)
  define u where "u = log_st E eDEBUG
    (rendered [FL ''Opening section: '', FL QUOTE, FS, FL QUOTE] [AS (cstr sec)])
    (s\<lparr>sds_live := sds_live s + 1\<rparr>)"
  have u: "sCurrSSettings u = sCurrSSettings s" "sds_live u = sds_live s + 1"
    "outside_log u = (outside_log s)\<lparr>sds_live := sds_live s + 1\<rparr>"
    by (simp_all add: u_def)
  obtain w where w: "pair_loop E I (fuel E) sec h1 u = Ret (bad, h2) w"
    "cfg_result (fold (apply_pair sec) ps (sCurrSSettings u)) u w"
    using pair_loop_cfg[OF assms(1) r(3), of "fuel E" u sec] Cons.prems(3,4) sp u(1) by auto
  show ?case
  proof (cases bad)
    case True
    with n(1) r w(1) have "section_loop E I n h s = Ret True w" "fin = BadPair" "secs = []"
      by (simp_all add: log_calls[OF assms(1)] sds_docD[OF assms(1)] u_def)
    with w(2) sp u show ?thesis by (simp add: leak_of_def cfg_result_def)
  next
    case False
    define y where "y = w\<lparr>sds_live := sds_live w - 1\<rparr>"
    have y: "cfg_result (fold (apply_pair sec) ps (sCurrSSettings s)) s y"
      using w(2) cfg_resultD[OF w(2)] u by (simp add: y_def cfg_result_def)
    have "pcLogfile (sCurrSSettings y) \<noteq> SFreed"
      using cfg_resultD(1)[OF y] fold_apply_pair_not_freed Cons.prems(4) by simp
    with Cons.IH[OF _ n(2), of h2 y] r(4) False Cons.prems(3) obtain t where
      t: "section_loop E I n' h2 y = Ret (fin \<noteq> EndOfFile) t"
      "cfg_result (apply_file secs (sCurrSSettings y)) (y\<lparr>sds_live := sds_live y + leak_of fin\<rparr>) t" by auto
    have "section_loop E I n h s = section_loop E I n' h2 y"
      using n(1) r(1,2) w(1) False
      by (simp add: log_calls[OF assms(1)] sds_docD[OF assms(1)] u_def y_def)
    with t(1) cfg_result_trans[OF cfg_result_leak[OF y] t(2)] cfg_resultD(1)[OF y] sp show ?thesis by simp
  qed
qed

section \<open>Properties\<close>

text \<open>A reader over an ini file that is given as a list, and the repository's own file.\<close>

type_synonym ini_contents = "(string \<times> (string \<times> string) list) list"

fun list_next_section ::
  "ini_contents \<times> (string \<times> string) list \<Rightarrow> int \<times> string \<times> (ini_contents \<times> (string \<times> string) list)" where
  "list_next_section ([], ps) = (0, [], ([], []))"
| "list_next_section ((sec, qs) # secs, ps) = (1, sec, (secs, qs))"

fun list_read_pair ::
  "ini_contents \<times> (string \<times> string) list \<Rightarrow>
   int \<times> string \<times> string \<times> (ini_contents \<times> (string \<times> string) list)" where
  "list_read_pair (secs, []) = (0, [], [], (secs, []))"
| "list_read_pair (secs, (k, v) # ps) = (1, k, v, (secs, ps))"

definition list_ini :: "ini_contents \<Rightarrow> (ini_contents \<times> (string \<times> string) list) ini_lib" where
  "list_ini secs = \<lparr>ini_open = (\<lambda>_. Some (secs, [])), ini_next_section = list_next_section,
     ini_read_pair = list_read_pair\<rparr>"

definition valid_settings_ini :: ini_contents where
  "valid_settings_ini =
     [(''General'', [(''port'', ''9000''), (''workers'', ''4''), (''clients'', ''50'')]),
      (''Logging'', [(''logfile'', ''/var/log/cewserver.log''), (''level'', ''2'')])]"

definition start_settings :: settings where
  "start_settings = \<lparr>hist = [], errno = 0, pid = 1, sds_live = 0, gpcLogfile = SNull,
     sCurrLogSettings = default_log_settings, Head = [], LogfileFd = False,
     iDataInQueueCount = 0, iIsInitDone = False, iDoForceFlush = False, iShuttingDown = False,
     bTerminateProg = False, LoggerThread = None, logfile = [], terminal = [], lops = 0, stamps = 0, naps = 0,
     sCurrSSettings = zero_settings\<rparr>"

lemma list_ini_file: "ini_file (list_ini secs0) (secs, []) secs"
proof -
  have p: "ini_pairs (list_ini secs0) (secs, ps) ps = Some (secs, [])"
    for secs :: ini_contents and ps
    by (induction ps) (auto simp: list_ini_def)
  have "ini_file (list_ini secs0) (secs, ps) secs" for ps
  proof (induction secs arbitrary: ps)
    case (Cons a secs)
    then show ?case using p by (cases a) (simp add: list_ini_def)
  qed (simp add: list_ini_def)
  then show ?thesis .
qed

lemma settings_load_reads:
  assumes "sds_doc E" and "ini_open I path = Some h" and "ini_reads I h secs fin"
    and "length secs < fuel E" and "\<forall>(sec, ps) \<in> set secs. length ps < fuel E"
    and "pcLogfile (sCurrSSettings s) \<noteq> SFreed"
  shows "\<exists>t. settings_load E I path s = Ret (if fin = EndOfFile then SET_EXIT_SUCCESS else SET_EXIT_FAILURE) t \<and>
    sCurrSSettings t = apply_file secs (sCurrSSettings s) \<and>
    outside_log t = (outside_log s)\<lparr>hist := hist s @ [Ini_close], sCurrSSettings := apply_file secs (sCurrSSettings s),
      sds_live := sds_live s + owns (pcLogfile (apply_file secs (sCurrSSettings s)))
        - owns (pcLogfile (sCurrSSettings s)) + leak_of fin\<rparr>"
proof -
  let ?c = "apply_file secs (sCurrSSettings s)"
  let ?u = "log_st E eDEBUG (rendered [FL ''INI file '', FS, FL '' opened.''] [AS path]) s"
  obtain w where w: "section_loop E I (fuel E) h ?u = Ret (fin \<noteq> EndOfFile) w"
    "cfg_result ?c (?u\<lparr>sds_live := sds_live ?u + leak_of fin\<rparr>) w"
    using section_loop_cfg[OF assms(1,3,4,5), of ?u] assms(6) by auto
  define y where "y = w\<lparr>hist := hist w @ [Ini_close], errno := errno_after E (hist w) Ini_close (errno w)\<rparr>"
  have h: "hist w = hist s"
    using arg_cong[OF w(2)[unfolded cfg_result_def], of hist] by (simp add: outside_log_def)
  have y: "sCurrSSettings y = ?c" using cfg_resultD(1)[OF w(2)] by (simp add: y_def)
  then have "pcLogfile (sCurrSSettings y) \<noteq> SFreed" using apply_file_not_freed assms(6) by simp
  with settings_to_log_run[OF assms(1)] obtain v where
    v: "settings_to_log E y = Ret () v" "outside_log v = outside_log y" by blast
  define t where "t = (if fin = EndOfFile then v else y)"
  have "settings_load E I path s = Ret (if fin = EndOfFile then SET_EXIT_SUCCESS else SET_EXIT_FAILURE) t"
    using assms(2) w(1) v(1) by (simp add: settings_load_def log_calls[OF assms(1)] y_def t_def)
  moreover have t: "outside_log t = outside_log y" using v(2) by (simp add: t_def)
  moreover have "outside_log y = (outside_log w)\<lparr>hist := hist s @ [Ini_close]\<rparr>"
    by (simp add: y_def h outside_log_def)
  moreover have "sCurrSSettings t = ?c" using outside_log_settings[OF t] y by simp
  ultimately show ?thesis using w(2) by (simp add: cfg_result_def algebra_simps)
qed

lemmas settings_load_run = settings_load_reads[OF _ _ ini_file_reads, simplified leak_of_def, simplified]

text \<open>
  C9. Loading settings does what the file says. If it cannot be opened, nothing happens but the
  result. Otherwise, for the sections and pairs \<open>secs\<close> that the reader delivers until it ends or
  reports an error, \<^verbatim>\<open>settings_load\<close> comes back (in at most one round per section and pair and
  one more), and the settings are the old ones with every line applied in order: section and key
  are compared in lower case and by prefix, numbers are read by \<^verbatim>\<open>strtol\<close>, a later line
  overrides an earlier one. It reports success exactly if the reader came to the end of the file,
  closes the file once in every case, and apart from logging changes nothing else; no string is
  leaked or freed twice, but for the name of a section in which the reader failed.
\<close>

theorem settings_load_correct:
  assumes "sds_doc E" and "pcLogfile (sCurrSSettings s) \<noteq> SFreed"
  shows "(ini_open I path = None \<longrightarrow> settings_load E I path s = Ret SET_NOFILE s) \<and>
    (\<forall>h secs fin. ini_open I path = Some h \<and> ini_reads I h secs fin \<and> length secs < fuel E \<and>
       (\<forall>(sec, ps) \<in> set secs. length ps < fuel E) \<longrightarrow>
     (\<exists>t. settings_load E I path s = Ret (if fin = EndOfFile then SET_EXIT_SUCCESS else SET_EXIT_FAILURE) t \<and>
       sCurrSSettings t = apply_file secs (sCurrSSettings s) \<and>
       outside_log t = (outside_log s)\<lparr>hist := hist s @ [Ini_close], sCurrSSettings := apply_file secs (sCurrSSettings s),
         sds_live := sds_live s + owns (pcLogfile (apply_file secs (sCurrSSettings s)))
           - owns (pcLogfile (sCurrSSettings s)) + (if fin = BadPair then 1 else 0)\<rparr>))"
proof (intro conjI impI allI)
  assume "ini_open I path = None"
  then show "settings_load E I path s = Ret SET_NOFILE s" by (simp add: settings_load_def)
qed (elim conjE, rule settings_load_reads[OF assms(1) _ _ _ _ assms(2), unfolded leak_of_def])

text \<open>A reader that fails where a section should end.\<close>

definition broken_ini :: "ini_contents \<Rightarrow> (ini_contents \<times> (string \<times> string) list) ini_lib" where
  "broken_ini secs = (list_ini secs)\<lparr>ini_read_pair := \<lambda>(rest, ps). if ps = [] then (-1, [], [], (rest, []))
     else list_read_pair (rest, ps)\<rparr>"

definition broken_contents :: ini_contents where
  "broken_contents = [(''General'', [(''port'', ''80'')])]"

theorem settings_load_correct_witness:
  "(\<exists>t. settings_load calm_env (list_ini valid_settings_ini) ''f'' start_settings = Ret SET_EXIT_SUCCESS t \<and>
    sCurrSSettings t = \<lparr>lMaxClientsPerThread = 50, lWorkerThreads = 4, lLogLevel = 2, lPort = 9000,
      pcLogfile = SLive ''/var/log/cewserver.log''\<rparr>) \<and>
   (\<exists>t. settings_load calm_env (broken_ini broken_contents) ''f'' start_settings = Ret SET_EXIT_FAILURE t \<and>
      lPort (sCurrSSettings t) = 80) \<and>
   settings_load calm_env ((list_ini [])\<lparr>ini_open := \<lambda>_. None\<rparr>) ''f'' start_settings = Ret SET_NOFILE start_settings"
proof -
  have nf: "pcLogfile (sCurrSSettings start_settings) \<noteq> SFreed" "sCurrSSettings start_settings = zero_settings"
    by (simp_all add: start_settings_def zero_settings_def)
  note load = settings_load_correct[OF calm_env_simps(1) nf(1)]
  have f: "apply_file valid_settings_ini zero_settings = \<lparr>lMaxClientsPerThread = 50,
      lWorkerThreads = 4, lLogLevel = 2, lPort = 9000, pcLogfile = SLive ''/var/log/cewserver.log''\<rparr>"
    "lPort (apply_file broken_contents zero_settings) = 80"
    by code_simp+
  have "ini_open (list_ini valid_settings_ini) ''f'' = Some (valid_settings_ini, []) \<and>
      ini_reads (list_ini valid_settings_ini) (valid_settings_ini, []) valid_settings_ini EndOfFile \<and>
      length valid_settings_ini < fuel calm_env \<and> (\<forall>(sec, ps) \<in> set valid_settings_ini. length ps < fuel calm_env)"
    using ini_file_reads[OF list_ini_file] by (simp add: list_ini_def valid_settings_ini_def)
  from load[THEN conjunct2, THEN spec, THEN spec, THEN spec, THEN mp, OF this]
  have ok: "\<exists>t. settings_load calm_env (list_ini valid_settings_ini) ''f'' start_settings = Ret SET_EXIT_SUCCESS t \<and>
      sCurrSSettings t = apply_file valid_settings_ini zero_settings" unfolding nf(2) by auto
  have "ini_open (broken_ini broken_contents) ''f'' = Some (broken_contents, []) \<and>
      ini_reads (broken_ini broken_contents) (broken_contents, []) broken_contents BadPair \<and>
      length broken_contents < fuel calm_env \<and> (\<forall>(sec, ps) \<in> set broken_contents. length ps < fuel calm_env)"
    by (simp add: broken_ini_def list_ini_def broken_contents_def)
  from load[THEN conjunct2, THEN spec, THEN spec, THEN spec, THEN mp, OF this]
  have "\<exists>t. settings_load calm_env (broken_ini broken_contents) ''f'' start_settings = Ret SET_EXIT_FAILURE t \<and>
      sCurrSSettings t = apply_file broken_contents zero_settings" unfolding nf(2) by auto
  with ok f load[THEN conjunct1, of "(list_ini [])\<lparr>ini_open := \<lambda>_. None\<rparr>" "''f''"] show ?thesis by auto
qed

text \<open>
  C27. One option: the table entry whose section and key are prefixes of the given ones decides.
  A number is stored and reported as success; a string is stored too, the old one being freed,
  but it is reported as \<^verbatim>\<open>SET_NOMAP\<close>, the code for an unknown option, because the branch
  leaves the \<^verbatim>\<open>switch\<close> and not the function; an unknown option changes nothing.
\<close>

theorem parse_option_spec:
  assumes "sds_doc E" and "pcLogfile (sCurrSSettings s) \<noteq> SFreed"
  shows "parse_option E sec key v s =
    (case find_option sec key of
       None \<Rightarrow> Ret SET_NOMAP s
     | Some opt \<Rightarrow>
         if eType opt = TYPE_STRING then
           Ret SET_NOMAP (s\<lparr>sCurrSSettings := (sCurrSSettings s)\<lparr>pcLogfile := SLive v\<rparr>,
             sds_live := sds_live s + 1 - owns (pcLogfile (sCurrSSettings s))\<rparr>)
         else
           Ret SET_EXIT_SUCCESS (s\<lparr>sCurrSSettings :=
             put_long (pvDst opt) (word_of_int (strtol10 (cstr v))) (sCurrSSettings s)\<rparr>))"
  by (rule parse_option_eq[OF assms])

theorem parse_option_spec_witness:
  "parse_option calm_env ''logging'' ''logfile'' ''/l'' start_settings =
     Ret SET_NOMAP (start_settings\<lparr>sCurrSSettings := zero_settings\<lparr>pcLogfile := SLive ''/l''\<rparr>,
       sds_live := 1\<rparr>) \<and>
   parse_option calm_env ''general'' ''portable'' ''80'' start_settings =
     Ret SET_EXIT_SUCCESS (start_settings\<lparr>sCurrSSettings := zero_settings\<lparr>lPort := 80\<rparr>\<rparr>)"
proof -
  have f: "find_option ''logging'' ''logfile'' = Some (sKnownOptions ! 3)"
    "find_option ''general'' ''portable'' = Some (sKnownOptions ! 2)"
    "eType (sKnownOptions ! 3) = TYPE_STRING" "eType (sKnownOptions ! 2) = TYPE_LONG"
    "pvDst (sKnownOptions ! 2) = Some At_lPort" "strtol10 ''80'' = 80"
    by (simp add: find_option_def sKnownOptions_def cstr_def,
        simp add: find_option_def sKnownOptions_def cstr_def, simp add: sKnownOptions_def,
        simp add: sKnownOptions_def, simp add: sKnownOptions_def, code_simp)
  have s: "sCurrSSettings start_settings = zero_settings" "sds_live start_settings = 0"
    "pcLogfile zero_settings = SNull"
    by (simp_all add: start_settings_def zero_settings_def)
  show ?thesis
    using parse_option_spec[OF calm_env_simps(1), of start_settings "''logging''" "''logfile''" "''/l''"]
      parse_option_spec[OF calm_env_simps(1), of start_settings "''general''" "''portable''" "''80''"]
    by (simp add: f s owns_def)
qed

text \<open>The settings written down as a file.\<close>

definition settings_ini :: "string \<Rightarrow> tsSSettings \<Rightarrow> ini_contents" where
  "settings_ini file c =
     [(''General'', [(''workers'', dec_int (sint (lWorkerThreads c))), (''clients'', dec_int (sint (lMaxClientsPerThread c))),
        (''port'', dec_int (sint (lPort c)))]),
      (''Logging'', [(''logfile'', file), (''level'', dec_int (sint (lLogLevel c)))])]"

lemma strtol10_written: "word_of_int (strtol10 (dec_int (sint w))) = (w :: 64 word)"
proof -
  have "LONG_MIN \<le> sint w" "sint w \<le> LONG_MAX"
    using sint_greater_eq[of w] sint_less[of w] by (simp_all add: LONG_MIN_def LONG_MAX_def)
  then show ?thesis by (simp add: strtol10_dec_int)
qed

lemma find_option_names:
  "find_option ''general'' ''workers'' = Some (sKnownOptions ! 0)"
  "find_option ''general'' ''clients'' = Some (sKnownOptions ! 1)"
  "find_option ''general'' ''port'' = Some (sKnownOptions ! 2)"
  "find_option ''logging'' ''logfile'' = Some (sKnownOptions ! 3)"
  "find_option ''logging'' ''level'' = Some (sKnownOptions ! 4)"
  by (simp_all add: find_option_def sKnownOptions_def cstr_def)

lemma lower_names:
  "map c_tolower (cstr ''General'') = ''general''" "map c_tolower (cstr ''Logging'') = ''logging''"
  "map c_tolower (cstr ''workers'') = ''workers''" "map c_tolower (cstr ''clients'') = ''clients''"
  "map c_tolower (cstr ''port'') = ''port''" "map c_tolower (cstr ''logfile'') = ''logfile''"
  "map c_tolower (cstr ''level'') = ''level''"
  by code_simp+

lemma apply_pair_names:
  "apply_pair ''General'' (''workers'', v) c = c\<lparr>lWorkerThreads := word_of_int (strtol10 (cstr v))\<rparr>"
  "apply_pair ''General'' (''clients'', v) c = c\<lparr>lMaxClientsPerThread := word_of_int (strtol10 (cstr v))\<rparr>"
  "apply_pair ''General'' (''port'', v) c = c\<lparr>lPort := word_of_int (strtol10 (cstr v))\<rparr>"
  "apply_pair ''Logging'' (''logfile'', v) c = c\<lparr>pcLogfile := SLive v\<rparr>"
  "apply_pair ''Logging'' (''level'', v) c = c\<lparr>lLogLevel := word_of_int (strtol10 (cstr v))\<rparr>"
  unfolding apply_pair_def fst_conv snd_conv lower_names find_option_names by (simp_all add: sKnownOptions_def)

lemma apply_settings_ini: "pcLogfile c = SLive file \<Longrightarrow> apply_file (settings_ini file c) c0 = c"
  by (cases c; cases c0) (simp add: settings_ini_def apply_pair_names strtol10_written)

text \<open>
  C28. Settings survive being written and read: when all five settings are written down as an ini
  file, the numbers in decimal, loading that file succeeds, and \<^verbatim>\<open>settings_get\<close> then gives back
  exactly those settings, for every 64-bit value of each number and every name of the log file,
  whatever the settings were before.
\<close>

theorem settings_roundtrip:
  assumes "sds_doc E" and "3 < fuel E" and "pcLogfile (sCurrSSettings s) \<noteq> SFreed"
    and "ini_open I path = Some h" and "ini_file I h (settings_ini file c)" and "pcLogfile c = SLive file"
  shows "\<exists>t. settings_load E I path s = Ret SET_EXIT_SUCCESS t \<and> settings_get t = Ret c t"
  using settings_load_run[OF assms(1,4,5) _ _ assms(3)] assms(2) apply_settings_ini[OF assms(6)]
  by (auto simp: settings_ini_def settings_get_def)

theorem settings_roundtrip_witness:
  "\<exists>t. settings_load calm_env (list_ini (settings_ini ''/l'' (zero_settings\<lparr>lPort := -5, pcLogfile := SLive ''/l''\<rparr>))) ''f''
     start_settings = Ret SET_EXIT_SUCCESS t \<and> settings_get t = Ret (zero_settings\<lparr>lPort := -5, pcLogfile := SLive ''/l''\<rparr>) t"
  by (rule settings_roundtrip[OF _ _ _ _ list_ini_file])
    (simp_all add: list_ini_def start_settings_def zero_settings_def)

lemma settings_destroy_run:
  assumes "sds_doc E" and "pcLogfile (sCurrSSettings s) \<noteq> SFreed"
  shows "\<exists>t. settings_destroy E s = Ret SET_EXIT_SUCCESS t \<and> 
    outside_log t = (outside_log s)\<lparr>sCurrSSettings := zero_settings,
      sds_live := sds_live s - owns (pcLogfile (sCurrSSettings s))\<rparr>"
proof (cases "pcLogfile (sCurrSSettings s)")
  case SNull
  have "(outside_log s)\<lparr>sCurrSSettings := c, sds_live := sds_live s\<rparr> =
    (outside_log s)\<lparr>sCurrSSettings := c\<rparr>" for c
    by (cases s) (simp add: outside_log_def)
  with SNull show ?thesis
    by (simp add: settings_destroy_def log_calls[OF assms(1)] owns_def)
next
  case (SLive p)
  then show ?thesis by (simp add: settings_destroy_def log_calls[OF assms(1)] owns_def)
next
  case SFreed
  with assms(2) show ?thesis by contradiction
qed

text \<open>
  Destroying the settings frees the log file name exactly once, zeroes every field and
  touches nothing else but the log.
\<close>

lemma settings_destroy_clears:
  assumes "sds_doc E" and "pcLogfile (sCurrSSettings s) \<noteq> SFreed"
  shows "\<exists>t. settings_destroy E s = Ret SET_EXIT_SUCCESS t \<and> sCurrSSettings t = zero_settings \<and>
    outside_log t = (outside_log s)\<lparr>sCurrSSettings := zero_settings,
      sds_live := sds_live s - owns (pcLogfile (sCurrSSettings s))\<rparr>"
proof -
  from settings_destroy_run[OF assms] obtain t where
    t: "settings_destroy E s = Ret SET_EXIT_SUCCESS t"
    "outside_log t = (outside_log s)\<lparr>sCurrSSettings := zero_settings,
      sds_live := sds_live s - owns (pcLogfile (sCurrSSettings s))\<rparr>" by blast
  from arg_cong[OF t(2), of sCurrSSettings] t show ?thesis by (simp add: outside_log_def)
qed

end
