(* ===== verification/Http.thy ===== *)
theory Http
  imports Logger_Flush
begin

text \<open>
  Serving one request, \<^verbatim>\<open>src/src/cew_http.c\<close>: parse the request line with a regular
  expression, build the path of the file, test that it exists, choose the content type from the
  extension, assemble the answer and send it. The client structure comes from
  \<^verbatim>\<open>src/include/cew_client.h\<close>.
\<close>

section \<open>Data\<close>

definition RECV_BUFF_SIZE :: nat where "RECV_BUFF_SIZE = 4096"

record tsClientStruct =
  iId :: int
  iSockfd :: int
  sTheirAddr :: string
  cIP :: string
  acSendBuff :: sds
  acRecvBuff :: string     \<comment> \<open>the array of \<open>RECV_BUFF_SIZE\<close> bytes\<close>

abbreviation (input) EXIT_SUCCESS :: int where "EXIT_SUCCESS \<equiv> 0"
abbreviation (input) EXIT_FAILURE :: int where "EXIT_FAILURE \<equiv> 1"

text \<open>Handing an array to a function that expects a C string: without a NUL it reads on.\<close>

definition array_cstr :: "string \<Rightarrow> string option" where
  "array_cstr buf = (if NUL \<in> set buf then Some (cstr buf) else None)"

text \<open>A debug message with an sds argument, which is followed only if the message is formatted.\<close>

definition log_debug_sds :: "env \<Rightarrow> fmt list \<Rightarrow> sds \<Rightarrow> ('a logger_scheme, unit) prog" where
  "log_debug_sds E f v = bindP (getP id) (\<lambda>s.
     case v of
       SLive t \<Rightarrow> log_debug E f [AS (cstr t)]
     | _ \<Rightarrow> if is_msg_allowed eDEBUG s = 0 \<and> \<not> log_full s then faultP UseAfterFree
           else log_debug E f [AS []])"

section \<open>Operations\<close>

definition GET_PATTERN :: string where "GET_PATTERN = ''^GET /([^ ]*) HTTP/1''"

definition GET_RE :: "re list" where
  "GET_RE = [ReLit ''GET /'', ReGroup (\<lambda>c. c \<noteq> CHR '' ''), ReLit '' HTTP/1'']"

definition http_parse_request ::
  "env \<Rightarrow> tsClientStruct \<Rightarrow> sds \<Rightarrow> ('a logger_scheme, int \<times> sds) prog" where
  "http_parse_request E psClient sFileName =
     bindP (callP E (Regcomp GET_PATTERN)) (\<lambda>rc.
     if rc = 0 then
       (case array_cstr (acRecvBuff psClient) of
          None \<Rightarrow> faultP OutOfBounds
        | Some str \<Rightarrow>
            (case re_match 0 GET_RE str of
               Some [(so, eo)] \<Rightarrow>
                 bindP (sds_cat E sFileName (take (eo - so) (drop so (acRecvBuff psClient)))) (\<lambda>v.
                 bindP (sds_get v) (\<lambda>t.
                 let v' = SLive (sds_lower E t) in
                 seqP (log_debug_sds E [FL ''Requested file:'', FS] v') (
                 seqP (callP E Regfree) (retP (EXIT_SUCCESS, v')))))
             | _ \<Rightarrow> seqP (callP E Regfree) (retP (EXIT_FAILURE, sFileName))))
     else retP (EXIT_FAILURE, sFileName))"

definition text_404 :: string where
  "text_404 = ''HTTP/1.1 404 Not Found'' @ CRLF @ ''Content-Type: text/plain'' @ CRLF @ CRLF @
     ''404 Not Found''"

definition http_404 :: "env \<Rightarrow> sds \<Rightarrow> ('a logger_scheme, int \<times> sds) prog" where
  "http_404 E sResponse =
     seqP (log_debug E [FL ''sending 404''] []) (
     bindP (sds_cat E sResponse text_404) (\<lambda>v. retP (EXIT_SUCCESS, v)))"

definition http_check_access_file ::
  "env \<Rightarrow> sds \<Rightarrow> sds \<Rightarrow> ('a logger_scheme, int \<times> sds \<times> sds) prog" where
  "http_check_access_file E sFileName sPath =
     seqP (log_debug_sds E [FL ''Checking file:'', FS] sFileName) (
     bindP (sds_get sFileName) (\<lambda>name.
     bindP (if strncmp (cstr name) [] 1 = 0 then sds_cat E sFileName ''index.html''
            else retP sFileName) (\<lambda>sFileName.
     bindP (sds_get sFileName) (\<lambda>name.
     bindP (sds_printf E sPath [FS, FL ''/'', FS] [AS ''/opt/www'', AS (cstr name)]) (\<lambda>sPath.
     seqP (log_debug_sds E [FL ''Made path: '', FS] sPath) (
     bindP (sds_get sPath) (\<lambda>path.
     bindP (callP E (Access (cstr path))) (\<lambda>r.
     if r = -1 then
       bindP (getP errno) (\<lambda>err.
       seqP (log_error E [FL ''No access to file: '', FS, FL '' with errno:'', FD]
               [AS (cstr path), AI err])
         (retP (EXIT_FAILURE, sFileName, sPath)))
     else retP (EXIT_SUCCESS, sFileName, sPath)))))))))"

lemma length_strchr: "strchr s c = Some t \<Longrightarrow> t \<noteq> [] \<and> length t \<le> length s"
  by (induction s) (auto split: if_splits)

text \<open>The loop that looks for the last dot: \<open>cSearch\<close> moves on behind each dot found.\<close>

function last_dot :: "string \<Rightarrow> string option \<Rightarrow> string option" where
  "last_dot cSearch cExt =
     (case strchr cSearch (CHR ''.'') of
        None \<Rightarrow> cExt
      | Some t \<Rightarrow> last_dot (tl t) (Some t))"
  by pat_completeness auto
termination
proof (relation "measure (\<lambda>(s, e). length s)", goal_cases)
  case (2 cSearch cExt t)
  then have "t \<noteq> [] \<and> length t \<le> length cSearch" using length_strchr by simp
  then show ?case by (cases t) auto
qed simp

declare last_dot.simps [simp del]

text \<open>The chain of comparisons: extension to content type.\<close>

definition mime_text :: "string \<Rightarrow> string option" where
  "mime_text ext =
     (if ext = ''html'' then Some ''text/html''
      else if ext = ''txt'' then Some ''image/txt''
      else if ext = ''css'' then Some ''text/css''
      else if ext = ''jpg'' then Some ''image/jpeg''
      else if ext = ''png'' then Some ''image/png''
      else None)"

definition http_determine_mime ::
  "env \<Rightarrow> sds \<Rightarrow> sds \<Rightarrow> ('a logger_scheme, int \<times> sds) prog" where
  "http_determine_mime E sFileName sMime =
     seqP (log_debug E [FL ''Determining mime type''] []) (
     bindP (sds_get sFileName) (\<lambda>name.
     case last_dot (cstr name) None of
       None \<Rightarrow> retP (EXIT_FAILURE, sMime)
     | Some cExt \<Rightarrow>
         (case mime_text (tl cExt) of
            None \<Rightarrow>
              seqP (log_error E [FL ''Didn'', FL [CHR 0x27], FL ''t fine mime type for file '', FS]
                      [AS (cstr name)])
                (retP (EXIT_FAILURE, sMime))
          | Some m \<Rightarrow>
              bindP (sds_cat_dropped E sMime m) (\<lambda>sMime.
              seqP (log_debug_sds E [FL ''Determined to be mime type: '', FS] sMime)
                (retP (EXIT_SUCCESS, sMime))))))"

text \<open>
  Opening the file and adding its content. The room made in the send buffer counts as content
  in full, whatever \<^verbatim>\<open>read\<close> delivered: bytes it did not write are what the memory held.
\<close>

definition file_bytes :: "env \<Rightarrow> nat \<Rightarrow> string \<Rightarrow> string" where
  "file_bytes E n data = take n (data @ map (uninit E) [0..<n])"

definition http_add_content :: "env \<Rightarrow> string \<Rightarrow> sds \<Rightarrow> ('a logger_scheme, sds) prog" where
  "http_add_content E path buff =
     bindP (callP E (Open path)) (\<lambda>fd.
     if fd \<noteq> -1 then
       bindP (callP E (Fstat fd)) (\<lambda>st_size.
       bindP (sds_printf E buff [FL ''Content-Length: '', FD, FL CRLF] [AI st_size]) (\<lambda>buff.
       bindP (sds_cat E buff CRLF) (\<lambda>buff.
       bindP (sysP E (Read fd (nat st_size))) (\<lambda>r.
       bindP (sds_cat E buff (file_bytes E (nat st_size) (sr_data r))) (\<lambda>buff.
       seqP (log_debug_sds E [FL ''Responding with: '', FL [CHR 0x0A], FS] buff)
         (retP buff))))))
     else retP buff)"

definition http_add_header :: "env \<Rightarrow> sds \<Rightarrow> sds \<Rightarrow> ('a logger_scheme, sds) prog" where
  "http_add_header E sMime buff =
     bindP (sds_cat E buff (''HTTP/1.1 200 OK'' @ CRLF)) (\<lambda>buff.
     bindP (sds_get sMime) (\<lambda>mime.
     bindP (sds_printf E buff [FL ''Content-Type: '', FS, FL CRLF] [AS (cstr mime)]) (\<lambda>buff.
     sds_cat E buff (''Connection: Closed'' @ CRLF))))"

text \<open>The part of the handler inside the test that the file exists.\<close>

definition http_serve_file :: "env \<Rightarrow> sds \<Rightarrow> sds \<Rightarrow> sds \<Rightarrow> ('a logger_scheme, sds) prog" where
  "http_serve_file E sFileName sPath buff =
     bindP (sds_new E []) (\<lambda>sMime.
     bindP (http_determine_mime E sFileName sMime) (\<lambda>(iMime, sMime).
     bindP
       (if iMime = EXIT_SUCCESS then
          bindP (sds_get sFileName) (\<lambda>name.
          seqP (log_info E [FL ''Client requested: '', FS] [AS (cstr name)]) (
          bindP (http_add_header E sMime buff) (\<lambda>buff.
          bindP (sds_get sPath) (\<lambda>path. http_add_content E (cstr path) buff))))
        else retP buff) (\<lambda>buff.
     seqP (sds_free sMime) (retP buff))))"

definition http_handle_client_request ::
  "env \<Rightarrow> tsClientStruct \<Rightarrow> ('a logger_scheme, int \<times> tsClientStruct) prog" where
  "http_handle_client_request E psClient =
     bindP (sds_new E []) (\<lambda>buff.
     bindP (sds_new E []) (\<lambda>sFileName.
     bindP (http_parse_request E psClient sFileName) (\<lambda>(iParse, sFileName).
     bindP
       (if iParse = EXIT_SUCCESS then
          bindP (sds_new E []) (\<lambda>sPath.
          bindP (http_check_access_file E sFileName sPath) (\<lambda>(iAccess, sFileName, sPath).
          bindP (if iAccess = EXIT_SUCCESS then http_serve_file E sFileName sPath buff
                 else bindP (http_404 E buff) (\<lambda>(_, buff). retP buff)) (\<lambda>buff.
          seqP (sds_free sPath) (retP (sFileName, buff)))))
        else retP (sFileName, buff)) (\<lambda>(sFileName, buff).
     seqP (sds_free sFileName) (
     bindP (sds_get buff) (\<lambda>out.
     bindP (callP E (Send (iSockfd psClient) out)) (\<lambda>r.
     seqP (whenP (r = -1) (log_debug E [FL ''Sending error on client '', FD] [AI (iId psClient)])) (
     seqP (sds_free buff)
       (retP (EXIT_SUCCESS, psClient\<lparr>acSendBuff := SNull\<rparr>))))))))))"

section \<open>Specification\<close>

text \<open>
  What a request asks for, without a regular expression: the text up to the first space
  between \<^verbatim>\<open>GET /\<close> and \<^verbatim>\<open> HTTP/1\<close>, in lower case.
\<close>

definition requested :: "string \<Rightarrow> string option" where
  "requested str =
     (let name = takeWhile (\<lambda>c. c \<noteq> CHR '' '') (drop 5 str); rest = drop (5 + length name) str in
      if lit_eq ''GET /'' (take 5 str) \<and> lit_eq '' HTTP/1'' (take 7 rest)
      then Some (map c_tolower name) else None)"

definition served_name :: "string \<Rightarrow> string" where
  "served_name name = (if name = [] then ''index.html'' else name)"

definition served_path :: "string \<Rightarrow> string" where
  "served_path name = ''/opt/www/'' @ served_name name"

definition extension :: "string \<Rightarrow> string option" where
  "extension name = (if CHR ''.'' \<in> set name
     then Some (rev (takeWhile (\<lambda>c. c \<noteq> CHR ''.'') (rev name))) else None)"

definition mime_of :: "string \<Rightarrow> string option" where
  "mime_of name = Option.bind (extension name) mime_text"

definition ok_header :: "string \<Rightarrow> string" where
  "ok_header mime = ''HTTP/1.1 200 OK'' @ CRLF @ ''Content-Type: '' @ mime @ CRLF @
     ''Connection: Closed'' @ CRLF"

definition ok_body :: "string \<Rightarrow> string" where
  "ok_body content = ''Content-Length: '' @ dec_int (int (length content)) @ CRLF @ CRLF @ content"

text \<open>The bytes a client gets, for a file system given as a map from paths to contents.\<close>

definition http_answer :: "(string \<rightharpoonup> string) \<Rightarrow> string \<Rightarrow> string" where
  "http_answer fs str =
     (case requested str of
        None \<Rightarrow> []
      | Some name \<Rightarrow>
          (case fs (served_path name) of
             None \<Rightarrow> text_404
           | Some content \<Rightarrow>
               (case mime_of (served_name name) of
                  None \<Rightarrow> []
                | Some m \<Rightarrow> ok_header m @ ok_body content)))"

text \<open>
  The calls the handler makes before it sends the answer. Which descriptor \<^verbatim>\<open>open\<close>
  gives may depend on everything done before: \<open>fd h p\<close> is the one for \<open>p\<close> after the calls \<open>h\<close>.
\<close>

definition file_calls :: "(call list \<Rightarrow> string \<Rightarrow> int) \<Rightarrow> call list \<Rightarrow> string \<Rightarrow> string \<Rightarrow> call list" where
  "file_calls fd h p content = [Open p, Fstat (fd h p), Read (fd h p) (length content)]"

definition http_calls ::
  "(call list \<Rightarrow> string \<Rightarrow> int) \<Rightarrow> call list \<Rightarrow> (string \<rightharpoonup> string) \<Rightarrow> string \<Rightarrow> call list" where
  "http_calls fd h fs str = [Regcomp GET_PATTERN, Regfree] @
     (case requested str of
        None \<Rightarrow> []
      | Some name \<Rightarrow> Access (served_path name) #
          (case fs (served_path name) of
             None \<Rightarrow> []
           | Some content \<Rightarrow>
               (case mime_of (served_name name) of
                  None \<Rightarrow> []
                | Some m \<Rightarrow> file_calls fd (h @ [Regcomp GET_PATTERN, Regfree, Access (served_path name)])
                    (served_path name) content)))"

text \<open>
  A file system that stays put while requests are handled: \<^verbatim>\<open>access\<close>, \<^verbatim>\<open>open\<close>,
  \<^verbatim>\<open>fstat\<close> and \<^verbatim>\<open>read\<close> agree with the map \<open>fs\<close>, \<open>fd\<close> says which
  descriptors files get, and the pattern compiles.
\<close>

definition file_system :: "env \<Rightarrow> (call list \<Rightarrow> string \<Rightarrow> int) \<Rightarrow> (string \<rightharpoonup> string) \<Rightarrow> bool" where
  "file_system E fd fs \<longleftrightarrow>
     (\<forall>h. sr_val (os E h (Regcomp GET_PATTERN)) = 0) \<and>
     (\<forall>h p. sr_val (os E h (Access p)) = (if fs p = None then -1 else 0)) \<and>
     (\<forall>h p c. fs p = Some c \<longrightarrow>
        fd h p \<noteq> -1 \<and> sr_val (os E h (Open p)) = fd h p \<and>
        sr_val (os E (h @ [Open p]) (Fstat (fd h p))) = int (length c) \<and>
        sr_data (os E (h @ [Open p, Fstat (fd h p)]) (Read (fd h p) (length c))) = c)"

lemma file_systemD:
  assumes "file_system E fd fs"
  shows "fs p = Some c \<Longrightarrow> fd h p \<noteq> -1" and "sr_val (os E h (Regcomp GET_PATTERN)) = 0"
    and "sr_val (os E h (Access p)) = (if fs p = None then -1 else 0)"
    and "fs p = Some c \<Longrightarrow> sr_val (os E h (Open p)) = fd h p"
    and "fs p = Some c \<Longrightarrow> sr_val (os E (h @ [Open p]) (Fstat (fd h p))) = int (length c)"
    and "fs p = Some c \<Longrightarrow> sr_data (os E (h @ [Open p, Fstat (fd h p)]) (Read (fd h p) (length c))) = c"
  using assms by (auto simp: file_system_def)

section \<open>The parser\<close>

lemma lit_eq_length: "lit_eq t s \<Longrightarrow> length s = length t"
  unfolding lit_eq_def by (metis length_map)

lemma lit_eq_hd_space: "lit_eq (CHR '' '' # t) s \<Longrightarrow> \<exists>r. s = CHR '' '' # r"
proof (cases s)
  case (Cons a r)
  moreover assume "lit_eq (CHR '' '' # t) s"
  ultimately have "c_tolower a = c_tolower (CHR '' '')" by (simp add: lit_eq_def)
  also have "c_tolower (CHR '' '') = CHR '' ''" by (rule c_tolower_space_iff[THEN iffD2, OF refl])
  finally show ?thesis using Cons by simp
qed (simp add: lit_eq_def)

lemma re_match_lit:
  "length t = n \<Longrightarrow> re_match off (ReLit t # rs) s =
     (if lit_eq t (take n s) then re_match (off + n) rs (drop n s) else None)"
  using lit_eq_length[of t "take n s"] by auto

text \<open>The group must end where the first space is: the literal behind it starts with one.\<close>

lemma group_before_space:
  assumes "k \<le> length (takeWhile (\<lambda>c. c \<noteq> CHR '' '') s)"
    and "lit_eq (CHR '' '' # t) (take n (drop k s))"
  shows "k = length (takeWhile (\<lambda>c. c \<noteq> CHR '' '') s)"
proof (rule ccontr)
  let ?w = "takeWhile (\<lambda>c. c \<noteq> CHR '' '') s"
  assume "k \<noteq> length ?w"
  with assms(1) have k: "k < length ?w" by simp
  from lit_eq_hd_space[OF assms(2)] obtain r where r: "take n (drop k s) = CHR '' '' # r" by auto
  then have "drop k s \<noteq> []" and "hd (drop k s) = CHR '' ''" by (cases "drop k s"; cases n; auto)+
  then have "s ! k = CHR '' ''" by (simp add: hd_drop_conv_nth)
  moreover have "?w ! k = s ! k" using k by (rule takeWhile_nth)
  moreover have "?w ! k \<in> set ?w" using k by simp
  ultimately show False using set_takeWhileD by fastforce
qed

lemma re_match_group:
  "re_match off [ReGroup (\<lambda>c. c \<noteq> CHR '' ''), ReLit '' HTTP/1''] s =
     (let n = length (takeWhile (\<lambda>c. c \<noteq> CHR '' '') s) in
      if lit_eq '' HTTP/1'' (take 7 (drop n s)) then Some [(off, off + n)] else None)"
proof -
  let ?n = "length (takeWhile (\<lambda>c. c \<noteq> CHR '' '') s)"
  let ?hit = "\<lambda>k. lit_eq '' HTTP/1'' (take 7 (drop k s))"
  let ?g = "\<lambda>k. if ?hit k then Some [(off, off + k)] else None"
  have "map_option ((#) (off, off + k)) (re_match (off + k) [ReLit '' HTTP/1''] (drop k s)) = ?g k" for k
    by (simp add: re_match_lit[of "'' HTTP/1''" 7] del: re_match.simps(2))
  then have m: "re_match off [ReGroup (\<lambda>c. c \<noteq> CHR '' ''), ReLit '' HTTP/1''] s =
    first_some (map ?g (rev [0..<Suc ?n]))"
    by (simp only: re_match.simps(3))
  have only: "\<not> ?hit k" if "k < ?n" for k using that group_before_space[of k s] by force
  show ?thesis
  proof (cases "?hit ?n")
    case True
    then have "first_some (map ?g (rev [0..<Suc ?n])) = Some [(off, off + ?n)]"
      by (intro first_some_unique) (auto dest: only split: if_splits)
    with True m show ?thesis by (simp only: Let_def if_True)
  next
    case False
    then have "first_some (map ?g (rev [0..<Suc ?n])) = None"
      unfolding first_some_None by (auto dest: only)
    with False m show ?thesis by (simp only: Let_def if_False)
  qed
qed

text \<open>The regular expression finds exactly the requested name.\<close>

lemma re_match_GET:
  "re_match 0 GET_RE str =
     (let n = length (takeWhile (\<lambda>c. c \<noteq> CHR '' '') (drop 5 str)) in
      if lit_eq ''GET /'' (take 5 str) \<and> lit_eq '' HTTP/1'' (take 7 (drop (5 + n) str))
      then Some [(5, 5 + n)] else None)"
proof -
  have "re_match 0 GET_RE str = (if lit_eq ''GET /'' (take 5 str)
      then re_match 5 [ReGroup (\<lambda>c. c \<noteq> CHR '' ''), ReLit '' HTTP/1''] (drop 5 str) else None)"
    unfolding GET_RE_def by (subst re_match_lit[of "''GET /''" 5]) simp_all
  then show ?thesis
    by (simp add: re_match_group Let_def add.commute del: re_match.simps(3))
qed


text \<open>The regular expression and the plain reading agree, offsets included.\<close>

lemma re_match_requested:
  "(case re_match 0 GET_RE str of
      Some [(so, eo)] \<Rightarrow> Some (map c_tolower (take (eo - so) (drop so str))) | _ \<Rightarrow> None) = requested str"
  by (simp add: re_match_GET requested_def Let_def takeWhile_eq_take[symmetric])

lemma requested_iff:
  "requested str = Some n \<longleftrightarrow>
     (\<exists>g name h rest. str = g @ name @ h @ rest \<and> lit_eq ''GET /'' g \<and> CHR '' '' \<notin> set name \<and>
        lit_eq '' HTTP/1'' h \<and> n = map c_tolower name)"
proof
  assume "requested str = Some n"
  then have a: "lit_eq ''GET /'' (take 5 str)"
    "lit_eq '' HTTP/1'' (take 7 (drop (5 + length (takeWhile (\<lambda>c. c \<noteq> CHR '' '') (drop 5 str))) str))"
    "n = map c_tolower (takeWhile (\<lambda>c. c \<noteq> CHR '' '') (drop 5 str))"
    by (auto simp: requested_def Let_def split: if_splits)
  let ?w = "takeWhile (\<lambda>c. c \<noteq> CHR '' '') (drop 5 str)"
  let ?r = "drop (5 + length ?w) str"
  have "drop 5 str = ?w @ ?r"
    by (metis add.commute drop_drop dropWhile_eq_drop takeWhile_dropWhile_id)
  then have "str = take 5 str @ ?w @ take 7 ?r @ drop 7 ?r"
    by (metis append_take_drop_id)
  moreover have "CHR '' '' \<notin> set ?w" by (auto dest: set_takeWhileD)
  ultimately show "\<exists>g name h rest. str = g @ name @ h @ rest \<and> lit_eq ''GET /'' g \<and>
      CHR '' '' \<notin> set name \<and> lit_eq '' HTTP/1'' h \<and> n = map c_tolower name"
    using a by metis
next
  assume "\<exists>g name h rest. str = g @ name @ h @ rest \<and> lit_eq ''GET /'' g \<and> CHR '' '' \<notin> set name \<and>
        lit_eq '' HTTP/1'' h \<and> n = map c_tolower name"
  then obtain g name h rest where h: "str = g @ name @ h @ rest" "lit_eq ''GET /'' g"
    "CHR '' '' \<notin> set name" "lit_eq '' HTTP/1'' h" "n = map c_tolower name" by auto
  from h(2,4) have len: "length g = 5" "length h = 7" by (auto dest: lit_eq_length)
  from lit_eq_hd_space[OF h(4)] obtain r where r: "h = CHR '' '' # r" by auto
  have "\<forall>c \<in> set name. c \<noteq> CHR '' ''" using h(3) by auto
  then have "takeWhile (\<lambda>c. c \<noteq> CHR '' '') (name @ CHR '' '' # r @ rest) = name"
    by (rule takeWhile_append_stop) simp
  then have "takeWhile (\<lambda>c. c \<noteq> CHR '' '') (drop 5 str) = name" using h(1) len r by simp
  then show "requested str = Some n"
    using h len by (simp add: requested_def Let_def)
qed

section \<open>The extension\<close>

lemma extension_split: "extension name = Some e \<longleftrightarrow> (\<exists>u. name = u @ CHR ''.'' # e) \<and> CHR ''.'' \<notin> set e"
proof (cases "CHR ''.'' \<in> set name")
  case True
  then obtain u v where n: "name = u @ CHR ''.'' # v" "CHR ''.'' \<notin> set v"
    by (metis split_list_last)
  then have "takeWhile (\<lambda>c. c \<noteq> CHR ''.'') (rev name) = rev v"
    using takeWhile_append_stop[of "rev v" "\<lambda>c. c \<noteq> CHR ''.''" "CHR ''.''" "rev u"] by auto
  with True n have "extension name = Some v" by (simp add: extension_def)
  then show ?thesis using n last_index_unique[of u "CHR ''.''" v] by auto
next
  case False
  then show ?thesis by (auto simp: extension_def)
qed

lemma last_dot_extension:
  "map_option tl (last_dot s e) = (if CHR ''.'' \<in> set s then extension s else map_option tl e)"
proof (induction s e rule: last_dot.induct)
  case (1 s e)
  show ?case
  proof (cases "strchr s (CHR ''.'')")
    case None
    then have "last_dot s e = e" by (simp add: last_dot.simps[of s e] del: strchr_None)
    moreover have "CHR ''.'' \<notin> set s" using None by simp
    ultimately show ?thesis by simp
  next
    case (Some t)
    from strchr_Some[OF Some] obtain u v where uv: "s = u @ t" "t = CHR ''.'' # v" by auto
    have l: "last_dot s e = last_dot v (Some t)" using Some uv by (subst last_dot.simps) simp
    show ?thesis
    proof (cases "CHR ''.'' \<in> set v")
      case True
      then obtain x where x: "extension v = Some x" by (auto simp: extension_def)
      then have "extension s = Some x" using uv unfolding extension_split by auto
      then show ?thesis using 1[OF Some] l True x uv by simp
    next
      case False
      then have "extension s = Some v" using uv unfolding extension_split by auto
      then show ?thesis using 1[OF Some] l False uv by simp
    qed
  qed
qed

section \<open>The operations, one by one\<close>

lemma cstr_split: "\<exists>r. buf = cstr buf @ r"
  unfolding cstr_def by (metis takeWhile_dropWhile_id)

text \<open>The name is cut out of the receive buffer itself, at offsets found in the C string.\<close>

lemma cut_from_buffer:
  assumes "5 \<le> length (cstr buf)"
  shows "take (length (takeWhile P (drop 5 (cstr buf)))) (drop 5 buf) = takeWhile P (drop 5 (cstr buf))"
proof -
  let ?n = "length (takeWhile P (drop 5 (cstr buf)))"
  obtain r where "buf = cstr buf @ r" using cstr_split by blast
  then have "drop 5 buf = drop 5 (cstr buf) @ r" using assms by (metis drop_append diff_is_0_eq drop0)
  moreover have "?n \<le> length (drop 5 (cstr buf))" by (rule length_takeWhile_le)
  ultimately have "take ?n (drop 5 buf) = take ?n (drop 5 (cstr buf))" by simp
  then show ?thesis by (simp add: takeWhile_eq_take[symmetric])
qed

lemma http_parse_request_run:
  assumes "sds_doc E" and "NUL \<in> set (acRecvBuff c)"
    and "sr_val (os E (hist s) (Regcomp GET_PATTERN)) = 0"
  shows "\<exists>t. http_parse_request E c (SLive []) s =
      Ret (case requested (cstr (acRecvBuff c)) of
             None \<Rightarrow> (EXIT_FAILURE, SLive []) | Some name \<Rightarrow> (EXIT_SUCCESS, SLive name)) t \<and>
    after s [Regcomp GET_PATTERN, Regfree] 0 t"
proof (cases "requested (cstr (acRecvBuff c))")
  case None
  then have "re_match 0 GET_RE (cstr (acRecvBuff c)) = None"
    by (simp add: requested_def re_match_GET Let_def split: if_splits)
  with None assms show ?thesis
    by (simp add: http_parse_request_def array_cstr_def after_def)
next
  case (Some name)
  let ?c = "cstr (acRecvBuff c)"
  let ?w = "takeWhile (\<lambda>c. c \<noteq> CHR '' '') (drop 5 ?c)"
  from Some have r: "re_match 0 GET_RE ?c = Some [(5, 5 + length ?w)]" "name = map c_tolower ?w"
    "lit_eq ''GET /'' (take 5 ?c)"
    by (auto simp: requested_def re_match_GET Let_def split: if_splits)
  from r(3) have "5 \<le> length ?c" by (auto dest: lit_eq_length)
  then have "take (length ?w) (drop 5 (acRecvBuff c)) = ?w" by (rule cut_from_buffer)
  with Some r assms show ?thesis
    by (simp add: http_parse_request_def array_cstr_def log_debug_sds_def log_calls sds_docD after_def)
qed

lemma http_check_access_run:
  assumes "sds_doc E" and "NUL \<notin> set name"
  shows "\<exists>t. http_check_access_file E (SLive name) (SLive []) s =
      Ret (if sr_val (os E (hist s) (Access (served_path name))) = -1 then EXIT_FAILURE
           else EXIT_SUCCESS, SLive (served_name name), SLive (served_path name)) t \<and>
    after s [Access (served_path name)] 0 t"
proof -
  have n: "NUL \<notin> set (served_name name)" "NUL \<notin> set (served_path name)"
    using assms(2) by (auto simp: served_name_def served_path_def)
  have e: "strncmp name [] (Suc 0) = 0 \<longleftrightarrow> name = []"
    using assms(2) by (subst strncmp_empty) (cases name, auto)
  have p: "sds_printf E (SLive []) [FS, FL ''/'', FS] [AS ''/opt/www'', AS (served_name name)] u =
      Ret (SLive (served_path name)) u" for u :: "'a logger_scheme"
    by (subst sds_printf_live[OF assms(1), where t = "served_path name"]) (simp_all add: served_path_def)
  have i: "(if name = [] then sds_cat E (SLive name) ''index.html'' else retP (SLive name)) u =
      Ret (SLive (served_name name)) u" for u :: "'a logger_scheme"
    by (simp add: served_name_def sds_docD[OF assms(1)])
  show ?thesis
    using assms(2) n
    by (simp add: http_check_access_file_def log_debug_sds_def log_calls[OF assms(1)] e i p after_def)
qed

lemma http_determine_mime_run:
  assumes "sds_doc E" and "NUL \<notin> set name" and "\<And>m. mime_of name = Some m \<Longrightarrow> \<not> sds_moves E [] m"
  shows "\<exists>t. http_determine_mime E (SLive name) (SLive []) s =
      Ret (case mime_of name of
             None \<Rightarrow> (EXIT_FAILURE, SLive []) | Some m \<Rightarrow> (EXIT_SUCCESS, SLive m)) t \<and>
    after s [] 0 t"
proof -
  have l: "map_option tl (last_dot name None) = extension name"
    by (simp add: last_dot_extension extension_def)
  show ?thesis
  proof (cases "last_dot name None")
    case None
    with l assms show ?thesis
      by (simp add: http_determine_mime_def log_calls mime_of_def)
  next
    case (Some x)
    with l assms show ?thesis
      by (cases "mime_text (tl x)")
        (simp_all add: http_determine_mime_def log_calls mime_of_def log_debug_sds_def sds_docD
          flip: l)
  qed
qed

lemma http_add_header_run:
  assumes "sds_doc E" and "NUL \<notin> set m"
  shows "http_add_header E (SLive m) (SLive []) s = Ret (SLive (ok_header m)) s"
  using assms by (simp add: http_add_header_def sds_docD sds_printf_def ok_header_def)

lemma http_add_content_run:
  assumes "sds_doc E" and "file_system E fd fs" and "fs p = Some content"
  shows "\<exists>t. http_add_content E p (SLive b) s = Ret (SLive (b @ ok_body content)) t \<and>
    after s (file_calls fd (hist s) p content) 0 t"
  using assms(1) file_systemD(1,4-6)[OF assms(2,3)]
  by (simp add: http_add_content_def file_calls_def sds_docD sds_printf_def log_debug_sds_def log_calls
      file_bytes_def ok_body_def after_def)

lemma mime_text_no_nul: "mime_text e = Some m \<Longrightarrow> NUL \<notin> set m"
  by (auto simp: mime_text_def split: if_splits)

lemma mime_of_no_nul: "mime_of n = Some m \<Longrightarrow> NUL \<notin> set m"
  by (auto simp: mime_of_def bind_eq_Some_conv dest: mime_text_no_nul)

text \<open>What the file part of the handler adds to the answer, and the calls it makes.\<close>

lemma http_serve_file_run:
  assumes "sds_doc E" and "file_system E fd fs" and "NUL \<notin> set name" and "NUL \<notin> set p"
    and "fs p = Some content" and "\<And>m. mime_of name = Some m \<Longrightarrow> \<not> sds_moves E [] m"
  shows "\<exists>t. http_serve_file E (SLive name) (SLive p) (SLive []) s =
      Ret (SLive (case mime_of name of None \<Rightarrow> [] | Some m \<Rightarrow> ok_header m @ ok_body content)) t \<and>
    after s (case mime_of name of None \<Rightarrow> [] | Some m \<Rightarrow> file_calls fd (hist s) p content) 0 t"
proof -
  let ?s = "s\<lparr>sds_live := sds_live s + 1\<rparr>"
  have a0: "after s [] 1 ?s" using after_live[OF after_refl, of s 1] by simp
  from http_determine_mime_run[OF assms(1,3,6)] obtain t where
    t: "http_determine_mime E (SLive name) (SLive []) ?s = Ret (case mime_of name of
             None \<Rightarrow> (EXIT_FAILURE, SLive []) | Some m \<Rightarrow> (EXIT_SUCCESS, SLive m)) t" "after ?s [] 0 t"
    by blast
  from after_trans[OF a0 t(2)] have a1: "after s [] 1 t" by simp
  show ?thesis
  proof (cases "mime_of name")
    case None
    with t a1 assms(1) show ?thesis
      using after_live[OF a1, of "-1"] by (simp add: http_serve_file_def sds_docD)
  next
    case (Some m)
    let ?t = "log_st E eINFO (rendered [FL ''Client requested: '', FS] [AS name]) t"
    from http_add_content_run[OF assms(1,2,5)] obtain u where
      u: "http_add_content E p (SLive (ok_header m)) ?t = Ret (SLive (ok_header m @ ok_body content)) u"
      "after ?t (file_calls fd (hist ?t) p content) 0 u" by blast
    have "after s [] 1 ?t" using a1 by simp
    from after_trans[OF this u(2)] after_fields(1)[OF this]
    have a2: "after s (file_calls fd (hist s) p content) 1 u" by simp
    from Some t u(1) assms show ?thesis
      using after_live[OF a2, of "-1"]
      by (simp add: http_serve_file_def sds_docD log_calls http_add_header_run mime_of_no_nul)
  qed
qed

lemma http_404_run:
  assumes "sds_doc E"
  shows "\<exists>t. http_404 E (SLive []) s = Ret (EXIT_SUCCESS, SLive text_404) t \<and> after s [] 0 t"
  using assms by (simp add: http_404_def log_calls sds_docD)

lemma requested_no_nul: "requested (cstr buf) = Some name \<Longrightarrow> NUL \<notin> set name"
  by (auto simp: requested_def Let_def cstr_def split: if_splits
      dest!: set_takeWhileD in_set_dropD)

lemma served_no_nul:
  "NUL \<notin> set name \<Longrightarrow> NUL \<notin> set (served_name name) \<and> NUL \<notin> set (served_path name)"
  by (auto simp: served_name_def served_path_def)

text \<open>The end of the handler, the same on every path: send, free the buffer.\<close>

definition http_finish :: "env \<Rightarrow> tsClientStruct \<Rightarrow> sds \<Rightarrow> sds \<Rightarrow>
  ('a logger_scheme, int \<times> tsClientStruct) prog" where
  "http_finish E c sFileName buff =
     seqP (sds_free sFileName) (
     bindP (sds_get buff) (\<lambda>out.
     bindP (callP E (Send (iSockfd c) out)) (\<lambda>r.
     seqP (whenP (r = -1) (log_debug E [FL ''Sending error on client '', FD] [AI (iId c)])) (
     seqP (sds_free buff) (retP (EXIT_SUCCESS, c\<lparr>acSendBuff := SNull\<rparr>))))))"

lemma http_finish_run:
  assumes "sds_doc E" and "after s cs 2 t"
  shows "\<exists>u. http_finish E c (SLive n) (SLive out) t = Ret (EXIT_SUCCESS, c\<lparr>acSendBuff := SNull\<rparr>) u \<and>
    after s (cs @ [Send (iSockfd c) out]) 0 u"
  using assms(2) after_fields[OF assms(2)]
  by (cases "sr_val (os E (hist t) (Send (iSockfd c) out)) = -1")
    (simp_all add: http_finish_def log_calls[OF assms(1)] after_def)

text \<open>The part of the handler for a request that was understood.\<close>

definition http_respond :: "env \<Rightarrow> sds \<Rightarrow> sds \<Rightarrow> ('a logger_scheme, sds \<times> sds) prog" where
  "http_respond E sFileName buff =
     bindP (sds_new E []) (\<lambda>sPath.
     bindP (http_check_access_file E sFileName sPath) (\<lambda>(iAccess, sFileName, sPath).
     bindP (if iAccess = EXIT_SUCCESS then http_serve_file E sFileName sPath buff
            else bindP (http_404 E buff) (\<lambda>(_, buff). retP buff)) (\<lambda>buff.
     seqP (sds_free sPath) (retP (sFileName, buff)))))"

lemma http_handle_split:
  "http_handle_client_request E c =
     bindP (sds_new E []) (\<lambda>buff.
     bindP (sds_new E []) (\<lambda>sFileName.
     bindP (http_parse_request E c sFileName) (\<lambda>(iParse, sFileName).
     bindP (if iParse = EXIT_SUCCESS then http_respond E sFileName buff
            else retP (sFileName, buff)) (\<lambda>(sFileName, buff). http_finish E c sFileName buff))))"
  unfolding http_handle_client_request_def http_respond_def http_finish_def ..

lemma http_respond_run:
  assumes "sds_doc E" and "file_system E fd fs" and "NUL \<notin> set name"
    and "\<And>m. \<not> sds_moves E [] m"
  shows "\<exists>t. http_respond E (SLive name) (SLive []) s =
      Ret (SLive (served_name name), SLive (case fs (served_path name) of
          None \<Rightarrow> text_404
        | Some content \<Rightarrow> (case mime_of (served_name name) of
            None \<Rightarrow> [] | Some m \<Rightarrow> ok_header m @ ok_body content))) t \<and>
    after s (Access (served_path name) # (case fs (served_path name) of
          None \<Rightarrow> []
        | Some content \<Rightarrow> (case mime_of (served_name name) of
            None \<Rightarrow> [] | Some m \<Rightarrow> file_calls fd (hist s @ [Access (served_path name)]) (served_path name) content))) 0 t"
proof -
  let ?s = "s\<lparr>sds_live := sds_live s + 1\<rparr>" and ?p = "served_path name" and ?n = "served_name name"
  note nul = served_no_nul[OF assms(3)]
  have a0: "after s [] 1 ?s" using after_live[OF after_refl, of s 1] by simp
  have "(sr_val (os E (hist ?s) (Access ?p)) = -1) = (fs ?p = None)"
    using file_systemD(3)[OF assms(2)] by simp
  with http_check_access_run[OF assms(1,3), of ?s] obtain t where
    t: "http_check_access_file E (SLive name) (SLive []) ?s =
      Ret (if fs ?p = None then EXIT_FAILURE else EXIT_SUCCESS, SLive ?n, SLive ?p) t"
    "after ?s [Access ?p] 0 t" by auto
  from after_trans[OF a0 t(2)] have a1: "after s [Access ?p] 1 t" by simp
  show ?thesis
  proof (cases "fs ?p")
    case None
    from http_404_run[OF assms(1)] obtain u where
      u: "http_404 E (SLive []) t = Ret (EXIT_SUCCESS, SLive text_404) u" "after t [] 0 u" by blast
    from after_live[OF after_trans[OF a1 u(2)], of "-1"] None t u assms(1) show ?thesis
      by (simp add: http_respond_def sds_docD)
  next
    case (Some content)
    from http_serve_file_run[OF assms(1,2) _ _ Some, of ?n t] nul assms(4) obtain u where
      u: "http_serve_file E (SLive ?n) (SLive ?p) (SLive []) t =
        Ret (SLive (case mime_of ?n of None \<Rightarrow> [] | Some m \<Rightarrow> ok_header m @ ok_body content)) u"
      "after t (case mime_of ?n of None \<Rightarrow> [] | Some m \<Rightarrow> file_calls fd (hist t) ?p content) 0 u"
      by blast
    from after_live[OF after_trans[OF a1 u(2)], of "-1"] after_fields(1)[OF a1] Some t u assms(1) show ?thesis
      by (simp add: http_respond_def sds_docD cong: option.case_cong)
  qed
qed

lemma http_handle_run:
  assumes "sds_doc E" and "file_system E fd fs" and "NUL \<in> set (acRecvBuff c)"
    and "\<And>m. \<not> sds_moves E [] m"
  shows "\<exists>t. http_handle_client_request E c s = Ret (EXIT_SUCCESS, c\<lparr>acSendBuff := SNull\<rparr>) t \<and>
    after s (http_calls fd (hist s) fs (cstr (acRecvBuff c)) @
      [Send (iSockfd c) (http_answer fs (cstr (acRecvBuff c)))]) 0 t"
proof -
  let ?str = "cstr (acRecvBuff c)" and ?rx = "[Regcomp GET_PATTERN, Regfree]"
  let ?s = "s\<lparr>sds_live := sds_live s + 1 + 1\<rparr>"
  have a0: "after s [] 2 ?s" by (simp add: after_def)
  from http_parse_request_run[OF assms(1,3), of ?s] file_systemD(2)[OF assms(2)] obtain t where
    t: "http_parse_request E c (SLive []) ?s = Ret (case requested ?str of
        None \<Rightarrow> (EXIT_FAILURE, SLive []) | Some name \<Rightarrow> (EXIT_SUCCESS, SLive name)) t" "after ?s ?rx 0 t"
    by blast
  from after_trans[OF a0 t(2)] have a1: "after s ?rx 2 t" by simp
  show ?thesis
  proof (cases "requested ?str")
    case None
    with http_finish_run[OF assms(1) a1, of c "[]" "[]"] t(1) assms(1) show ?thesis
      by (auto simp: http_handle_split sds_docD http_calls_def http_answer_def)
  next
    case (Some name)
    from http_respond_run[OF assms(1,2) requested_no_nul[OF Some] assms(4), of t, unfolded after_fields(1)[OF a1] append_assoc append.simps]
    obtain u where
      u: "http_respond E (SLive name) (SLive []) t =
        Ret (SLive (served_name name), SLive (http_answer fs ?str)) u"
      "after t (drop 2 (http_calls fd (hist s) fs ?str)) 0 u"
      using Some by (auto simp: http_calls_def http_answer_def)
    have "http_calls fd (hist s) fs ?str = ?rx @ drop 2 (http_calls fd (hist s) fs ?str)" by (simp add: http_calls_def)
    with after_trans[OF a1 u(2)] have "after s (http_calls fd (hist s) fs ?str) 2 u" by simp
    from http_finish_run[OF assms(1) this] Some t(1) u(1) assms(1) show ?thesis
      by (auto simp: http_handle_split sds_docD)
  qed
qed

text \<open>
  The handler works on the logger's state and its own strings only, whatever the environment
  answers.
\<close>

lemma keeps_more_log_sds [frame]: "keeps logger.more (log_debug_sds E f v)"
  unfolding log_debug_sds_def by (cases v) (auto intro!: keeps_rules frame)

lemma keeps_more_http [frame]: "keeps logger.more (http_handle_client_request E c)"
  unfolding http_handle_client_request_def http_parse_request_def http_check_access_file_def
    http_serve_file_def http_determine_mime_def http_404_def http_add_header_def
    http_add_content_def Let_def
  by (intro keeps_rules frame)

section \<open>Claims\<close>

text \<open>
  The file system of the witnesses: one page, one file above the document root.
\<close>

definition demo_fs :: "string \<rightharpoonup> string" where
  "demo_fs = [''/opt/www/index.html'' \<mapsto> ''<p>hi</p>'', ''/opt/www/../key.txt'' \<mapsto> ''secret'']"

definition demo_os :: "call list \<Rightarrow> call \<Rightarrow> sysret" where
  "demo_os h c = (case c of
       Access p \<Rightarrow> \<lparr>sr_val = (if demo_fs p = None then -1 else 0), sr_errno = 0, sr_data = []\<rparr>
     | Open p \<Rightarrow> \<lparr>sr_val = 7, sr_errno = 0, sr_data = []\<rparr>
     | Fstat fd \<Rightarrow> (case last h of Open p \<Rightarrow>
         \<lparr>sr_val = int (length (the (demo_fs p))), sr_errno = 0, sr_data = []\<rparr>
         | _ \<Rightarrow> \<lparr>sr_val = 0, sr_errno = 0, sr_data = []\<rparr>)
     | Read fd n \<Rightarrow> (case last (butlast h) of Open p \<Rightarrow>
         \<lparr>sr_val = int n, sr_errno = 0, sr_data = the (demo_fs p)\<rparr>
         | _ \<Rightarrow> \<lparr>sr_val = 0, sr_errno = 0, sr_data = []\<rparr>)
     | _ \<Rightarrow> \<lparr>sr_val = 0, sr_errno = 0, sr_data = []\<rparr>)"

definition demo_env :: env where
  "demo_env = calm_env\<lparr>os := demo_os\<rparr>"

definition demo_client :: "string \<Rightarrow> tsClientStruct" where
  "demo_client line = \<lparr>iId = 1, iSockfd = 9, sTheirAddr = [], cIP = [], acSendBuff = SNull,
     acRecvBuff = line @ [NUL]\<rparr>"

lemma demo_env_ok:
  "sds_doc demo_env" "file_system demo_env (\<lambda>_ _. 7) demo_fs" "\<not> sds_moves demo_env c m"
  by (auto simp: demo_env_def calm_env_def documented_sds_def sds_doc_def file_system_def demo_os_def
      butlast_append)

text \<open>
  C5. A request is answered completely and correctly: whatever the bytes in the receive
  buffer, as long as they contain a NUL, the handler returns \<^verbatim>\<open>EXIT_SUCCESS\<close>, sends exactly
  one answer, which is \<open>http_answer\<close> of the request and the file system (200 with the file's
  bytes and its length, 404, or nothing), makes exactly the listed calls before that, and frees
  every string it made.
\<close>

theorem http_request_served:
  assumes "sds_doc E" and "file_system E fd fs" and "NUL \<in> set (acRecvBuff c)"
    and "\<And>m. \<not> sds_moves E [] m"
  shows "\<exists>t. http_handle_client_request E c s = Ret (EXIT_SUCCESS, c\<lparr>acSendBuff := SNull\<rparr>) t \<and>
    after s (http_calls fd (hist s) fs (cstr (acRecvBuff c)) @
      [Send (iSockfd c) (http_answer fs (cstr (acRecvBuff c)))]) 0 t"
  using assms by (rule http_handle_run)

theorem http_request_served_witness:
  "\<exists>t. http_handle_client_request demo_env (demo_client ''get / HTTP/1.1'') demo_logger =
      Ret (0, demo_client ''get / HTTP/1.1'') t \<and> last (hist t) = Send 9
        (ok_header ''text/html'' @ ok_body ''<p>hi</p>'')"
proof -
  let ?c = "demo_client ''get / HTTP/1.1''"
  have "cstr (acRecvBuff ?c) = ''get / HTTP/1.1''" by (simp add: demo_client_def cstr_def)
  moreover have "requested ''get / HTTP/1.1'' = Some []" by code_simp
  then have "http_answer demo_fs ''get / HTTP/1.1'' = ok_header ''text/html'' @ ok_body ''<p>hi</p>''"
    by (simp add: http_answer_def served_path_def served_name_def demo_fs_def mime_of_def
        extension_def mime_text_def)
  moreover have "?c\<lparr>acSendBuff := SNull\<rparr> = ?c" "NUL \<in> set (acRecvBuff ?c)" "iSockfd ?c = 9"
    by (simp_all add: demo_client_def)
  ultimately show ?thesis
    using http_request_served[OF demo_env_ok(1,2) _ demo_env_ok(3), of ?c demo_logger]
    by (auto dest!: after_fields(1))
qed

text \<open>A request of the accepted form, for the file \<open>name\<close>.\<close>

definition get_request :: "string \<Rightarrow> string \<Rightarrow> bool" where
  "get_request req name \<longleftrightarrow> (\<exists>g h rest. req = g @ name @ h @ rest \<and> lit_eq ''GET /'' g \<and>
     CHR '' '' \<notin> set name \<and> lit_eq '' HTTP/1'' h)"

lemma get_request_iff: "requested req = Some n \<longleftrightarrow> (\<exists>name. get_request req name \<and> n = map c_tolower name)"
  unfolding requested_iff get_request_def by blast

text \<open>
  C19. The parser accepts exactly the requests of the form \<^verbatim>\<open>GET /name HTTP/1...\<close> (letters
  of the keywords in either case, no space in the name): for every such request it succeeds and
  yields that name in lower case; for every other text it fails and leaves the name empty. If the
  expression cannot be compiled, it fails at once.
\<close>

theorem http_parse_request_spec:
  assumes "sds_doc E" and "NUL \<in> set (acRecvBuff c)"
  shows "if sr_val (os E (hist s) (Regcomp GET_PATTERN)) = 0
    then (\<forall>name. get_request (cstr (acRecvBuff c)) name \<longrightarrow>
        (\<exists>t. http_parse_request E c (SLive []) s = Ret (EXIT_SUCCESS, SLive (map c_tolower name)) t \<and>
          after s [Regcomp GET_PATTERN, Regfree] 0 t)) \<and>
      ((\<nexists>name. get_request (cstr (acRecvBuff c)) name) \<longrightarrow>
        (\<exists>t. http_parse_request E c (SLive []) s = Ret (EXIT_FAILURE, SLive []) t \<and>
          after s [Regcomp GET_PATTERN, Regfree] 0 t))
    else (\<exists>t. http_parse_request E c (SLive []) s = Ret (EXIT_FAILURE, SLive []) t \<and>
        after s [Regcomp GET_PATTERN] 0 t)"
proof (cases "sr_val (os E (hist s) (Regcomp GET_PATTERN)) = 0")
  case True
  have hit: "requested (cstr (acRecvBuff c)) = Some (map c_tolower name)" if "get_request (cstr (acRecvBuff c)) name" for name
    using that get_request_iff by blast
  have miss: "requested (cstr (acRecvBuff c)) = None" if "\<nexists>name. get_request (cstr (acRecvBuff c)) name"
    using that get_request_iff by (cases "requested (cstr (acRecvBuff c))") auto
  from http_parse_request_run[OF assms True] True show ?thesis by (auto simp: hit miss)
next
  case False
  then show ?thesis by (simp add: http_parse_request_def after_def outside_log_def)
qed

theorem http_parse_request_spec_witness:
  "(\<exists>t. http_parse_request demo_env (demo_client ''GET /A.txt HTTP/1.1'') (SLive []) demo_logger =
      Ret (EXIT_SUCCESS, SLive ''a.txt'') t) \<and>
   (\<exists>t. http_parse_request demo_env (demo_client ''PUT /'') (SLive []) demo_logger = Ret (EXIT_FAILURE, SLive []) t)"
proof -
  have c: "NUL \<in> set (acRecvBuff (demo_client x))" "cstr (acRecvBuff (demo_client ''PUT /'')) = ''PUT /''"
    "cstr (acRecvBuff (demo_client ''GET /A.txt HTTP/1.1'')) = ''GET /A.txt HTTP/1.1''" for x
    by (simp_all add: demo_client_def cstr_def)
  have r: "requested ''GET /A.txt HTTP/1.1'' = Some ''a.txt''" "requested ''PUT /'' = None" by code_simp+
  from r(1) obtain name where n: "get_request ''GET /A.txt HTTP/1.1'' name" "map c_tolower name = ''a.txt''"
    unfolding get_request_iff by auto
  have none: "\<nexists>name. get_request ''PUT /'' name"
  proof
    assume "\<exists>name. get_request ''PUT /'' name"
    then obtain m where "requested ''PUT /'' = Some m" unfolding get_request_iff by blast
    with r(2) show False by simp
  qed
  note spec = http_parse_request_spec[OF demo_env_ok(1) c(1), of demo_logger, unfolded file_systemD(2)[OF demo_env_ok(2)]]
  from spec[of "''GET /A.txt HTTP/1.1''"] n
  have "\<exists>t. http_parse_request demo_env (demo_client ''GET /A.txt HTTP/1.1'') (SLive []) demo_logger =
      Ret (EXIT_SUCCESS, SLive ''a.txt'') t" unfolding c(3) by force
  moreover from spec[of "''PUT /''"] none
  have "\<exists>t. http_parse_request demo_env (demo_client ''PUT /'') (SLive []) demo_logger = Ret (EXIT_FAILURE, SLive []) t"
    unfolding c(2) by force
  ultimately show ?thesis by blast
qed

lemma log_debug_sds_freed:
  assumes "sds_doc E" and "fmt_ok f [AS []]"
  shows "(log_debug_sds E f SFreed s = Fault UseAfterFree s) \<or>
    (\<exists>t. log_debug_sds E f SFreed s = Ret () t \<and> hist t = hist s)"
  using assms by (simp add: log_debug_sds_def log_calls)

lemma http_serve_file_moved:
  assumes "sds_doc E" and "NUL \<notin> set name" and "mime_of name = Some m" and "sds_moves E [] m"
  shows "\<exists>t. http_serve_file E (SLive name) p (SLive b) s = Fault UseAfterFree t \<and> hist t = hist s"
proof -
  have "map_option tl (last_dot name None) = extension name"
    by (simp add: last_dot_extension extension_def)
  with assms(3) obtain x where x: "last_dot name None = Some x" "mime_text (tl x) = Some m"
    by (auto simp: mime_of_def bind_eq_Some_conv)
  define u where "u = log_st E eDEBUG (rendered [FL ''Determining mime type''] []) (s\<lparr>sds_live := sds_live s + 1\<rparr>)"
  have d: "http_determine_mime E (SLive name) (SLive []) (s\<lparr>sds_live := sds_live s + 1\<rparr>) =
      bindP (log_debug_sds E [FL ''Determined to be mime type: '', FS] SFreed) (\<lambda>_. retP (0, SFreed)) u"
    using assms x by (simp add: http_determine_mime_def log_calls u_def)
  have h: "hist u = hist s" by (simp add: u_def)
  from log_debug_sds_freed[OF assms(1), of "[FL ''Determined to be mime type: '', FS]" u] show ?thesis
  proof
    assume "log_debug_sds E [FL ''Determined to be mime type: '', FS] SFreed u = Fault UseAfterFree u"
    with d h assms show ?thesis by (simp add: http_serve_file_def sds_docD)
  next
    assume "\<exists>t. log_debug_sds E [FL ''Determined to be mime type: '', FS] SFreed u = Ret () t \<and> hist t = hist u"
    with d h assms show ?thesis
      by (auto simp: http_serve_file_def sds_docD log_calls http_add_header_def)
  qed (simp)
qed

text \<open>
  C37. The content type is appended with the result of \<^verbatim>\<open>sdscat\<close> thrown away. When
  appending moves the string, every request for an existing file of a known type reads freed
  memory, after the file was found and before anything is sent.
\<close>

theorem http_mime_use_after_move:
  assumes "sds_doc E" and "file_system E fd fs" and "NUL \<in> set (acRecvBuff c)"
    and "requested (cstr (acRecvBuff c)) = Some name" and "fs (served_path name) = Some content"
    and "mime_of (served_name name) = Some m" and "sds_moves E [] m"
  shows "\<exists>t. http_handle_client_request E c s = Fault UseAfterFree t \<and>
    hist t = hist s @ [Regcomp GET_PATTERN, Regfree, Access (served_path name)]"
proof -
  note nul = requested_no_nul[OF assms(4)]
  let ?s = "s\<lparr>sds_live := sds_live s + 1 + 1\<rparr>"
  from http_parse_request_run[OF assms(1,3), of ?s] file_systemD(2)[OF assms(2)] assms(4) obtain t where
    t: "http_parse_request E c (SLive []) ?s = Ret (EXIT_SUCCESS, SLive name) t"
    "hist t = hist s @ [Regcomp GET_PATTERN, Regfree]"
    by (fastforce dest: after_fields(1))
  let ?t = "t\<lparr>sds_live := sds_live t + 1\<rparr>"
  from http_check_access_run[OF assms(1) nul, of ?t] file_systemD(3)[OF assms(2)] assms(5) obtain u where
    u: "http_check_access_file E (SLive name) (SLive []) ?t =
      Ret (EXIT_SUCCESS, SLive (served_name name), SLive (served_path name)) u"
    "hist u = hist t @ [Access (served_path name)]"
    by (auto dest!: after_fields(1))
  from http_serve_file_moved[OF assms(1) _ assms(6,7)] served_no_nul[OF nul] obtain v where
    "http_serve_file E (SLive (served_name name)) (SLive (served_path name)) (SLive []) u =
      Fault UseAfterFree v" "hist v = hist u" by blast
  with t u assms(1) show ?thesis
    by (simp add: http_handle_split http_respond_def sds_docD)
qed

theorem http_mime_use_after_move_witness:
  "\<exists>t. http_handle_client_request (demo_env\<lparr>sds_moves := \<lambda>_ _. True\<rparr>)
      (demo_client ''get / HTTP/1.1'') demo_logger = Fault UseAfterFree t"
proof -
  let ?E = "demo_env\<lparr>sds_moves := \<lambda>_ _. True\<rparr>" and ?c = "demo_client ''get / HTTP/1.1''"
  have "sds_doc ?E" "file_system ?E (\<lambda>_ _. 7) demo_fs"
    using demo_env_ok by (simp_all add: sds_doc_def file_system_def)
  moreover have "cstr (acRecvBuff ?c) = ''get / HTTP/1.1''" "NUL \<in> set (acRecvBuff ?c)"
    by (simp_all add: demo_client_def cstr_def)
  moreover have "requested ''get / HTTP/1.1'' = Some []" by code_simp
  moreover have "mime_of (served_name []) = Some ''text/html''"
    by (simp add: served_name_def mime_of_def extension_def mime_text_def)
  moreover have "demo_fs (served_path []) = Some ''<p>hi</p>''"
    by (simp add: demo_fs_def served_path_def served_name_def)
  ultimately show ?thesis
    using http_mime_use_after_move[of ?E "\<lambda>_ _. 7" demo_fs ?c "[]" "''<p>hi</p>''" "''text/html''" demo_logger]
    by auto
qed

text \<open>
  A receive buffer without a NUL, which is what a request of \<^verbatim>\<open>RECV_BUFF_SIZE\<close> bytes
  leaves behind, makes the matcher read past the end of the array: it is handed the bare array.
\<close>

lemma http_unterminated_request:
  assumes "sds_doc E" and "NUL \<notin> set (acRecvBuff c)"
    and "sr_val (os E (hist s) (Regcomp GET_PATTERN)) = 0"
  shows "\<exists>t. http_handle_client_request E c s = Fault OutOfBounds t"
  using assms by (simp add: http_handle_client_request_def http_parse_request_def array_cstr_def sds_docD)

text \<open>
  C38. However little \<^verbatim>\<open>read\<close> delivers, the answer announces and carries the size
  \<^verbatim>\<open>fstat\<close> reported: the missing bytes are whatever the fresh memory held. The file is
  opened, measured and read; it is never closed.
\<close>

theorem http_short_read_sends_memory:
  assumes "sds_doc E"
    and "sr_val (os E (hist s) (Open p)) = fd" and "fd \<noteq> -1"
    and "sr_val (os E (hist s @ [Open p]) (Fstat fd)) = int n"
    and "sr_data (os E (hist s @ [Open p, Fstat fd]) (Read fd n)) = d" and "length d \<le> n"
  shows "\<exists>t. http_add_content E p (SLive b) s = Ret (SLive (b @ ''Content-Length: '' @
      dec_int (int n) @ CRLF @ CRLF @ d @ map (uninit E) [0..<n - length d])) t \<and>
    after s [Open p, Fstat fd, Read fd n] 0 t"
proof -
  have "file_bytes E n d = d @ map (uninit E) [0..<n - length d]"
    using assms(6) by (simp add: file_bytes_def take_map)
  with assms show ?thesis
    by (simp add: http_add_content_def sds_docD sds_printf_def log_debug_sds_def log_calls after_def)
qed

theorem http_short_read_sends_memory_witness:
  "\<exists>t. http_add_content (demo_env\<lparr>os := \<lambda>h c. (case c of Fstat fd \<Rightarrow> \<lparr>sr_val = 2, sr_errno = 0, sr_data = []\<rparr>
      | _ \<Rightarrow> \<lparr>sr_val = -2, sr_errno = 5, sr_data = []\<rparr>), uninit := \<lambda>_. CHR ''?''\<rparr>) ''x'' (SLive []) demo_logger =
    Ret (SLive (''Content-Length: 2'' @ CRLF @ CRLF @ ''??'')) t"
proof -
  let ?E = "demo_env\<lparr>os := \<lambda>h c. (case c of Fstat fd \<Rightarrow> \<lparr>sr_val = 2, sr_errno = 0, sr_data = []\<rparr>
      | _ \<Rightarrow> \<lparr>sr_val = -2, sr_errno = 5, sr_data = []\<rparr>), uninit := \<lambda>_. CHR ''?''\<rparr>"
  have doc: "sds_doc ?E" using demo_env_ok(1) by (simp add: sds_doc_def)
  have d: "dec_int 2 = ''2''" by code_simp
  show ?thesis
    using http_short_read_sends_memory[OF doc, of demo_logger "''x''" "-2" 2 "[]" "[]"] d
    by (auto simp: numeral_2_eq_2)
qed

text \<open>
  C39. The name goes into the path as the client wrote it: a request whose name climbs out of
  the document root with \<^verbatim>\<open>..\<close> is answered with the file it reaches there.
\<close>

theorem http_serves_above_root:
  assumes "sds_doc E" and "file_system E fd fs" and "\<And>m. \<not> sds_moves E [] m"
    and "acRecvBuff c = ''GET /../'' @ name @ '' HTTP/1.1'' @ [NUL]"
    and "NUL \<notin> set name" and "CHR '' '' \<notin> set name" and "map c_tolower name = name"
    and "mime_of name = Some m" and "fs (''/opt/www/../'' @ name) = Some content"
  shows "\<exists>t. http_handle_client_request E c s = Ret (EXIT_SUCCESS, c\<lparr>acSendBuff := SNull\<rparr>) t \<and>
    last (hist t) = Send (iSockfd c) (ok_header m @ ok_body content)"
proof -
  let ?str = "''GET /../'' @ name @ '' HTTP/1.1''"
  have c: "cstr (acRecvBuff c) = ?str" "NUL \<in> set (acRecvBuff c)"
    using cstr_append_nul[of ?str "[]"] assms(4,5) by simp_all
  have "?str = ''GET /'' @ (''../'' @ name) @ '' HTTP/1'' @ ''.1''" by simp
  moreover have "map c_tolower ''../'' = ''../''" by code_simp
  then have "map c_tolower (''../'' @ name) = ''../'' @ name" using assms(7) by (simp only: map_append)
  ultimately have r: "requested ?str = Some (''../'' @ name)"
    unfolding requested_iff using assms(6)
    by (intro exI[of _ "''GET /''"] exI[of _ "''../'' @ name"] exI[of _ "'' HTTP/1''"] exI[of _ "''.1''"])
      (simp add: lit_eq_def)
  from assms(8) obtain e u where "name = u @ CHR ''.'' # e" "CHR ''.'' \<notin> set e" "mime_text e = Some m"
    by (auto simp: mime_of_def bind_eq_Some_conv extension_split)
  then have "extension (''../'' @ name) = Some e"
    unfolding extension_split by (auto intro!: exI[of _ "''../'' @ u"])
  with \<open>mime_text e = Some m\<close> have "mime_of (''../'' @ name) = Some m" by (simp add: mime_of_def)
  with r assms(9) have "http_answer fs ?str = ok_header m @ ok_body content"
    by (simp add: http_answer_def served_path_def served_name_def)
  with http_handle_run[OF assms(1,2) c(2) assms(3), of s] c(1) show ?thesis
    by (auto dest!: after_fields(1))
qed

theorem http_serves_above_root_witness:
  "\<exists>t. http_handle_client_request demo_env (demo_client ''GET /../key.txt HTTP/1.1'') demo_logger =
      Ret (0, (demo_client ''GET /../key.txt HTTP/1.1'')\<lparr>acSendBuff := SNull\<rparr>) t \<and>
    last (hist t) = Send 9 (ok_header ''image/txt'' @ ok_body ''secret'')"
proof -
  have "map c_tolower ''key.txt'' = ''key.txt''" by code_simp
  then show ?thesis
    using http_serves_above_root[OF demo_env_ok, of "demo_client ''GET /../key.txt HTTP/1.1''" "''key.txt''"
        "''image/txt''" "''secret''" demo_logger]
    by (simp add: demo_client_def demo_fs_def mime_of_def extension_def mime_text_def)
qed

end
