(* ===== verification/Client.thy ===== *)
theory Client
  imports Settings Http
begin

text \<open>
  The clients of a worker, \<^verbatim>\<open>src/src/cew_client.c\<close>: a client structure is allocated
  and two watchers of libev are started for it when its descriptor arrives; the callbacks serve
  one request or time out, and then take the client down. Client structures live in a heap from
  addresses to structures, so that a callback on a structure that was freed is visible.
\<close>

section \<open>Data\<close>

record tsClientEv =
  sClient :: tsClientStruct

text \<open>
  \<open>io_on\<close> and \<open>timer_on\<close> are the addresses of the structures whose watchers \<^verbatim>\<open>io\<close> and
  \<^verbatim>\<open>timer\<close> are started, which is what decides whether libev may call back.
\<close>

record clients = settings +
  cheap :: "nat \<rightharpoonup> tsClientEv"
  fresh_addr :: nat
  io_on :: "nat set"
  timer_on :: "nat set"

section \<open>libev watchers and memory\<close>

definition ev_io_start :: "env \<Rightarrow> nat \<Rightarrow> ('a clients_scheme, unit) prog" where
  "ev_io_start E a = seqP (callP E (Ev_io_start (int a))) (modP (\<lambda>s. s\<lparr>io_on := insert a (io_on s)\<rparr>))"

definition ev_io_stop :: "env \<Rightarrow> nat \<Rightarrow> ('a clients_scheme, unit) prog" where
  "ev_io_stop E a = seqP (callP E (Ev_io_stop (int a))) (modP (\<lambda>s. s\<lparr>io_on := io_on s - {a}\<rparr>))"

definition ev_timer_start :: "env \<Rightarrow> nat \<Rightarrow> ('a clients_scheme, unit) prog" where
  "ev_timer_start E a =
     seqP (callP E (Ev_timer_start (int a))) (modP (\<lambda>s. s\<lparr>timer_on := insert a (timer_on s)\<rparr>))"

text \<open>The timer has a repeat value, so that \<^verbatim>\<open>ev_timer_again\<close> (re)starts it.\<close>

definition ev_timer_again :: "env \<Rightarrow> nat \<Rightarrow> ('a clients_scheme, unit) prog" where
  "ev_timer_again E a =
     seqP (callP E (Ev_timer_again (int a))) (modP (\<lambda>s. s\<lparr>timer_on := insert a (timer_on s)\<rparr>))"

definition ev_timer_stop :: "env \<Rightarrow> nat \<Rightarrow> ('a clients_scheme, unit) prog" where
  "ev_timer_stop E a =
     seqP (callP E (Ev_timer_stop (int a))) (modP (\<lambda>s. s\<lparr>timer_on := timer_on s - {a}\<rparr>))"

definition client_at :: "nat \<Rightarrow> ('a clients_scheme, tsClientStruct) prog" where
  "client_at a = bindP (getP cheap) (\<lambda>h.
     case h a of None \<Rightarrow> faultP UseAfterFree | Some c \<Rightarrow> retP (sClient c))"

definition put_client :: "nat \<Rightarrow> tsClientStruct \<Rightarrow> ('a clients_scheme, unit) prog" where
  "put_client a c = modP (\<lambda>s. s\<lparr>cheap := (cheap s)(a \<mapsto> \<lparr>sClient = c\<rparr>)\<rparr>)"

definition free_client :: "env \<Rightarrow> nat \<Rightarrow> ('a clients_scheme, unit) prog" where
  "free_client E a = seqP (callP E (Free ''client'')) (modP (\<lambda>s. s\<lparr>cheap := (cheap s)(a := None)\<rparr>))"

section \<open>Operations\<close>

text \<open>
  \<^verbatim>\<open>while (read(fd, &trash, sizeof(trash)));\<close> ends only when \<^verbatim>\<open>read\<close> returns 0; an
  error, \<open>-1\<close>, counts as more data. The first argument is the number of rounds granted.
\<close>

definition drain_loop :: "env \<Rightarrow> nat \<Rightarrow> int \<Rightarrow> ('a base_scheme, unit) prog" where
  "drain_loop E n fd = until_zero E n (Read fd 100)"

definition client_deregister :: "env \<Rightarrow> nat \<Rightarrow> ('a clients_scheme, int) prog" where
  "client_deregister E a =
     bindP (client_at a) (\<lambda>c.
     seqP (ev_timer_stop E a) (
     seqP (ev_io_stop E a) (
     seqP (whenP (iSockfd c \<noteq> 0) (
        seqP (callP E (Shutdown (iSockfd c))) (
        seqP (drain_loop E (fuel E) (iSockfd c)) (
        seqP (callP E (Close (iSockfd c)))
          (put_client a (c\<lparr>iSockfd := 0\<rparr>)))))) (
     bindP (client_at a) (\<lambda>c.
     seqP (whenP (acSendBuff c \<noteq> SNull)
        (seqP (sds_free (acSendBuff c)) (put_client a (c\<lparr>acSendBuff := SNull\<rparr>)))) (
     seqP (free_client E a) (
     seqP (log_debug E [FL ''Deregistered client '', FD, FL ''.''] [AI (iId c)])
       (retP EXIT_SUCCESS))))))))"

definition client_callback_timeout :: "env \<Rightarrow> nat \<Rightarrow> ('a clients_scheme, unit) prog" where
  "client_callback_timeout E a =
     bindP (client_at a) (\<lambda>c.
     seqP (log_info E [FL ''Client timeout '', FD, FL ''.''] [AI (iId c)])
       (voidP (client_deregister E a)))"

text \<open>What \<^verbatim>\<open>recv\<close> leaves in the buffer: the received bytes over the old content.\<close>

definition recv_into :: "string \<Rightarrow> string \<Rightarrow> string" where
  "recv_into data buf = take RECV_BUFF_SIZE data @ drop (length (take RECV_BUFF_SIZE data)) buf"

text \<open>A debug message whose argument is the bare array: without a NUL it is read past its end.\<close>

definition log_debug_array :: "env \<Rightarrow> fmt list \<Rightarrow> string \<Rightarrow> ('a logger_scheme, unit) prog" where
  "log_debug_array E f buf = bindP (getP id) (\<lambda>s.
     case array_cstr buf of
       Some t \<Rightarrow> log_debug E f [AS t]
     | None \<Rightarrow> if is_msg_allowed eDEBUG s = 0 \<and> \<not> log_full s then faultP OutOfBounds
         else log_debug E f [AS []])"

text \<open>The branches of the serving callback: the client hung up, the client sent something.\<close>

definition client_disconnect :: "env \<Rightarrow> nat \<Rightarrow> tsClientStruct \<Rightarrow> ('a clients_scheme, unit) prog" where
  "client_disconnect E a c =
     seqP (log_debug E [FL ''Disconnecting client '', FD] [AI (iId c)])
       (voidP (client_deregister E a))"

definition client_request :: "env \<Rightarrow> nat \<Rightarrow> tsClientStruct \<Rightarrow> ('a clients_scheme, unit) prog" where
  "client_request E a c =
     seqP (log_debug_array E [FL ''Received data '', FS] (acRecvBuff c)) (
     seqP (ev_timer_again E a) (
     bindP (http_handle_client_request E c) (\<lambda>(_, c).
     seqP (put_client a c)
       (voidP (client_deregister E a)))))"

definition client_callback_serve :: "env \<Rightarrow> nat \<Rightarrow> ('a clients_scheme, unit) prog" where
  "client_callback_serve E a =
     bindP (client_at a) (\<lambda>c.
     bindP (sysP E (Recv (iSockfd c) RECV_BUFF_SIZE)) (\<lambda>r.
     let iReceived = sr_val r in
     if iReceived < 0 then
       log_error E [FL ''Receive error on client '', FD, FL ''.''] [AI (iId c)]
     else if iReceived = 0 then client_disconnect E a c
     else
       let c = c\<lparr>acRecvBuff := recv_into (take (nat iReceived) (sr_data r)) (acRecvBuff c)\<rparr> in
       seqP (put_client a c) (client_request E a c)))"

definition new_client :: "int \<Rightarrow> int \<Rightarrow> tsClientStruct" where
  "new_client fd i = \<lparr>iId = i, iSockfd = fd, sTheirAddr = [], cIP = [], acSendBuff = SNull,
     acRecvBuff = replicate RECV_BUFF_SIZE NUL\<rparr>"

definition client_register_ev :: "env \<Rightarrow> int \<Rightarrow> ('a clients_scheme, int) prog" where
  "client_register_ev E iNewfd =
     bindP (callP E (Malloc ''client'')) (\<lambda>m.
     if m = 0 then faultP NullDereference
     else
       bindP (getP fresh_addr) (\<lambda>a.
       seqP (modP (\<lambda>s. s\<lparr>fresh_addr := Suc a\<rparr>)) (
       bindP (callP E Random) (\<lambda>i.
       seqP (put_client a (new_client iNewfd i)) (
       bindP (sysP E (Getpeername iNewfd)) (\<lambda>peer.
       if sr_val peer = -1 then retP EXIT_FAILURE
       else
         seqP (put_client a ((new_client iNewfd i)\<lparr>sTheirAddr := sr_data peer\<rparr>)) (
         bindP (sysP E (Inet_ntop iNewfd)) (\<lambda>ip.
         if sr_val ip = 0 then retP EXIT_FAILURE
         else
           seqP (put_client a ((new_client iNewfd i)\<lparr>sTheirAddr := sr_data peer, cIP := sr_data ip\<rparr>)) (
           seqP (log_debug E [FL ''Added callback for client '', FD, FL '' from '', FS, FL '' '']
                   [AI i, AS (cstr (sr_data ip))]) (
           seqP (ev_timer_start E a) (
           seqP (ev_io_start E a)
             (retP EXIT_SUCCESS))))))))))))"

section \<open>What the operations do\<close>

lemma client_at_simps [simp]:
  "cheap s a = Some c \<Longrightarrow> client_at a s = Ret (sClient c) s"
  "cheap s a = None \<Longrightarrow> client_at a s = Fault UseAfterFree s"
  by (simp_all add: client_at_def)

lemma put_client_apply [simp]: "put_client a c s = Ret () (s\<lparr>cheap := (cheap s)(a \<mapsto> \<lparr>sClient = c\<rparr>)\<rparr>)"
  by (simp add: put_client_def)

lemmas ev_defs = ev_io_start_def ev_io_stop_def ev_timer_start_def ev_timer_again_def ev_timer_stop_def

lemma outside_log_clients [simp]:
  "outside_log (s\<lparr>cheap := h\<rparr>) = (outside_log s)\<lparr>cheap := h\<rparr>"
  "outside_log (s\<lparr>fresh_addr := n\<rparr>) = (outside_log s)\<lparr>fresh_addr := n\<rparr>"
  "outside_log (s\<lparr>io_on := x\<rparr>) = (outside_log s)\<lparr>io_on := x\<rparr>"
  "outside_log (s\<lparr>timer_on := y\<rparr>) = (outside_log s)\<lparr>timer_on := y\<rparr>"
  "cheap (outside_log s) = cheap s" "fresh_addr (outside_log s) = fresh_addr s"
  "io_on (outside_log s) = io_on s" "timer_on (outside_log s) = timer_on s"
  by (simp_all add: outside_log_def)

lemma after_clients:
  assumes "after s cs n t"
  shows "cheap t = cheap s" and "fresh_addr t = fresh_addr s" and "io_on t = io_on s"
    and "timer_on t = timer_on s"
  using arg_cong[OF assms[unfolded after_def], of cheap] arg_cong[OF assms[unfolded after_def], of fresh_addr]
    arg_cong[OF assms[unfolded after_def], of io_on] arg_cong[OF assms[unfolded after_def], of timer_on]
  by simp_all

lemma log_st_clients [simp]:
  "cheap (log_st E ty m s) = cheap s" "fresh_addr (log_st E ty m s) = fresh_addr s"
  "io_on (log_st E ty m s) = io_on s" "timer_on (log_st E ty m s) = timer_on s"
  by (simp_all add: log_st_def log_enqueue_def)

text \<open>
  Documented behaviour of the kernel: once a socket is shut down, reading it reaches the end
  of the data, within the rounds granted.
\<close>

definition shutdown_drains :: "env \<Rightarrow> bool" where
  "shutdown_drains E \<longleftrightarrow> (\<forall>h fd. \<exists>k < fuel E.
     sr_val (os E (h @ Shutdown fd # replicate k (Read fd 100)) (Read fd 100)) = 0)"

text \<open>The calls that take a client down; \<open>k\<close> reads find data or an error before the end.\<close>

definition down_calls :: "nat \<Rightarrow> int \<Rightarrow> nat \<Rightarrow> call list" where
  "down_calls a fd k = [Ev_timer_stop (int a), Ev_io_stop (int a)] @
     (if fd = 0 then [] else Shutdown fd # replicate (Suc k) (Read fd 100) @ [Close fd]) @
     [Free ''client'']"

definition client_down :: "nat \<Rightarrow> call list \<Rightarrow> 'a clients_scheme \<Rightarrow> 'a clients_scheme \<Rightarrow> bool" where
  "client_down a cs s t \<longleftrightarrow> outside_log t = (outside_log s)\<lparr>hist := hist s @ cs,
     cheap := (cheap s)(a := None), io_on := io_on s - {a}, timer_on := timer_on s - {a}\<rparr>"

lemma client_downD:
  assumes "client_down a cs s t"
  shows "hist t = hist s @ cs" and "cheap t = (cheap s)(a := None)" and "io_on t = io_on s - {a}"
    and "timer_on t = timer_on s - {a}" and "fresh_addr t = fresh_addr s" and "sds_live t = sds_live s"
proof -
  note h = assms[unfolded client_down_def]
  show "hist t = hist s @ cs" using arg_cong[OF h, of hist] by simp
  show "sds_live t = sds_live s" using arg_cong[OF h, of sds_live] by simp
  show "cheap t = (cheap s)(a := None)" using arg_cong[OF h, of cheap] by simp
  show "io_on t = io_on s - {a}" using arg_cong[OF h, of io_on] by simp
  show "timer_on t = timer_on s - {a}" using arg_cong[OF h, of timer_on] by simp
  show "fresh_addr t = fresh_addr s" using arg_cong[OF h, of fresh_addr] by simp
qed

lemma client_deregister_run:
  assumes "sds_doc E" and "shutdown_drains E" and "cheap s a = Some x"
    and "iSockfd (sClient x) = fd" and "acSendBuff (sClient x) = SNull"
  shows "\<exists>k t. client_deregister E a s = Ret EXIT_SUCCESS t \<and> client_down a (down_calls a fd k) s t"
proof -
  let ?h = "hist s @ [Ev_timer_stop (int a), Ev_io_stop (int a), Shutdown fd]"
  from assms(2)[unfolded shutdown_drains_def, rule_format,
      of "hist s @ [Ev_timer_stop (int a), Ev_io_stop (int a)]" fd]
  obtain k0 where "k0 < fuel E" "sr_val (os E (?h @ replicate k0 (Read fd 100)) (Read fd 100)) = 0" by auto
  then obtain k where k: "sr_val (os E (?h @ replicate k (Read fd 100)) (Read fd 100)) = 0" "k < fuel E"
    "\<And>j. j < k \<Longrightarrow> sr_val (os E (?h @ replicate j (Read fd 100)) (Read fd 100)) \<noteq> 0"
    using first_zero[of E ?h k0 "Read fd 100" "fuel E"] by blast
  have d: "\<exists>e. drain_loop E (fuel E) fd u = Ret () (u\<lparr>hist := hist u @ replicate (Suc k) (Read fd 100), errno := e\<rparr>)"
    if "hist u = ?h" for u :: "'a clients_scheme"
    unfolding drain_loop_def using that k by (intro until_zero_run) simp_all
  then obtain e where e: "\<And>u :: 'a clients_scheme. hist u = ?h \<Longrightarrow>
      drain_loop E (fuel E) fd u = Ret () (u\<lparr>hist := hist u @ replicate (Suc k) (Read fd 100), errno := e u\<rparr>)"
    by metis
  have "\<exists>t. client_deregister E a s = Ret EXIT_SUCCESS t \<and> client_down a (down_calls a fd k) s t"
    using assms(3-5)
    by (cases "fd = 0") (simp_all add: client_deregister_def ev_defs free_client_def
        log_calls[OF assms(1)] e client_down_def down_calls_def del: replicate_Suc)
  then show ?thesis by blast
qed

lemma client_timeout_run:
  assumes "sds_doc E" and "shutdown_drains E" and "cheap s a = Some x"
    and "iSockfd (sClient x) = fd" and "acSendBuff (sClient x) = SNull"
  shows "\<exists>k t. client_callback_timeout E a s = Ret () t \<and> client_down a (down_calls a fd k) s t"
proof -
  let ?s = "log_st E eINFO (rendered [FL ''Client timeout '', FD, FL ''.''] [AI (iId (sClient x))]) s"
  have "cheap ?s a = Some x" using assms(3) by simp
  from client_deregister_run[OF assms(1,2) this assms(4,5)] assms(1,3) show ?thesis
    by (auto simp: client_callback_timeout_def log_calls client_down_def)
qed

lemma cstr_before_nul: "cstr (d @ NUL # r) = cstr d"
  by (induction d) (simp_all add: cstr_def)

lemma cstr_received:
  assumes "length d < RECV_BUFF_SIZE"
  shows "NUL \<in> set (recv_into d (replicate RECV_BUFF_SIZE NUL))"
    and "cstr (recv_into d (replicate RECV_BUFF_SIZE NUL)) = cstr d"
proof -
  from assms obtain n where n: "RECV_BUFF_SIZE - length d = Suc n" by (metis Suc_diff_Suc)
  then have "recv_into d (replicate RECV_BUFF_SIZE NUL) = d @ NUL # replicate n NUL"
    using assms by (simp add: recv_into_def)
  then show "NUL \<in> set (recv_into d (replicate RECV_BUFF_SIZE NUL))"
    and "cstr (recv_into d (replicate RECV_BUFF_SIZE NUL)) = cstr d"
    by (simp_all add: cstr_before_nul)
qed

text \<open>The calls of serving one request: receive, answer, take the client down.\<close>

definition serve_calls ::
  "nat \<Rightarrow> int \<Rightarrow> (call list \<Rightarrow> string \<Rightarrow> int) \<Rightarrow> call list \<Rightarrow> (string \<rightharpoonup> string) \<Rightarrow> string \<Rightarrow> nat \<Rightarrow> call list" where
  "serve_calls a fd ffd h fs str k = [Recv fd RECV_BUFF_SIZE, Ev_timer_again (int a)] @
     http_calls ffd (h @ [Recv fd RECV_BUFF_SIZE, Ev_timer_again (int a)]) fs str @ [Send fd (http_answer fs str)] @ down_calls a fd k"

lemma client_serve_enter:
  assumes "sds_doc E" and "cheap s a = Some x" and "iSockfd (sClient x) = fd"
    and "acRecvBuff (sClient x) = replicate RECV_BUFF_SIZE NUL"
    and "sr_val (os E (hist s) (Recv fd RECV_BUFF_SIZE)) = int (length d)"
    and "sr_data (os E (hist s) (Recv fd RECV_BUFF_SIZE)) = d"
    and "d \<noteq> []" and "length d < RECV_BUFF_SIZE"
    and "c = (sClient x)\<lparr>acRecvBuff := recv_into d (replicate RECV_BUFF_SIZE NUL)\<rparr>"
    and "h = hist s @ [Recv fd RECV_BUFF_SIZE]"
  shows "\<exists>u. outside_log u = (outside_log s)\<lparr>hist := h @ [Ev_timer_again (int a)],
      cheap := (cheap s)(a \<mapsto> \<lparr>sClient = c\<rparr>), timer_on := insert a (timer_on s)\<rparr> \<and>
    client_callback_serve E a s = bindP (http_handle_client_request E c)
      (\<lambda>(_, c). seqP (put_client a c) (voidP (client_deregister E a))) u"
proof (intro exI conjI)
  have c: "NUL \<in> set (acRecvBuff c)" "cstr (acRecvBuff c) = cstr d"
    using cstr_received[OF assms(8)] by (simp_all add: assms(9))
  let ?u = "log_st E eDEBUG (rendered [FL ''Received data '', FS] [AS (cstr d)])
    (s\<lparr>hist := h, errno := errno_after E (hist s) (Recv fd RECV_BUFF_SIZE) (errno s),
      cheap := (cheap s)(a \<mapsto> \<lparr>sClient = c\<rparr>)\<rparr>)"
  let ?v = "?u\<lparr>hist := h @ [Ev_timer_again (int a)], errno := errno_after E h (Ev_timer_again (int a)) (errno ?u),
    timer_on := insert a (timer_on s)\<rparr>"
  show "outside_log ?v = (outside_log s)\<lparr>hist := h @ [Ev_timer_again (int a)],
    cheap := (cheap s)(a \<mapsto> \<lparr>sClient = c\<rparr>), timer_on := insert a (timer_on s)\<rparr>" by simp
  show "client_callback_serve E a s = bindP (http_handle_client_request E c)
      (\<lambda>(_, c). seqP (put_client a c) (voidP (client_deregister E a))) ?v"
    using assms(2-8,10) c
    by (simp add: client_callback_serve_def client_request_def log_debug_array_def array_cstr_def log_calls[OF assms(1)]
        ev_defs Let_def flip: assms(9))
qed

lemma client_serve_run:
  assumes "sds_doc E" and "shutdown_drains E" and "file_system E ffd fs" and "\<And>m. \<not> sds_moves E [] m"
    and "cheap s a = Some x" and "iSockfd (sClient x) = fd" and "acSendBuff (sClient x) = SNull"
    and "acRecvBuff (sClient x) = replicate RECV_BUFF_SIZE NUL"
    and "sr_val (os E (hist s) (Recv fd RECV_BUFF_SIZE)) = int (length d)"
    and "sr_data (os E (hist s) (Recv fd RECV_BUFF_SIZE)) = d"
    and "d \<noteq> []" and "length d < RECV_BUFF_SIZE"
  shows "\<exists>k t. client_callback_serve E a s = Ret () t \<and>
    client_down a (serve_calls a fd ffd (hist s) fs (cstr d) k) s t"
proof -
  define c where "c = (sClient x)\<lparr>acRecvBuff := recv_into d (replicate RECV_BUFF_SIZE NUL)\<rparr>"
  have c: "NUL \<in> set (acRecvBuff c)" "cstr (acRecvBuff c) = cstr d" "iSockfd c = fd"
    using cstr_received[OF assms(12)] assms(6) by (simp_all add: c_def)
  define h where "h = hist s @ [Recv fd RECV_BUFF_SIZE]"
  from client_serve_enter[OF assms(1,5,6,8-12) c_def h_def] obtain u where
    u: "outside_log u = (outside_log s)\<lparr>hist := h @ [Ev_timer_again (int a)],
      cheap := (cheap s)(a \<mapsto> \<lparr>sClient = c\<rparr>), timer_on := insert a (timer_on s)\<rparr>"
    "client_callback_serve E a s = bindP (http_handle_client_request E c)
        (\<lambda>(_, c). seqP (put_client a c) (voidP (client_deregister E a))) u" by blast
  from http_handle_run[OF assms(1,3) c(1) assms(4), of u] obtain v where
    v: "http_handle_client_request E c u = Ret (EXIT_SUCCESS, c\<lparr>acSendBuff := SNull\<rparr>) v"
    "after u (http_calls ffd (hist u) fs (cstr d) @ [Send fd (http_answer fs (cstr d))]) 0 v"
    unfolding c(2,3) by blast
  let ?c = "c\<lparr>acSendBuff := SNull\<rparr>"
  let ?v = "v\<lparr>cheap := (cheap v)(a \<mapsto> \<lparr>sClient = ?c\<rparr>)\<rparr>"
  from client_deregister_run[OF assms(1,2), of ?v a "\<lparr>sClient = ?c\<rparr>" fd] c(3) obtain k t where
    t: "client_deregister E a ?v = Ret EXIT_SUCCESS t" "client_down a (down_calls a fd k) ?v t" by auto
  have "client_callback_serve E a s = Ret () t" using u(2) v(1) t(1) by simp
  moreover have "client_down a (serve_calls a fd ffd (hist s) fs (cstr d) k) s t"
  proof -
    have "hist u = h @ [Ev_timer_again (int a)]" "cheap u = (cheap s)(a \<mapsto> \<lparr>sClient = c\<rparr>)"
      "io_on u = io_on s" "timer_on u = insert a (timer_on s)"
      using arg_cong[OF u(1), of hist] arg_cong[OF u(1), of cheap] arg_cong[OF u(1), of io_on]
        arg_cong[OF u(1), of timer_on] by simp_all
    with u(1) v(2)[unfolded after_0] t(2) after_clients[OF v(2)] after_fields(1)[OF v(2)] show ?thesis
      by (simp add: client_down_def serve_calls_def h_def insert_Diff_if)
  qed
  ultimately show ?thesis by blast
qed

section \<open>The event loop of a worker\<close>

text \<open>
  libev calls back for started watchers only, one callback at a time: a step of the loop is a
  new descriptor arriving, a client becoming readable, or a timer running out. Which of these
  happens, and what the kernel answers, is not restricted.
\<close>

inductive ev_step :: "env \<Rightarrow> 'a clients_scheme \<Rightarrow> 'a clients_scheme \<Rightarrow> bool" for E :: env where
  arrive: "client_register_ev E fd s = Ret r t \<Longrightarrow> ev_step E s t"
| readable: "a \<in> io_on s \<Longrightarrow> client_callback_serve E a s = Ret () t \<Longrightarrow> ev_step E s t"
| expired: "a \<in> timer_on s \<Longrightarrow> client_callback_timeout E a s = Ret () t \<Longrightarrow> ev_step E s t"

definition no_clients :: "'a clients_scheme \<Rightarrow> bool" where
  "no_clients s \<longleftrightarrow> cheap s = Map.empty \<and> io_on s = {} \<and> timer_on s = {}"

text \<open>A client between two callbacks: nothing in the send buffer, nothing received yet.\<close>

definition idle_client :: "tsClientEv \<Rightarrow> bool" where
  "idle_client x \<longleftrightarrow> acSendBuff (sClient x) = SNull \<and>
     acRecvBuff (sClient x) = replicate RECV_BUFF_SIZE NUL"

definition clients_ok :: "'a clients_scheme \<Rightarrow> bool" where
  "clients_ok s \<longleftrightarrow> timer_on s = io_on s \<and> io_on s \<subseteq> dom (cheap s) \<and>
     (\<forall>a x. cheap s a = Some x \<longrightarrow> idle_client x \<and> a < fresh_addr s)"

text \<open>
  Two views of the state that are read off the program text: everything about the clients
  but the one at \<open>a\<close>, and that nothing is left of the one at \<open>a\<close>.
\<close>

definition others :: "nat \<Rightarrow> 'a clients_scheme \<Rightarrow> (nat \<rightharpoonup> tsClientEv) \<times> nat \<times> nat set \<times> nat set" where
  "others a s = ((cheap s)(a := None), fresh_addr s, io_on s - {a}, timer_on s - {a})"

lemma keeps_more_views:
  fixes m :: "('a clients_scheme, 'v) prog"
  assumes "keeps logger.more m"
  shows "keeps cheap m" and "keeps fresh_addr m" and "keeps io_on m" and "keeps timer_on m"
    and "keeps (others a) m" and "keeps (\<lambda>s. cheap s a = None) m"
    and "keeps (\<lambda>s. a \<notin> io_on s) m" and "keeps (\<lambda>s. a \<notin> timer_on s) m"
proof -
  have f: "cheap t = cheap s \<and> fresh_addr t = fresh_addr s \<and> io_on t = io_on s \<and> timer_on t = timer_on s"
    if "logger.more t = logger.more s" for s t :: "'a clients_scheme"
    by (subst (1 2 3 4) more_eq_upd[OF that]) simp
  have "cheap (final (m s)) = cheap s \<and> fresh_addr (final (m s)) = fresh_addr s \<and>
      io_on (final (m s)) = io_on s \<and> timer_on (final (m s)) = timer_on s" for s
    using assms by (intro f) (simp add: keeps_def)
  then show "keeps cheap m" and "keeps fresh_addr m" and "keeps io_on m" and "keeps timer_on m"
    and "keeps (others a) m" and "keeps (\<lambda>s. cheap s a = None) m"
    and "keeps (\<lambda>s. a \<notin> io_on s) m" and "keeps (\<lambda>s. a \<notin> timer_on s) m"
    by (simp_all add: keeps_def others_def)
qed

lemma keeps_more_drain [frame]: "keeps logger.more (drain_loop E n fd)"
  unfolding drain_loop_def by (rule keeps_more_until_zero)

lemma keeps_more_log_array [frame]: "keeps logger.more (log_debug_array E f buf)"
  unfolding log_debug_array_def by (intro keeps_rules frame)

lemma keeps_more_client_at [frame]: "keeps logger.more (client_at a)"
  unfolding client_at_def by (intro keeps_rules)

lemma keeps_others [frame]:
  "keeps (others a) (ev_io_stop E a)" "keeps (others a) (ev_timer_stop E a)"
  "keeps (others a) (ev_timer_again E a)" "keeps (others a) (put_client a c)"
  "keeps (others a) (free_client E a)"
  by (auto simp: keeps_def others_def ev_defs put_client_def free_client_def)

lemma keeps_watchers [frame]:
  "keeps (\<lambda>s. a \<notin> timer_on s) (ev_io_stop E a)" "keeps (\<lambda>s. a \<notin> timer_on s) (put_client a c)"
  "keeps (\<lambda>s. a \<notin> timer_on s) (free_client E a)"
  "keeps (\<lambda>s. a \<notin> io_on s) (put_client a c)" "keeps (\<lambda>s. a \<notin> io_on s) (free_client E a)"
  by (auto simp: keeps_def ev_defs put_client_def free_client_def)

lemma ensures_gone:
  "ensures (\<lambda>s. a \<notin> timer_on s) (ev_timer_stop E a)" "ensures (\<lambda>s. a \<notin> io_on s) (ev_io_stop E a)"
  "ensures (\<lambda>s. cheap s a = None) (free_client E a)"
  by (auto simp: ensures_def ev_defs free_client_def)

lemma client_deregister_frame: "keeps (others a) (client_deregister E a)"
  unfolding client_deregister_def
  by (intro keeps_rules keeps_others keeps_more_views(5) frame)

lemma client_deregister_gone:
  "ensures (\<lambda>s. a \<notin> timer_on s) (client_deregister E a)"
  "ensures (\<lambda>s. a \<notin> io_on s) (client_deregister E a)"
  "ensures (\<lambda>s. cheap s a = None) (client_deregister E a)"
proof -
  show "ensures (\<lambda>s. a \<notin> timer_on s) (client_deregister E a)"
    unfolding client_deregister_def
    by (intro ensures_later ensures_first_seq[OF ensures_gone(1)])
      (intro keeps_rules keeps_watchers keeps_more_views(8) frame)
  show "ensures (\<lambda>s. a \<notin> io_on s) (client_deregister E a)"
    unfolding client_deregister_def
    by (rule ensures_later, rule ensures_later_seq, rule ensures_first_seq[OF ensures_gone(2)])
      (intro keeps_rules keeps_watchers keeps_more_views(7) frame)
  show "ensures (\<lambda>s. cheap s a = None) (client_deregister E a)"
    unfolding client_deregister_def
    by (rule ensures_later, rule ensures_later_seq, rule ensures_later_seq, rule ensures_later_seq,
        rule ensures_later, rule ensures_later_seq, rule ensures_first_seq[OF ensures_gone(3)])
      (intro keeps_rules keeps_more_views(6) frame)
qed

text \<open>The client at \<open>a\<close> is gone and the others are as they were.\<close>

definition dropped :: "nat \<Rightarrow> 'a clients_scheme \<Rightarrow> 'a clients_scheme \<Rightarrow> bool" where
  "dropped a s t \<longleftrightarrow> cheap t = (cheap s)(a := None) \<and> fresh_addr t = fresh_addr s \<and>
     io_on t = io_on s - {a} \<and> timer_on t = timer_on s - {a}"

lemma droppedI:
  "others a t = others a s \<Longrightarrow> cheap t a = None \<Longrightarrow> a \<notin> io_on t \<Longrightarrow> a \<notin> timer_on t \<Longrightarrow> dropped a s t"
  unfolding dropped_def others_def by (auto simp: fun_upd_idem)

lemma dropped_ok: "clients_ok s \<Longrightarrow> dropped a s t \<Longrightarrow> clients_ok t"
  by (auto simp: clients_ok_def dropped_def split: if_splits)

lemma timeout_dropped:
  assumes "client_callback_timeout E a s = Ret () t"
  shows "dropped a s t"
proof -
  have "keeps (others a) (client_callback_timeout E a)"
    unfolding client_callback_timeout_def
    by (intro keeps_rules client_deregister_frame keeps_more_views(5) frame)
  moreover have "ensures Q (client_callback_timeout E a)" if "ensures Q (client_deregister E a)" for Q
    unfolding client_callback_timeout_def voidP_def
    by (intro ensures_later ensures_later_seq ensures_first_seq[OF that] keeps_trivial)
  ultimately show ?thesis using assms client_deregister_gone
    by (blast intro: droppedI dest: keepsD ensuresD)
qed

lemma serve_branches_dropped:
  shows "client_disconnect E a c s = Ret () t \<Longrightarrow> dropped a s t"
    and "client_request E a c s = Ret () t \<Longrightarrow> dropped a s t"
proof -
  have k: "keeps (others a) (client_disconnect E a c)" "keeps (others a) (client_request E a c)"
    unfolding client_disconnect_def client_request_def
    by (intro keeps_rules keeps_others client_deregister_frame keeps_more_views(5) frame)+
  have e: "ensures Q (client_disconnect E a c)" "ensures Q (client_request E a c)"
    if "ensures Q (client_deregister E a)" for Q
  proof -
    have v: "ensures Q (voidP (client_deregister E a))"
      unfolding voidP_def by (intro ensures_first_seq[OF that] keeps_trivial)
    then show "ensures Q (client_disconnect E a c)"
      unfolding client_disconnect_def by (rule ensures_later_seq)
    from v show "ensures Q (client_request E a c)"
      unfolding client_request_def
      by (intro ensures_later_seq ensures_later) (auto intro: ensures_later_seq split: prod.split)
  qed
  show "client_disconnect E a c s = Ret () t \<Longrightarrow> dropped a s t"
    and "client_request E a c s = Ret () t \<Longrightarrow> dropped a s t"
    using k e client_deregister_gone by (blast intro: droppedI dest: keepsD ensuresD)+
qed

lemma serve_dropped:
  assumes "client_callback_serve E a s = Ret () t"
  shows "dropped a s t \<or> cheap t = cheap s \<and> fresh_addr t = fresh_addr s \<and> io_on t = io_on s \<and> timer_on t = timer_on s"
proof -
  obtain x where x: "cheap s a = Some x"
    using assms by (cases "cheap s a") (simp_all add: client_callback_serve_def)
  let ?r = "os E (hist s) (Recv (iSockfd (sClient x)) RECV_BUFF_SIZE)"
  consider "sr_val ?r < 0" | "sr_val ?r = 0" | "sr_val ?r > 0" by linarith
  then show ?thesis
  proof cases
    case 1
    let ?m = "log_error E [FL ''Receive error on client '', FD, FL ''.''] [AI (iId (sClient x))]
      :: ('a clients_scheme, unit) prog"
    from 1 assms x obtain u where "?m u = Ret () t" "cheap u = cheap s" "fresh_addr u = fresh_addr s"
      "io_on u = io_on s" "timer_on u = timer_on s" by (force simp: client_callback_serve_def)
    then show ?thesis
      using keeps_more_views(1-4)[OF keeps_more_log(4), THEN keepsD, of _ _ _ u "()" t] by metis
  next
    case 2
    with assms x serve_branches_dropped(1) show ?thesis
      by (fastforce simp: client_callback_serve_def dropped_def)
  next
    case 3
    with assms x obtain c u where u: "client_request E a c u = Ret () t"
      "(cheap u)(a := None) = (cheap s)(a := None)" "fresh_addr u = fresh_addr s"
      "io_on u = io_on s" "timer_on u = timer_on s"
      by (force simp: client_callback_serve_def Let_def)
    from serve_branches_dropped(2)[OF u(1)] u(2-) show ?thesis by (simp add: dropped_def)
  qed
qed

lemma register_ok:
  assumes "client_register_ev E fd s = Ret r t" and "clients_ok s"
  shows "clients_ok t"
proof -
  have f: "cheap v = cheap u" "fresh_addr v = fresh_addr u" "io_on v = io_on u" "timer_on v = timer_on u"
    if "log_debug E f as u = Ret r v" for f as r and u v :: "'a clients_scheme"
    using keeps_more_views(1-4)[OF keeps_more_log(1), THEN keepsD, OF that] by auto
  have ok: "timer_on s = io_on s" "io_on s \<subseteq> dom (cheap s)"
    "\<And>a x. cheap s a = Some x \<Longrightarrow> idle_client x" "\<And>a x. cheap s a = Some x \<Longrightarrow> a < Suc (fresh_addr s)"
    using assms(2) by (auto simp: clients_ok_def less_Suc_eq)
  have new: "idle_client \<lparr>sClient = (new_client fd i)\<lparr>sTheirAddr := p, cIP := q\<rparr>\<rparr>"
    "idle_client \<lparr>sClient = (new_client fd i)\<lparr>sTheirAddr := p\<rparr>\<rparr>"
    "idle_client \<lparr>sClient = new_client fd i\<rparr>" for i p q
    by (simp_all add: idle_client_def new_client_def)
  show ?thesis
    unfolding clients_ok_def using assms(1) ok
    by (auto simp: client_register_ev_def ev_defs f new split: if_split_asm outcome.split_asm)
qed

interpretation worker_loop: inductive_invariant "\<lambda>s. no_clients s" "ev_step E" clients_ok for E
proof
  fix s :: "'a clients_scheme"
  show "no_clients s \<Longrightarrow> clients_ok s" by (simp add: no_clients_def clients_ok_def)
next
  fix s t :: "'a clients_scheme"
  assume ok: "clients_ok s" and "ev_step E s t"
  from this(2) show "clients_ok t"
  proof (cases rule: ev_step.cases)
    case (arrive fd r)
    then show ?thesis using ok by (rule register_ok)
  next
    case (readable a)
    from serve_dropped[OF readable(2)] show ?thesis
    proof
      assume "dropped a s t"
      with ok show ?thesis by (rule dropped_ok)
    qed (use ok in \<open>simp add: clients_ok_def\<close>)
  next
    case (expired a)
    from dropped_ok[OF ok timeout_dropped[OF expired(2)]] show ?thesis .
  qed
qed

section \<open>Claims\<close>

definition demo_clients :: "(nat \<rightharpoonup> tsClientEv) \<Rightarrow> clients" where
  "demo_clients h = \<lparr>hist = [], errno = 0, pid = 1, sds_live = 0, gpcLogfile = SNull,
     sCurrLogSettings = default_log_settings, Head = [], LogfileFd = False, iDataInQueueCount = 0,
     iIsInitDone = False, iDoForceFlush = False, iShuttingDown = False, bTerminateProg = False,
     LoggerThread = None, logfile = [], terminal = [], lops = 0, stamps = 0, naps = 0,
     sCurrSSettings = zero_settings, cheap = h, fresh_addr = 5, io_on = dom h, timer_on = dom h\<rparr>"

definition demo_one :: clients where
  "demo_one = demo_clients [4 \<mapsto> \<lparr>sClient = new_client 9 1\<rparr>]"

text \<open>An environment in which shut down sockets drain at once and every socket call succeeds.\<close>

definition demo_net :: "string \<Rightarrow> env" where
  "demo_net line = demo_env\<lparr>os := \<lambda>h c. (case c of
       Recv fd n \<Rightarrow> \<lparr>sr_val = int (length line), sr_errno = 0, sr_data = line\<rparr>
     | Malloc t \<Rightarrow> \<lparr>sr_val = 1, sr_errno = 0, sr_data = []\<rparr>
     | Inet_ntop fd \<Rightarrow> \<lparr>sr_val = 1, sr_errno = 0, sr_data = ''::1''\<rparr>
     | Read fd n \<Rightarrow> (if n = 100 then \<lparr>sr_val = 0, sr_errno = 0, sr_data = []\<rparr> else demo_os h c)
     | _ \<Rightarrow> demo_os h c)\<rparr>"

lemma demo_net_os [simp]:
  "sr_val (os (demo_net line) h (Recv fd n)) = int (length line)"
  "sr_data (os (demo_net line) h (Recv fd n)) = line"
  "sr_val (os (demo_net line) h (Malloc x)) = 1"
  "sr_val (os (demo_net line) h (Inet_ntop fd)) = 1"
  "sr_val (os (demo_net line) h (Getpeername fd)) = 0"
  "sr_val (os (demo_net line) h (Read fd 100)) = 0"
  by (simp_all add: demo_net_def demo_os_def)

lemma demo_fs_size: "demo_fs p = Some c \<Longrightarrow> length c \<noteq> 100"
  by (auto simp: demo_fs_def split: if_splits)

lemma demo_net_ok:
  "sds_doc (demo_net line)" "shutdown_drains (demo_net line)" "file_system (demo_net line) (\<lambda>_ _. 7) demo_fs"
  "\<not> sds_moves (demo_net line) x m"
proof -
  show "sds_doc (demo_net line)" "\<not> sds_moves (demo_net line) x m"
    using demo_env_ok by (simp_all add: demo_net_def sds_doc_def)
  have "0 < fuel (demo_net line)" by (simp add: demo_net_def demo_env_def)
  then show "shutdown_drains (demo_net line)" unfolding shutdown_drains_def by auto
  show "file_system (demo_net line) (\<lambda>_ _. 7) demo_fs"
    using demo_env_ok(2) demo_fs_size unfolding file_system_def by (auto simp: demo_net_def demo_env_def)
qed

text \<open>
  C7. A worker never calls back into a client that is gone: in every state its event loop can
  reach, whatever arrives in whatever order and whatever the kernel answers, each client with a
  started watcher is still allocated, has both watchers started, owns no send buffer and has an
  all-zero receive buffer.
\<close>

theorem client_callbacks_safe:
  fixes s :: "'a clients_scheme"
  assumes "reach no_clients (ev_step E) s" and "a \<in> io_on s \<union> timer_on s"
  shows "\<exists>c. client_at a s = Ret c s \<and> a \<in> io_on s \<and> a \<in> timer_on s \<and> acSendBuff c = SNull \<and>
    acRecvBuff c = replicate RECV_BUFF_SIZE NUL"
proof -
  from worker_loop.inv_reach[OF assms(1)] have "clients_ok s" .
  with assms(2) show ?thesis by (auto simp: clients_ok_def idle_client_def)
qed

theorem client_callbacks_safe_witness:
  "\<exists>t. ev_step (demo_net []) (demo_clients Map.empty) t \<and> 5 \<in> io_on t \<and>
    (\<exists>c. client_at 5 t = Ret c t \<and> acSendBuff c = SNull)"
proof -
  obtain t where t: "client_register_ev (demo_net []) 9 (demo_clients Map.empty) = Ret 0 t" "5 \<in> io_on t"
    by (simp add: client_register_ev_def ev_defs log_calls[OF demo_net_ok(1)] demo_clients_def)
  have "reach no_clients (ev_step (demo_net [])) (demo_clients Map.empty)"
    by (rule reach.start) (simp add: no_clients_def demo_clients_def)
  with t(1) have "reach no_clients (ev_step (demo_net [])) t"
    by (blast intro: reach.move ev_step.arrive)
  from client_callbacks_safe[OF this, of 5] t show ?thesis by (blast intro: ev_step.arrive)
qed

text \<open>
  C18. One request per connection, answered and then closed: when bytes arrive (fewer than
  \<^verbatim>\<open>RECV_BUFF_SIZE\<close>) the callback sends exactly the answer the file system calls for, then
  stops both watchers, shuts the socket down, reads it empty, closes it and frees the client; it
  makes no other calls and leaves every other client alone.
\<close>

theorem client_served_and_closed:
  assumes "sds_doc E" and "shutdown_drains E" and "file_system E ffd fs" and "\<And>m. \<not> sds_moves E [] m"
    and "cheap s a = Some x" and "idle_client x" and "iSockfd (sClient x) = fd"
    and "sr_val (os E (hist s) (Recv fd RECV_BUFF_SIZE)) = int (length d)"
    and "sr_data (os E (hist s) (Recv fd RECV_BUFF_SIZE)) = d"
    and "d \<noteq> []" and "length d < RECV_BUFF_SIZE"
  shows "\<exists>k t. client_callback_serve E a s = Ret () t \<and>
    client_down a (serve_calls a fd ffd (hist s) fs (cstr d) k) s t"
  using client_serve_run[OF assms(1-5,7)] assms by (simp add: idle_client_def)

theorem client_served_and_closed_witness:
  "\<exists>k t. client_callback_serve (demo_net ''PUT'') 4 demo_one = Ret () t \<and>
    client_down 4 (serve_calls 4 9 (\<lambda>_ _. 7) [] demo_fs ''PUT'' k) demo_one t"
proof -
  have "cheap demo_one 4 = Some \<lparr>sClient = new_client 9 1\<rparr>" by (simp add: demo_one_def demo_clients_def)
  moreover have "cstr ''PUT'' = ''PUT''" by simp
  ultimately show ?thesis
    using client_served_and_closed[OF demo_net_ok, of demo_one 4 "\<lparr>sClient = new_client 9 1\<rparr>" 9 "''PUT''" "''PUT''"]
    by (simp add: demo_one_def demo_clients_def idle_client_def new_client_def RECV_BUFF_SIZE_def)
qed

text \<open>
  C40. The loop that empties the socket takes an error for data: when \<^verbatim>\<open>read\<close> keeps
  failing, taking the client down never ends, however long it is given.
\<close>

theorem client_drain_never_ends:
  assumes "sds_doc E" and "cheap s a = Some x" and "iSockfd (sClient x) = fd" and "fd \<noteq> 0"
    and "\<And>h. sr_val (os E h (Read fd 100)) = -1"
  shows "\<exists>t. client_deregister (E\<lparr>fuel := n\<rparr>) a s = Stuck t"
proof -
  have d: "\<exists>t. drain_loop (E\<lparr>fuel := n\<rparr>) m fd u = Stuck t" for m and u :: "'a clients_scheme"
    unfolding drain_loop_def using assms(5) by (intro until_zero_never) simp
  then obtain f where f: "\<And>m (u :: 'a clients_scheme). drain_loop (E\<lparr>fuel := n\<rparr>) m fd u = Stuck (f m u)"
    by metis
  show ?thesis using assms(1-4) by (simp add: client_deregister_def ev_defs f)
qed

theorem client_drain_never_ends_witness:
  "\<exists>t. client_deregister (calm_env\<lparr>os := \<lambda>h c. \<lparr>sr_val = -1, sr_errno = 5, sr_data = []\<rparr>, fuel := 1000\<rparr>) 4 demo_one =
    Stuck t"
  using client_drain_never_ends[of "calm_env\<lparr>os := \<lambda>h c. \<lparr>sr_val = -1, sr_errno = 5, sr_data = []\<rparr>\<rparr>"
      demo_one 4 "\<lparr>sClient = new_client 9 1\<rparr>" 9 1000]
  by (simp add: demo_one_def demo_clients_def new_client_def sds_doc_def calm_env_def documented_sds_def)

text \<open>
  C29. Registering a client, by what the calls answer: if the peer's address can be had and
  written out, the call succeeds, with a fresh structure that holds descriptor, number and address,
  and both watchers started on it; if \<^verbatim>\<open>getpeername\<close> or then \<^verbatim>\<open>inet_ntop\<close> fails, it
  fails at that call, no watcher runs, the structure stays allocated and the descriptor open.
  In every case these are all the calls it makes.
\<close>

theorem client_register_outcomes:
  assumes "sds_doc E" and "sr_val (os E (hist s) (Malloc ''client'')) \<noteq> 0"
  shows "let h = hist s @ [Malloc ''client'', Random]; a = fresh_addr s in
    \<exists>t x. cheap t = (cheap s)(a \<mapsto> x) \<and> fresh_addr t = Suc a \<and> iSockfd (sClient x) = fd \<and>
    iId (sClient x) = sr_val (os E (hist s @ [Malloc ''client'']) Random) \<and>
    (if sr_val (os E h (Getpeername fd)) = -1 then
       client_register_ev E fd s = Ret EXIT_FAILURE t \<and> hist t = h @ [Getpeername fd] \<and>
       io_on t = io_on s \<and> timer_on t = timer_on s
     else if sr_val (os E (h @ [Getpeername fd]) (Inet_ntop fd)) = 0 then
       client_register_ev E fd s = Ret EXIT_FAILURE t \<and> hist t = h @ [Getpeername fd, Inet_ntop fd] \<and>
       io_on t = io_on s \<and> timer_on t = timer_on s
     else
       client_register_ev E fd s = Ret EXIT_SUCCESS t \<and> idle_client x \<and>
       hist t = h @ [Getpeername fd, Inet_ntop fd, Ev_timer_start (int a), Ev_io_start (int a)] \<and>
       sTheirAddr (sClient x) = sr_data (os E h (Getpeername fd)) \<and>
       cIP (sClient x) = sr_data (os E (h @ [Getpeername fd]) (Inet_ntop fd)) \<and>
       io_on t = insert a (io_on s) \<and> timer_on t = insert a (timer_on s))"
proof -
  have inj: "(cheap s)(a \<mapsto> x) = (cheap s)(a \<mapsto> y) \<longleftrightarrow> x = y" for a x y by (auto dest: map_upd_eqD1)
  let ?h = "hist s @ [Malloc ''client'', Random]"
  consider "sr_val (os E ?h (Getpeername fd)) = -1"
    | "sr_val (os E ?h (Getpeername fd)) \<noteq> -1" "sr_val (os E (?h @ [Getpeername fd]) (Inet_ntop fd)) = 0"
    | "sr_val (os E ?h (Getpeername fd)) \<noteq> -1" "sr_val (os E (?h @ [Getpeername fd]) (Inet_ntop fd)) \<noteq> 0"
    by blast
  then show ?thesis using assms(2)
    by cases (simp_all add: client_register_ev_def ev_defs log_calls[OF assms(1)] idle_client_def new_client_def inj Let_def)
qed

text \<open>A network in which a peer has gone.\<close>

definition demo_gone :: env where
  "demo_gone = (demo_net [])\<lparr>os := \<lambda>h c. if c = Getpeername 9 then \<lparr>sr_val = -1, sr_errno = 107, sr_data = []\<rparr>
     else os (demo_net []) h c\<rparr>"

theorem client_register_outcomes_witness:
  "(\<exists>t. client_register_ev (demo_net []) 9 demo_one = Ret EXIT_SUCCESS t \<and> 5 \<in> io_on t \<and> 5 \<in> timer_on t) \<and>
   (\<exists>t. client_register_ev demo_gone 9 demo_one = Ret EXIT_FAILURE t \<and> 5 \<in> dom (cheap t) \<and> 5 \<notin> io_on t)"
proof -
  have d: "sds_doc demo_gone" using demo_net_ok(1)[of "[]"] by (simp add: demo_gone_def sds_doc_def)
  have g: "sr_val (os demo_gone h (Malloc ''client'')) \<noteq> 0" "sr_val (os demo_gone h (Getpeername 9)) = -1" for h
    by (simp_all add: demo_gone_def)
  show ?thesis
    using client_register_outcomes[OF demo_net_ok(1), of "[]" demo_one 9] client_register_outcomes[OF d g(1), of demo_one 9] g(2)
    by (auto simp: demo_one_def demo_clients_def Let_def)
qed

end
