(* ===== verification/Worker.thy ===== *)
theory Worker
  imports Client
begin

text \<open>
  The table of workers and what the master and a worker do with it,
  \<^verbatim>\<open>src/src/cew_worker.c\<close>: passing descriptors over the sockets between them, setting
  those sockets up, routing a client to a worker, and cleaning up. What runs inside a worker, and
  starting the workers, is in \<^verbatim>\<open>Worker_Process\<close>, because it needs the exit functions.
\<close>

section \<open>Data\<close>

definition WORKER_MAX_WORKERS :: nat where "WORKER_MAX_WORKERS = 64"
abbreviation (input) WORKER_EXIT_SUCCESS :: int where "WORKER_EXIT_SUCCESS \<equiv> 0"
abbreviation (input) WORKER_EXIT_FAILURE :: int where "WORKER_EXIT_FAILURE \<equiv> 1"
definition WORKER_IPC_FOLDER :: string where "WORKER_IPC_FOLDER = ''/run/cewserver''"
definition WORKER_IPC_FILE :: string where "WORKER_IPC_FILE = ''cew_worker''"

record tsWorkerStruct =
  uiId :: "32 word"
  Pid :: int
  iMasterIPCAccept :: int
  iMasterIPCfd :: int
  iWorkerIPCfd :: int
  iMe :: int
  IPCFile :: sds

definition zero_worker :: tsWorkerStruct where
  "zero_worker = \<lparr>uiId = 0, Pid = 0, iMasterIPCAccept = 0, iMasterIPCfd = 0, iWorkerIPCfd = 0,
     iMe = 0, IPCFile = SNull\<rparr>"

text \<open>
  Each slot is NULL or points to a structure of its own, so that a pointer to a worker is the
  index of its slot.
\<close>

record tsWorkerAdmin =
  uiCurrWorkers :: "32 word"
  psWorker :: "tsWorkerStruct option list"

definition zero_admin :: tsWorkerAdmin where
  "zero_admin = \<lparr>uiCurrWorkers = 0, psWorker = replicate WORKER_MAX_WORKERS None\<rparr>"

text \<open>The pointer to the event loop: NULL, a loop, or a loop that was destroyed.\<close>

datatype evloop = LNull | LLive | LDestroyed

record worker = clients +
  gWorkerAdmin :: tsWorkerAdmin
  NextWorker :: "32 word"
  psWorkerEVLoop :: evloop

definition worker_at :: "nat \<Rightarrow> ('a worker_scheme, tsWorkerStruct) prog" where
  "worker_at i = bindP (getP gWorkerAdmin) (\<lambda>g.
     if length (psWorker g) \<le> i then faultP OutOfBounds
     else case psWorker g ! i of None \<Rightarrow> faultP NullDereference | Some w \<Rightarrow> retP w)"

definition put_slot :: "nat \<Rightarrow> tsWorkerStruct option \<Rightarrow> ('a worker_scheme, unit) prog" where
  "put_slot i w = bindP (getP gWorkerAdmin) (\<lambda>g.
     if length (psWorker g) \<le> i then faultP OutOfBounds
     else modP (\<lambda>s. s\<lparr>gWorkerAdmin := g\<lparr>psWorker := (psWorker g)[i := w]\<rparr>\<rparr>))"

section \<open>Passing descriptors\<close>

definition send_fd_to_worker :: "env \<Rightarrow> tsWorkerStruct \<Rightarrow> int \<Rightarrow> ('a base_scheme, int) prog" where
  "send_fd_to_worker E w fd =
     bindP (callP E (Sendmsg_fd (iMasterIPCfd w) fd)) (\<lambda>r.
     if r \<noteq> -1 then retP WORKER_EXIT_SUCCESS else retP WORKER_EXIT_FAILURE)"

text \<open>The 32-bit number in the data of a control message, least significant byte first.\<close>

definition le32 :: "string \<Rightarrow> int" where
  "le32 d = sint (word_of_nat (foldr (\<lambda>c n. of_char c + 256 * n) (take 4 d) 0) :: 32 word)"

text \<open>
  \<^verbatim>\<open>recvmsg\<close>: \<open>-1\<close> is an error; without a control message there is no header. The result is
  the value and what the caller's variable holds then (\<open>None\<close>: still uninitialised).
\<close>

definition receive_fd_from_worker ::
  "env \<Rightarrow> tsWorkerStruct \<Rightarrow> ('a base_scheme, int \<times> int option) prog" where
  "receive_fd_from_worker E w =
     bindP (sysP E (Recvmsg_fd (iWorkerIPCfd w))) (\<lambda>r.
     if sr_val r \<noteq> -1 then
       if sr_data r \<noteq> [] then retP (WORKER_EXIT_SUCCESS, Some (le32 (sr_data r)))
       else retP (WORKER_EXIT_FAILURE, None)
     else retP (WORKER_EXIT_FAILURE, None))"

section \<open>The sockets between master and worker\<close>

definition SUN_PATH_SIZE :: nat where "SUN_PATH_SIZE = 108"

text \<open>
  The master passes \<^verbatim>\<open>sizeof(sName.sun_path) - 1\<close>, 107, as the length of the whole address,
  of which two bytes are the family: the kernel sees 105 bytes of the name.
\<close>

definition BIND_PATH_LEN :: nat where "BIND_PATH_LEN = SUN_PATH_SIZE - 1 - 2"

text \<open>\<^verbatim>\<open>while (access(file, F_OK) != 0);\<close> with the number of rounds granted.\<close>

definition wait_for_file :: "env \<Rightarrow> nat \<Rightarrow> string \<Rightarrow> ('a base_scheme, unit) prog" where
  "wait_for_file E n file = until_zero E n (Access file)"

definition workerp_connect_ipc_socket :: "env \<Rightarrow> nat \<Rightarrow> ('a worker_scheme, int) prog" where
  "workerp_connect_ipc_socket E i =
     bindP (worker_at i) (\<lambda>w.
     bindP (sds_get (IPCFile w)) (\<lambda>file.
     seqP (log_debug E [FL ''Connecting to IPC socket for worker '', FD, FL '' on file '', FS]
             [AI (sint (uiId w)), AS (cstr file)]) (
     seqP (wait_for_file E (fuel E) (cstr file)) (
     seqP (log_debug E [FL ''worker '', FD, FL ''. Master made the socket file available''] [AI (sint (uiId w))]) (
     bindP (callP E (Socket ''AF_UNIX'')) (\<lambda>fd.
     seqP (put_slot i (Some (w\<lparr>iWorkerIPCfd := fd\<rparr>))) (
     if fd = -1 then retP EXIT_FAILURE
     else if \<not> length file < SUN_PATH_SIZE then retP EXIT_FAILURE
     else
       bindP (callP E (Connect fd file)) (\<lambda>r.
       if r = -1 then retP EXIT_FAILURE
       else
         bindP (callP E (Fcntl_nonblock fd)) (\<lambda>r.
         if r = -1 then retP EXIT_FAILURE
         else
           seqP (log_debug E [FL ''Worker '', FD, FL '', connected with master through fd '', FD]
                   [AI (sint (uiId w)), AI fd])
             (retP EXIT_SUCCESS))))))))))"

definition worker_create_ipc_socket :: "env \<Rightarrow> nat \<Rightarrow> ('a worker_scheme, int) prog" where
  "worker_create_ipc_socket E i =
     bindP (worker_at i) (\<lambda>w.
     bindP (sds_get (IPCFile w)) (\<lambda>file.
     seqP (log_debug E [FL ''Creating IPC socket for worker '', FD, FL '', file '', FS]
             [AI (sint (uiId w)), AS (cstr file)]) (
     bindP (callP E (Socket ''AF_UNIX'')) (\<lambda>fd.
     seqP (put_slot i (Some (w\<lparr>iMasterIPCAccept := fd\<rparr>))) (
     if fd = -1 then retP EXIT_FAILURE
     else if \<not> length file < SUN_PATH_SIZE then retP EXIT_FAILURE
     else
       bindP (callP E (Stat WORKER_IPC_FOLDER)) (\<lambda>st.
       bindP (if st = -1 then callP E (Mkdir WORKER_IPC_FOLDER) else retP 0) (\<lambda>mk.
       if mk = -1 then retP EXIT_FAILURE
       else
         seqP (callP E (Unlink (cstr file))) (
         bindP (callP E (Bind fd (take BIND_PATH_LEN file))) (\<lambda>r.
         if r = -1 then retP EXIT_FAILURE
         else
           bindP (callP E (Chmod (cstr file))) (\<lambda>r.
           if r = -1 then retP EXIT_FAILURE
           else
             bindP (callP E (Listen fd 20)) (\<lambda>r.
             if r = -1 then retP EXIT_FAILURE
             else
               bindP (callP E (Accept fd)) (\<lambda>conn.
               seqP (put_slot i (Some (w\<lparr>iMasterIPCAccept := fd, iMasterIPCfd := conn\<rparr>))) (
               if conn = -1 then exitP EXIT_FAILURE
               else
                 seqP (log_info E [FL ''Created IPC socket for worker '', FD, FL '', with fd '', FD]
                         [AI (sint (uiId w)), AI conn])
                   (retP EXIT_SUCCESS))))))))))))))"

section \<open>Routing\<close>

definition worker_route_client :: "env \<Rightarrow> int \<Rightarrow> ('a worker_scheme, int) prog" where
  "worker_route_client E iSockfd' =
     bindP (getP (\<lambda>s. uiCurrWorkers (gWorkerAdmin s))) (\<lambda>n.
     if n = 0 then faultP DivisionByZero
     else
       seqP (modP (\<lambda>s. s\<lparr>NextWorker := (NextWorker s + 1) mod n\<rparr>)) (
       bindP (getP NextWorker) (\<lambda>k.
       bindP (getP gWorkerAdmin) (\<lambda>g.
       if length (psWorker g) \<le> unat k then faultP OutOfBounds
       else
         seqP (log_debug E [FL ''Adding new client to worker '', FD] [AI (sint k)]) (
         bindP (worker_at (unat k)) (\<lambda>w.
         bindP (send_fd_to_worker E w iSockfd') (\<lambda>r.
         if r = WORKER_EXIT_SUCCESS then retP WORKER_EXIT_SUCCESS
         else retP WORKER_EXIT_FAILURE)))))))"

section \<open>Cleaning up\<close>

text \<open>
  \<^verbatim>\<open>ev_suspend\<close> needs a loop; \<^verbatim>\<open>ev_loop_destroy\<close> takes NULL, and releases the loop
  otherwise: afterwards its memory is not the caller's.
\<close>

definition ev_suspend :: "env \<Rightarrow> ('a worker_scheme, unit) prog" where
  "ev_suspend E = bindP (getP psWorkerEVLoop) (\<lambda>l.
     case l of LNull \<Rightarrow> faultP NullDereference | LDestroyed \<Rightarrow> faultP UseAfterFree
       | LLive \<Rightarrow> voidP (callP E Ev_suspend))"

definition ev_loop_destroy :: "env \<Rightarrow> ('a worker_scheme, unit) prog" where
  "ev_loop_destroy E = seqP (callP E Ev_loop_destroy)
     (modP (\<lambda>s. s\<lparr>psWorkerEVLoop := (case psWorkerEVLoop s of LNull \<Rightarrow> LNull | _ \<Rightarrow> LDestroyed)\<rparr>))"

definition free_loop :: "env \<Rightarrow> ('a worker_scheme, unit) prog" where
  "free_loop E = bindP (getP psWorkerEVLoop) (\<lambda>l.
     case l of LNull \<Rightarrow> retP () | LDestroyed \<Rightarrow> faultP DoubleFree
       | LLive \<Rightarrow> seqP (callP E (Free ''loop'')) (modP (\<lambda>s. s\<lparr>psWorkerEVLoop := LNull\<rparr>)))"

text \<open>The branch for the process's own entry.\<close>

definition destroy_self :: "env \<Rightarrow> nat \<Rightarrow> tsWorkerStruct \<Rightarrow> ('a worker_scheme, tsWorkerStruct) prog" where
  "destroy_self E i w =
     seqP (ev_suspend E) (
     seqP (ev_loop_destroy E) (
     bindP (getP psWorkerEVLoop) (\<lambda>l.
     seqP (whenP (l \<noteq> LNull) (free_loop E)) (
     bindP (getP pid) (\<lambda>me.
     seqP (log_debug E [FL ''pid '', FD, FL '', worker: Destroying myself '', FD, FL '' from worker pid '', FD]
             [AI me, AI (int i), AI (Pid w)])
       (retP w))))))"

text \<open>\<^verbatim>\<open>close(fd)\<close> for a descriptor that is set.\<close>

definition close_set :: "env \<Rightarrow> int \<Rightarrow> ('a base_scheme, unit) prog" where
  "close_set E fd = whenP (fd \<noteq> 0) (callP E (Close fd))"

definition unlink_sds :: "env \<Rightarrow> sds \<Rightarrow> ('a base_scheme, unit) prog" where
  "unlink_sds E v = (case v of
      SLive f \<Rightarrow> voidP (callP E (Unlink (cstr f)))
    | SNull \<Rightarrow> voidP (callP E (Unlink []))
    | SFreed \<Rightarrow> faultP UseAfterFree)"

text \<open>The branch for every other entry.\<close>

definition destroy_other :: "env \<Rightarrow> nat \<Rightarrow> tsWorkerStruct \<Rightarrow> ('a worker_scheme, tsWorkerStruct) prog" where
  "destroy_other E i w =
     bindP (getP pid) (\<lambda>me.
     seqP (log_info E [FL ''pid '', FD, FL '', master: Destroying worker '', FD, FL '' from master.''] [AI me, AI (int i)]) (
     bindP (callP E (Kill (Pid w) SIGTERM)) (\<lambda>r.
     seqP (if r = 0 then
             log_debug E [FL ''pid '', FD, FL '', master: Successfully stopped worker: '', FD] [AI me, AI (Pid w)]
           else
             seqP (log_error E [FL ''pid '', FD, FL '', master: Error stopping worker: '', FD,
                     FL ''. killing it forcefully now!''] [AI me, AI (Pid w)])
               (voidP (callP E (Kill (Pid w) SIGKILL)))) (
     bindP (sysP E (Waitpid (Pid w))) (\<lambda>status.
     seqP (log_debug E [FL ''pid '', FD, FL '', master: Exit info from pid '', FD, FL '':'', FD]
             [AI me, AI (Pid w), AI (le32 (sr_data status))]) (
     seqP (close_set E (iMasterIPCfd w)) (
     seqP (close_set E (iMasterIPCAccept w)) (
     seqP (unlink_sds E (IPCFile w))
       (retP (w\<lparr>iMasterIPCfd := 0, iMasterIPCAccept := 0\<rparr>))))))))))"

definition destroy_slot :: "env \<Rightarrow> nat \<Rightarrow> ('a worker_scheme, unit) prog" where
  "destroy_slot E i =
     bindP (getP gWorkerAdmin) (\<lambda>g.
     if length (psWorker g) \<le> i then faultP OutOfBounds
     else case psWorker g ! i of
       None \<Rightarrow> retP ()
     | Some w \<Rightarrow>
         bindP (if iMe w \<noteq> 0 then destroy_self E i w else destroy_other E i w) (\<lambda>w.
         seqP (close_set E (iWorkerIPCfd w)) (
         seqP (whenP (IPCFile w \<noteq> SNull) (sds_free (IPCFile w))) (
         bindP (getP pid) (\<lambda>me.
         seqP (log_info E [FL ''pid '', FD, FL '', Destroyed worker '', FD, FL ''.''] [AI me, AI (sint (uiId w))]) (
         seqP (callP E (Free ''worker''))
           (put_slot i None)))))))"

definition worker_destroy :: "env \<Rightarrow> ('a worker_scheme, int) prog" where
  "worker_destroy E =
     seqP (blockP (map (destroy_slot E) [0..<WORKER_MAX_WORKERS])) (
     seqP (modP (\<lambda>s. s\<lparr>gWorkerAdmin := (gWorkerAdmin s)\<lparr>uiCurrWorkers := 0\<rparr>\<rparr>)) (
     bindP (getP pid) (\<lambda>me.
     seqP (log_info E [FL ''pid '', FD, FL '', Destroyed all workers. All done!''] [AI me])
       (retP WORKER_EXIT_SUCCESS))))"

section \<open>Frames\<close>

lemma outside_log_worker [simp]:
  "outside_log (s\<lparr>gWorkerAdmin := g\<rparr>) = (outside_log s)\<lparr>gWorkerAdmin := g\<rparr>"
  "outside_log (s\<lparr>NextWorker := n\<rparr>) = (outside_log s)\<lparr>NextWorker := n\<rparr>"
  "outside_log (s\<lparr>psWorkerEVLoop := l\<rparr>) = (outside_log s)\<lparr>psWorkerEVLoop := l\<rparr>"
  "gWorkerAdmin (outside_log s) = gWorkerAdmin s" "NextWorker (outside_log s) = NextWorker s"
  "psWorkerEVLoop (outside_log s) = psWorkerEVLoop s"
  by (simp_all add: outside_log_def)

lemma log_st_worker [simp]:
  "gWorkerAdmin (log_st E ty m s) = gWorkerAdmin s" "NextWorker (log_st E ty m s) = NextWorker s"
  "psWorkerEVLoop (log_st E ty m s) = psWorkerEVLoop s"
  by (simp_all add: log_st_def log_enqueue_def)

section \<open>Routing, step by step\<close>

text \<open>The first \<open>n\<close> slots of the table hold workers, and the counter says so.\<close>

definition workers_up :: "nat \<Rightarrow> 'a worker_scheme \<Rightarrow> bool" where
  "workers_up n s \<longleftrightarrow> 0 < n \<and> n \<le> WORKER_MAX_WORKERS \<and>
     length (psWorker (gWorkerAdmin s)) = WORKER_MAX_WORKERS \<and>
     uiCurrWorkers (gWorkerAdmin s) = word_of_nat n \<and>
     (\<forall>i < n. psWorker (gWorkerAdmin s) ! i \<noteq> None)"

text \<open>The value of \<^verbatim>\<open>NextWorker\<close> after \<open>k\<close> clients: it starts as \<open>-1\<close>, the largest number.\<close>

definition next_after :: "nat \<Rightarrow> nat \<Rightarrow> 32 word" where
  "next_after n k = (if k = 0 then -1 else word_of_nat ((k - 1) mod n))"

lemma unat_small: "j \<le> 64 \<Longrightarrow> unat (word_of_nat j :: 32 word) = j"
  by (simp add: unsigned_of_nat take_bit_nat_eq_self)

lemma next_after_step:
  assumes "0 < n" and "n \<le> 64"
  shows "(next_after n k + 1) mod word_of_nat n = next_after n (Suc k)"
    and "unat (next_after n (Suc k)) = k mod n"
proof -
  note small = unat_small
  have lt: "k mod n < n" using assms(1) by simp
  then show u: "unat (next_after n (Suc k)) = k mod n"
    using assms(2) by (simp add: next_after_def small)
  have "unat ((next_after n k + 1) mod word_of_nat n) = unat (next_after n k + 1) mod n"
    using assms by (simp add: unat_mod small)
  also have "unat (next_after n k + 1) = (if k = 0 then 0 else (k - 1) mod n + 1)"
  proof (cases "k = 0")
    case False
    have "next_after n k + 1 = word_of_nat ((k - 1) mod n + 1)" using False by (simp add: next_after_def)
    moreover have "(k - 1) mod n < n" using assms(1) by simp
    then have "(k - 1) mod n + 1 \<le> 64" using assms(2) by simp
    ultimately show ?thesis using False small[of "(k - 1) mod n + 1"] by metis
  qed (simp add: next_after_def)
  also have "(if k = 0 then 0 else (k - 1) mod n + 1) mod n = k mod n"
    by (cases k) (simp_all add: mod_Suc_eq)
  finally show "(next_after n k + 1) mod word_of_nat n = next_after n (Suc k)"
    using u by (simp add: word_unat_eq_iff)
qed

lemma route_step:
  assumes "sds_doc E" and "workers_up n s" and "NextWorker s = next_after n k"
    and "psWorker (gWorkerAdmin s) ! (k mod n) = Some w"
  shows "\<exists>t. worker_route_client E fd s =
      Ret (if sr_val (os E (hist s) (Sendmsg_fd (iMasterIPCfd w) fd)) = -1
           then WORKER_EXIT_FAILURE else WORKER_EXIT_SUCCESS) t \<and>
    outside_log t = (outside_log s)\<lparr>hist := hist s @ [Sendmsg_fd (iMasterIPCfd w) fd],
      NextWorker := next_after n (Suc k)\<rparr>"
proof -
  note up = assms(2)[unfolded workers_up_def WORKER_MAX_WORKERS_def]
  have n: "0 < n" "n \<le> 64" using up by auto
  have "k mod n < n" using n by simp
  then have "k mod n < 64" using n(2) by (rule less_le_trans)
  moreover have "(word_of_nat n :: 32 word) \<noteq> 0"
    using n unat_small[of n] by (metis neq0_conv unsigned_0)
  ultimately show ?thesis
    using up assms(3,4) next_after_step[OF n, of k]
    by (simp add: worker_route_client_def send_fd_to_worker_def log_calls[OF assms(1)] worker_at_def)
qed

text \<open>A sequence of accepted clients, routed one after the other, failed ones included.\<close>

fun route_all :: "env \<Rightarrow> int list \<Rightarrow> ('a worker_scheme, unit) prog" where
  "route_all E [] = retP ()"
| "route_all E (fd # fds) = seqP (worker_route_client E fd) (route_all E fds)"

definition route_target :: "nat \<Rightarrow> 'a worker_scheme \<Rightarrow> nat \<Rightarrow> int" where
  "route_target n s k = iMasterIPCfd (the (psWorker (gWorkerAdmin s) ! (k mod n)))"

lemma route_all_run:
  assumes "sds_doc E" and "workers_up n s" and "NextWorker s = next_after n k"
  shows "\<exists>t. route_all E fds s = Ret () t \<and>
    outside_log t = (outside_log s)\<lparr>hist := hist s @
      map (\<lambda>j. Sendmsg_fd (route_target n s (k + j)) (fds ! j)) [0..<length fds],
      NextWorker := next_after n (k + length fds)\<rparr>"
  using assms(2,3)
proof (induction fds arbitrary: s k)
  case Nil
  have "(outside_log s)\<lparr>hist := hist s, NextWorker := NextWorker s\<rparr> = outside_log s"
    by (cases s) (simp add: outside_log_def)
  with Nil show ?case by simp
next
  case (Cons fd fds)
  from Cons.prems(1) obtain w where w: "psWorker (gWorkerAdmin s) ! (k mod n) = Some w"
    unfolding workers_up_def by (metis mod_less_divisor not_Some_eq)
  from route_step[OF assms(1) Cons.prems w] obtain t where
    t: "worker_route_client E fd s = Ret (if sr_val (os E (hist s) (Sendmsg_fd (iMasterIPCfd w) fd)) = -1
           then 1 else 0) t"
    "outside_log t = (outside_log s)\<lparr>hist := hist s @ [Sendmsg_fd (iMasterIPCfd w) fd],
      NextWorker := next_after n (Suc k)\<rparr>" by blast
  have f: "gWorkerAdmin t = gWorkerAdmin s" "NextWorker t = next_after n (Suc k)"
    "hist t = hist s @ [Sendmsg_fd (iMasterIPCfd w) fd]"
    using arg_cong[OF t(2), of gWorkerAdmin] arg_cong[OF t(2), of NextWorker] arg_cong[OF t(2), of hist]
    by simp_all
  then have "workers_up n t" using Cons.prems(1) by (simp add: workers_up_def)
  from Cons.IH[OF this f(2)] obtain u where u: "route_all E fds t = Ret () u"
    "outside_log u = (outside_log t)\<lparr>hist := hist t @
      map (\<lambda>j. Sendmsg_fd (route_target n t (Suc k + j)) (fds ! j)) [0..<length fds],
      NextWorker := next_after n (Suc k + length fds)\<rparr>" by blast
  have "map (\<lambda>j. Sendmsg_fd (route_target n s (k + j)) ((fd # fds) ! j)) [0..<length (fd # fds)] =
    Sendmsg_fd (iMasterIPCfd w) fd # map (\<lambda>j. Sendmsg_fd (route_target n t (Suc k + j)) (fds ! j)) [0..<length fds]"
    using w f(1) by (simp add: upt_conv_Cons map_Suc_upt[symmetric] route_target_def del: upt_Suc)
  with t(1) u f t(2) show ?case by simp
qed

lemma mod_class_count:
  assumes "0 < n" and "i < n"
  shows "card {j. j < m \<and> j mod n = i} = m div n + (if i < m mod n then 1 else 0)"
proof (induction m)
  case (Suc m)
  have "{j. j < Suc m \<and> j mod n = i} =
    (if m mod n = i then insert m {j. j < m \<and> j mod n = i} else {j. j < m \<and> j mod n = i})"
    by (auto simp: less_Suc_eq)
  then have "card {j. j < Suc m \<and> j mod n = i} =
      m div n + (if i < m mod n then 1 else 0) + (if m mod n = i then 1 else 0)"
    using Suc by simp
  also have "\<dots> = Suc m div n + (if i < Suc m mod n then 1 else 0)"
    using assms by (auto simp: div_Suc mod_Suc)
  finally show ?case .
qed simp

section \<open>Cleaning up, slot by slot\<close>

text \<open>The calls that destroy another process's entry, for every answer of the first \<^verbatim>\<open>kill\<close>.\<close>

definition sds_path :: "sds \<Rightarrow> string" where
  "sds_path v = (case v of SLive f \<Rightarrow> cstr f | _ \<Rightarrow> [])"

definition close_calls :: "int \<Rightarrow> call list" where
  "close_calls fd = (if fd = 0 then [] else [Close fd])"

definition stop_calls :: "env \<Rightarrow> call list \<Rightarrow> tsWorkerStruct \<Rightarrow> call list" where
  "stop_calls E h w =
     Kill (Pid w) SIGTERM #
     (if sr_val (os E h (Kill (Pid w) SIGTERM)) = 0 then [] else [Kill (Pid w) SIGKILL]) @
     Waitpid (Pid w) # close_calls (iMasterIPCfd w) @ close_calls (iMasterIPCAccept w) @
     Unlink (sds_path (IPCFile w)) # close_calls (iWorkerIPCfd w) @ [Free ''worker'']"

fun destroy_trace :: "env \<Rightarrow> call list \<Rightarrow> tsWorkerStruct option list \<Rightarrow> call list" where
  "destroy_trace E h [] = h"
| "destroy_trace E h (None # ws) = destroy_trace E h ws"
| "destroy_trace E h (Some w # ws) = destroy_trace E (h @ stop_calls E h w) ws"

definition other_entry :: "tsWorkerStruct option \<Rightarrow> bool" where
  "other_entry x = (case x of None \<Rightarrow> True | Some w \<Rightarrow> iMe w = 0 \<and> IPCFile w \<noteq> SFreed)"

definition slot_owns :: "tsWorkerStruct option \<Rightarrow> int" where
  "slot_owns x = (case x of None \<Rightarrow> 0 | Some w \<Rightarrow> owns (IPCFile w))"

lemma destroy_other_run:
  assumes "sds_doc E" and "psWorker (gWorkerAdmin s) ! i = Some w"
    and "i < length (psWorker (gWorkerAdmin s))" and "other_entry (Some w)"
  shows "\<exists>t. destroy_slot E i s = Ret () t \<and>
    outside_log t = (outside_log s)\<lparr>hist := hist s @ stop_calls E (hist s) w,
      sds_live := sds_live s - owns (IPCFile w),
      gWorkerAdmin := (gWorkerAdmin s)\<lparr>psWorker := (psWorker (gWorkerAdmin s))[i := None]\<rparr>\<rparr>"
proof -
  have "\<exists>e. close_set E fd u = Ret () (u\<lparr>hist := hist u @ close_calls fd, errno := e\<rparr>)"
    for fd and u :: "'a worker_scheme"
    by (cases "fd = 0") (auto simp: close_set_def close_calls_def intro: exI[of _ "errno u"])
  then obtain ce where ce: "\<And>fd (u :: 'a worker_scheme).
      close_set E fd u = Ret () (u\<lparr>hist := hist u @ close_calls fd, errno := ce fd u\<rparr>)" by metis
  show ?thesis
    using assms(2-4)
    by (cases "sr_val (os E (hist s) (Kill (Pid w) SIGTERM)) = 0"; cases "IPCFile w")
      (simp_all add: destroy_slot_def destroy_other_def ce log_calls[OF assms(1)] unlink_sds_def
        stop_calls_def sds_path_def other_entry_def owns_def put_slot_def)
qed

text \<open>The loop over the slots from \<open>k\<close> on, when none of them is the process's own.\<close>

definition slots :: "'a worker_scheme \<Rightarrow> tsWorkerStruct option list" where
  "slots s = psWorker (gWorkerAdmin s)"

lemma destroy_slot_run:
  assumes "sds_doc E" and "slots s = replicate k None @ x # rest" and "other_entry x"
  shows "\<exists>t. destroy_slot E k s = Ret () t \<and>
    outside_log t = (outside_log s)\<lparr>hist := destroy_trace E (hist s) [x], sds_live := sds_live s - slot_owns x,
      gWorkerAdmin := (gWorkerAdmin s)\<lparr>psWorker := replicate (Suc k) None @ rest\<rparr>\<rparr>"
proof -
  have at: "psWorker (gWorkerAdmin s) ! k = x" "k < length (psWorker (gWorkerAdmin s))"
    using assms(2) by (simp_all add: slots_def nth_append)
  have new: "(psWorker (gWorkerAdmin s))[k := None] = replicate (Suc k) None @ rest"
    using assms(2) list_update_length[of "replicate k None" x rest None]
    by (simp add: slots_def replicate_app_Cons_same)
  show ?thesis
  proof (cases x)
    case None
    with at new have "psWorker (gWorkerAdmin s) = replicate (Suc k) None @ rest" by (metis list_update_id)
    then have "(outside_log s)\<lparr>hist := hist s, sds_live := sds_live s,
        gWorkerAdmin := (gWorkerAdmin s)\<lparr>psWorker := replicate (Suc k) None @ rest\<rparr>\<rparr> = outside_log s"
      by (cases s) (simp add: outside_log_def)
    with None at show ?thesis by (simp add: destroy_slot_def slot_owns_def)
  next
    case (Some w)
    with destroy_other_run[OF assms(1) _ at(2), of w] at(1) new assms(3) show ?thesis by (auto simp: slot_owns_def)
  qed
qed

lemma destroy_slots_run:
  assumes "sds_doc E" and "slots s = replicate k None @ ws @ rest" and "\<forall>x \<in> set ws. other_entry x"
  shows "\<exists>t. blockP (map (destroy_slot E) [k..<k + length ws]) s = Ret () t \<and>
    outside_log t = (outside_log s)\<lparr>hist := destroy_trace E (hist s) ws,
      sds_live := sds_live s - sum_list (map slot_owns ws),
      gWorkerAdmin := (gWorkerAdmin s)\<lparr>psWorker := replicate (k + length ws) None @ rest\<rparr>\<rparr>"
  using assms(2,3)
proof (induction ws arbitrary: s k)
  case Nil
  have "psWorker (gWorkerAdmin s) = replicate k None @ rest" using Nil(1) by (simp add: slots_def)
  then have e: "(outside_log s)\<lparr>hist := hist s, sds_live := sds_live s,
      gWorkerAdmin := (gWorkerAdmin s)\<lparr>psWorker := replicate k None @ rest\<rparr>\<rparr> = outside_log s"
    by (cases s) (simp add: outside_log_def)
  show ?case by (simp add: e)
next
  case (Cons x ws)
  have idx: "[k..<k + length (x # ws)] = k # [Suc k..<Suc k + length ws]"
    using upt_conv_Cons[of k "k + length (x # ws)"] by simp
  from destroy_slot_run[OF assms(1), of s k x "ws @ rest"] Cons.prems obtain t where
    t: "destroy_slot E k s = Ret () t"
    "outside_log t = (outside_log s)\<lparr>hist := destroy_trace E (hist s) [x],
      sds_live := sds_live s - slot_owns x,
      gWorkerAdmin := (gWorkerAdmin s)\<lparr>psWorker := replicate (Suc k) None @ ws @ rest\<rparr>\<rparr>" by auto
  have f: "slots t = replicate (Suc k) None @ ws @ rest" "hist t = destroy_trace E (hist s) [x]"
    "sds_live t = sds_live s - slot_owns x"
    "gWorkerAdmin t = (gWorkerAdmin s)\<lparr>psWorker := replicate (Suc k) None @ ws @ rest\<rparr>"
    using arg_cong[OF t(2), of gWorkerAdmin] arg_cong[OF t(2), of hist] arg_cong[OF t(2), of sds_live]
    by (simp_all add: slots_def)
  from Cons.IH[OF f(1)] Cons.prems(2) obtain u where
    u: "blockP (map (destroy_slot E) [Suc k..<Suc k + length ws]) t = Ret () u"
    "outside_log u = (outside_log t)\<lparr>hist := destroy_trace E (hist t) ws,
      sds_live := sds_live t - sum_list (map slot_owns ws),
      gWorkerAdmin := (gWorkerAdmin t)\<lparr>psWorker := replicate (Suc k + length ws) None @ rest\<rparr>\<rparr>" by auto
  have "destroy_trace E (destroy_trace E (hist s) [x]) ws = destroy_trace E (hist s) (x # ws)"
    by (cases x) simp_all
  with idx t u f show ?case by (simp del: upt_Suc)
qed

lemma blockP_append: "blockP (ms @ ns) s = bindP (blockP ms) (\<lambda>_. blockP ns) s"
proof (induction ms arbitrary: s)
  case (Cons m ms)
  then show ?case by (cases "m s") simp_all
qed simp

lemma worker_destroy_others:
  assumes "sds_doc E" and "length (slots s) = WORKER_MAX_WORKERS" and "\<forall>x \<in> set (slots s). other_entry x"
  shows "\<exists>t. worker_destroy E s = Ret WORKER_EXIT_SUCCESS t \<and>
    outside_log t = (outside_log s)\<lparr>hist := destroy_trace E (hist s) (slots s),
      sds_live := sds_live s - sum_list (map slot_owns (slots s)), gWorkerAdmin := zero_admin\<rparr>"
proof -
  from destroy_slots_run[OF assms(1), of s 0 "slots s" "[]"] assms(2,3) obtain t where
    t: "blockP (map (destroy_slot E) [0..<WORKER_MAX_WORKERS]) s = Ret () t"
    "outside_log t = (outside_log s)\<lparr>hist := destroy_trace E (hist s) (slots s),
      sds_live := sds_live s - sum_list (map slot_owns (slots s)),
      gWorkerAdmin := (gWorkerAdmin s)\<lparr>psWorker := replicate WORKER_MAX_WORKERS None\<rparr>\<rparr>" by auto
  from arg_cong[OF t(2), of gWorkerAdmin]
  have "(gWorkerAdmin t)\<lparr>uiCurrWorkers := 0\<rparr> = zero_admin" by (simp add: zero_admin_def)
  with t show ?thesis by (simp add: worker_destroy_def log_calls[OF assms(1)])
qed

text \<open>A process that finds its own entry in the table gets no further than that entry.\<close>

lemma worker_destroy_own:
  assumes "sds_doc E" and "length (slots s) = WORKER_MAX_WORKERS" and "slots s = sibs @ Some me # rest"
    and "\<forall>x \<in> set sibs. other_entry x" and "iMe me \<noteq> 0"
  shows "\<exists>t. worker_destroy E s = Fault (case psWorkerEVLoop s of LNull \<Rightarrow> NullDereference
        | LLive \<Rightarrow> DoubleFree | LDestroyed \<Rightarrow> UseAfterFree) t \<and>
    hist t = destroy_trace E (hist s) sibs @
      (if psWorkerEVLoop s = LLive then [Ev_suspend, Ev_loop_destroy] else [])"
proof -
  let ?k = "length sibs"
  have k: "?k < WORKER_MAX_WORKERS" using arg_cong[OF assms(3), of length] assms(2) by simp
  have idx: "[0..<WORKER_MAX_WORKERS] = [0..<?k] @ ?k # [Suc ?k..<WORKER_MAX_WORKERS]"
    using k upt_add_eq_append[of 0 ?k "WORKER_MAX_WORKERS - ?k"] upt_conv_Cons[OF k] by simp
  from destroy_slots_run[OF assms(1), of s 0 sibs "Some me # rest"] assms(3,4) obtain t where
    t: "blockP (map (destroy_slot E) [0..<?k]) s = Ret () t"
    "outside_log t = (outside_log s)\<lparr>hist := destroy_trace E (hist s) sibs,
      sds_live := sds_live s - sum_list (map slot_owns sibs),
      gWorkerAdmin := (gWorkerAdmin s)\<lparr>psWorker := replicate ?k None @ Some me # rest\<rparr>\<rparr>" by auto
  have f: "hist t = destroy_trace E (hist s) sibs" "psWorkerEVLoop t = psWorkerEVLoop s"
    "psWorker (gWorkerAdmin t) = replicate ?k None @ Some me # rest"
    using arg_cong[OF t(2), of hist] arg_cong[OF t(2), of psWorkerEVLoop] arg_cong[OF t(2), of gWorkerAdmin]
    by simp_all
  have "\<exists>u. destroy_slot E ?k t = Fault (case psWorkerEVLoop s of LNull \<Rightarrow> NullDereference
        | LLive \<Rightarrow> DoubleFree | LDestroyed \<Rightarrow> UseAfterFree) u \<and>
      hist u = hist t @ (if psWorkerEVLoop s = LLive then [Ev_suspend, Ev_loop_destroy] else [])"
    using f assms(5)
    by (cases "psWorkerEVLoop s")
      (simp_all add: destroy_slot_def destroy_self_def ev_suspend_def ev_loop_destroy_def free_loop_def nth_append)
  with t(1) f(1) show ?thesis
    by (auto simp: worker_destroy_def idx blockP_append)
qed

section \<open>Claims\<close>

definition demo_worker :: "tsWorkerStruct option list \<Rightarrow> 32 word \<Rightarrow> evloop \<Rightarrow> worker" where
  "demo_worker ws n l = \<lparr>hist = [], errno = 0, pid = 1, sds_live = 0, gpcLogfile = SNull,
     sCurrLogSettings = default_log_settings, Head = [], LogfileFd = False, iDataInQueueCount = 0,
     iIsInitDone = False, iDoForceFlush = False, iShuttingDown = False, bTerminateProg = False,
     LoggerThread = None, logfile = [], terminal = [], lops = 0, stamps = 0, naps = 0,
     sCurrSSettings = zero_settings, cheap = Map.empty, fresh_addr = 5, io_on = {}, timer_on = {},
     gWorkerAdmin = \<lparr>uiCurrWorkers = n, psWorker = ws @ replicate (64 - length ws) None\<rparr>,
     NextWorker = -1, psWorkerEVLoop = l\<rparr>"

definition demo_entry :: "int \<Rightarrow> tsWorkerStruct" where
  "demo_entry p = zero_worker\<lparr>Pid := p, iMasterIPCfd := p + 1, IPCFile := SLive ''/run/x''\<rparr>"

text \<open>
  C10. Clients are handed to the workers in turn: with \<open>n\<close> workers up, the \<open>k\<close>-th client
  since the start goes to worker \<open>k mod n\<close>, also when a hand-over fails; nothing but the counter
  and the log changes. The counter starts as the largest 32-bit number and wraps to 0.
\<close>

theorem worker_route_round_robin:
  assumes "sds_doc E" and "workers_up n s" and "NextWorker s = -1"
  shows "\<exists>t. route_all E fds s = Ret () t \<and>
    outside_log t = (outside_log s)\<lparr>hist := hist s @
      map (\<lambda>k. Sendmsg_fd (iMasterIPCfd (the (psWorker (gWorkerAdmin s) ! (k mod n)))) (fds ! k)) [0..<length fds],
      NextWorker := (if fds = [] then -1 else word_of_nat ((length fds - 1) mod n))\<rparr>"
  using route_all_run[OF assms(1,2), of 0 fds] assms(3)
  by (auto simp: next_after_def route_target_def)

theorem worker_route_round_robin_witness:
  "\<exists>t. route_all calm_env [7, 8, 9] (demo_worker [Some (demo_entry 20), Some (demo_entry 30)] 2 LNull) = Ret () t \<and>
    hist t = [Sendmsg_fd 21 7, Sendmsg_fd 31 8, Sendmsg_fd 21 9]"
proof -
  let ?s = "demo_worker [Some (demo_entry 20), Some (demo_entry 30)] 2 LNull"
  have "workers_up 2 ?s" "NextWorker ?s = -1" "hist ?s = []"
    by (auto simp: workers_up_def demo_worker_def WORKER_MAX_WORKERS_def numeral_2_eq_2 less_Suc_eq)
  moreover have "[0..<length [7, 8, 9 :: int]] = [0, 1, 2]" by (simp add: upt_rec numeral_3_eq_3 numeral_2_eq_2)
  ultimately show ?thesis
    using worker_route_round_robin[OF calm_env_simps(1), of 2 ?s "[7, 8, 9]"]
    by (auto simp: demo_worker_def demo_entry_def dest!: arg_cong[of "outside_log _" _ hist])
qed

text \<open>
  The load is even: of the first \<open>m\<close> clients, worker \<open>i\<close> is the target of \<open>m div n\<close>, and
  of one more exactly if \<open>i\<close> is less than \<open>m mod n\<close>.
\<close>

lemma worker_route_even:
  assumes "sds_doc E" and "workers_up n s" and "NextWorker s = -1" and "i < n"
    and "distinct (map (\<lambda>j. iMasterIPCfd (the (psWorker (gWorkerAdmin s) ! j))) [0..<n])"
    and "route_all E fds s = Ret () t"
  shows "length (filter (\<lambda>c. \<exists>fd. c = Sendmsg_fd (iMasterIPCfd (the (psWorker (gWorkerAdmin s) ! i))) fd)
      (drop (length (hist s)) (hist t))) =
    length fds div n + (if i < length fds mod n then 1 else 0)"
proof -
  let ?to = "\<lambda>j. iMasterIPCfd (the (psWorker (gWorkerAdmin s) ! j))"
  let ?h = "map (\<lambda>k. Sendmsg_fd (?to (k mod n)) (fds ! k)) [0..<length fds]"
  have n: "0 < n" using assms(4) by simp
  from route_all_run[OF assms(1,2), of 0 fds] assms(3,6)
  have "outside_log t = (outside_log s)\<lparr>hist := hist s @ ?h, NextWorker := next_after n (length fds)\<rparr>"
    by (auto simp: next_after_def route_target_def)
  from arg_cong[OF this, of hist] have h: "drop (length (hist s)) (hist t) = ?h" by simp
  have inj: "?to (k mod n) = ?to i \<longleftrightarrow> k mod n = i" for k
    using nth_eq_iff_index_eq[OF assms(5), of "k mod n" i] assms(4) n by simp
  have hit: "(\<exists>fd. ?h ! k = Sendmsg_fd (?to i) fd) \<longleftrightarrow> k mod n = i" if "k < length fds" for k
    using that inj[of k] by simp
  have len: "length ?h = length fds" by simp
  have "{k. k < length ?h \<and> (\<exists>fd. ?h ! k = Sendmsg_fd (?to i) fd)} = {k. k < length fds \<and> k mod n = i}"
    unfolding len by (rule Collect_cong, rule conj_cong, rule refl) (rule hit)
  then show ?thesis
    unfolding h length_filter_conv_card using mod_class_count[OF n assms(4), of "length fds"] by simp
qed

text \<open>A counter of zero workers makes routing divide by zero.\<close>

lemma worker_route_no_workers:
  "uiCurrWorkers (gWorkerAdmin s) = 0 \<Longrightarrow> worker_route_client E fd s = Fault DivisionByZero s"
  by (simp add: worker_route_client_def)

end
