(* ===== verification/Socket_Server.thy ===== *)
theory Socket_Server
  imports Worker
begin

text \<open>
  The listening socket of the master, \<^verbatim>\<open>src/src/cew_socket.c\<close>: opening it on a port,
  accepting clients and passing them to a worker, closing it.
\<close>

section \<open>Data\<close>

record server = worker +
  iFd :: int

abbreviation (input) SOCK_EXIT_SUCCESS :: int where "SOCK_EXIT_SUCCESS \<equiv> 0"
definition BACKLOG :: int where "BACKLOG = 10"

section \<open>Operations\<close>

text \<open>The port as text, in the six bytes of \<^verbatim>\<open>cPort\<close>.\<close>

definition port_text :: "16 word \<Rightarrow> string" where
  "port_text iPort = snprintf_cut 6 (rendered [FD] [AI (uint iPort)])"

text \<open>The result is the returned value and what \<^verbatim>\<open>*iRetFd\<close> is set to, if it is.\<close>

definition ret_errno :: "('a base_scheme, int \<times> int option) prog" where
  "ret_errno = bindP (getP errno) (\<lambda>e. retP (e, None))"

definition socket_setup :: "env \<Rightarrow> 16 word \<Rightarrow> ('a server_scheme, int \<times> int option) prog" where
  "socket_setup E iPort =
     bindP (callP E (Getaddrinfo (port_text iPort))) (\<lambda>r.
     if r \<noteq> 0 then ret_errno
     else
       bindP (callP E (Socket ''AF_INET'')) (\<lambda>fd.
       seqP (modP (\<lambda>s. s\<lparr>iFd := fd\<rparr>)) (
       if fd < 0 then ret_errno
       else
         bindP (callP E (Setsockopt fd)) (\<lambda>r.
         if r = -1 then ret_errno
         else
           bindP (callP E (Bind fd (port_text iPort))) (\<lambda>r.
           if r < 0 then ret_errno
           else
             seqP (callP E Freeaddrinfo) (
             bindP (callP E (Listen fd BACKLOG)) (\<lambda>r.
             if r < 0 then ret_errno
             else
               bindP (callP E (Fcntl_nonblock fd)) (\<lambda>r.
               if r = -1 then ret_errno
               else
                 seqP (log_info E [FL ''Socket listing on port '', FD] [AI (uint iPort)])
                   (retP (SOCK_EXIT_SUCCESS, Some fd))))))))))"

definition socket_accept_client :: "env \<Rightarrow> ('a server_scheme, unit) prog" where
  "socket_accept_client E =
     seqP (log_debug E [FL ''Master. Got Callback from ev about a client.''] []) (
     bindP (getP iFd) (\<lambda>lfd.
     bindP (callP E (Accept lfd)) (\<lambda>fd.
     if fd = -1 then log_error E [FL ''Master. Error with accepting client.''] []
     else
       seqP (log_debug E [FL ''Sending fd:'', FD, FL '' to the worker.''] [AI fd]) (
       bindP (worker_route_client E fd) (\<lambda>r.
       if r \<noteq> WORKER_EXIT_SUCCESS then
         log_warning E [FL ''Master. Couldn'', FL QUOTE, FL ''t route client to worker!''] []
       else retP ())))))"

definition socket_close :: "env \<Rightarrow> ('a server_scheme, int) prog" where
  "socket_close E =
     bindP (getP iFd) (\<lambda>fd.
     seqP (whenP (fd > 0) (seqP (callP E (Close fd)) (modP (\<lambda>s. s\<lparr>iFd := 0\<rparr>)))) (
     seqP (log_info E [FL ''Stopped socket.''] [])
       (retP 0)))"

section \<open>Frames\<close>

lemma outside_log_server [simp]:
  "outside_log (s\<lparr>iFd := fd\<rparr>) = (outside_log s)\<lparr>iFd := fd\<rparr>" "iFd (outside_log s) = iFd s"
  by (simp_all add: outside_log_def)

lemma log_st_server [simp]: "iFd (log_st E ty m s) = iFd s"
  by (simp add: log_st_def log_enqueue_def)

section \<open>Invariants of the master\<close>

text \<open>
  An invariant that does not depend on the contents of the table, and that flushing the log
  respects, is kept by setting up a worker.
\<close>

locale table_invariant = call_invariant Q for Q :: "'a server_scheme \<Rightarrow> bool" +
  assumes Q_table: "Q s \<Longrightarrow> length (psWorker g) = length (psWorker (gWorkerAdmin s)) \<Longrightarrow> Q (s\<lparr>gWorkerAdmin := g\<rparr>)"
    and Q_zero: "Q s \<Longrightarrow> Q (s\<lparr>gWorkerAdmin := zero_admin\<rparr>)"
    and Q_flush: "Q s \<Longrightarrow> logger_flush E s = Ret r t \<Longrightarrow> Q t"
begin

lemma keep_slots: "preserves Q (put_slot i w)" "preserves Q (worker_at i)"
  by (auto simp: preserves_def put_slot_def worker_at_def intro: Q_table split: if_split_asm option.split_asm)

lemma keep_create: "sds_doc E \<Longrightarrow> preserves Q (worker_create_ipc_socket E i)"
  unfolding worker_create_ipc_socket_def
  by (intro preserves_rules keep_calls keep_slots keep_log) simp_all

lemma keep_flush: "preserves Q (logger_flush E)"
  by (auto simp: preserves_def intro: Q_flush)

end

text \<open>
  If moreover it does not depend on the socket, the settings and the routing, it is kept by
  everything the master does with them.
\<close>

locale master_invariant = table_invariant Q for Q :: "'a server_scheme \<Rightarrow> bool" +
  assumes Q_next: "Q s \<Longrightarrow> Q (s\<lparr>NextWorker := k\<rparr>)"
    and Q_loop: "Q s \<Longrightarrow> Q (s\<lparr>psWorkerEVLoop := l\<rparr>)"
    and Q_socket: "Q s \<Longrightarrow> Q (s\<lparr>iFd := fd\<rparr>)"
    and Q_settings: "Q s \<Longrightarrow> Q (s\<lparr>sCurrSSettings := c\<rparr>)"
begin

lemma keep_route: "sds_doc E \<Longrightarrow> preserves Q (worker_route_client E fd)"
  unfolding worker_route_client_def send_fd_to_worker_def
  by (intro preserves_rules preserves_modP keep_calls keep_slots keep_log Q_next) simp_all

lemma keep_accept: "sds_doc E \<Longrightarrow> preserves Q (socket_accept_client E)"
  unfolding socket_accept_client_def
  by (intro preserves_rules keep_calls keep_log keep_route) simp_all

lemma keep_setup: "sds_doc E \<Longrightarrow> preserves Q (socket_setup E p)"
  unfolding socket_setup_def ret_errno_def
  by (intro preserves_rules preserves_modP keep_calls keep_log Q_socket) simp_all

lemma keep_close: "sds_doc E \<Longrightarrow> preserves Q (socket_close E)"
  unfolding socket_close_def
  by (intro preserves_rules preserves_modP keep_calls keep_log Q_socket) simp_all

lemma keep_loop: "preserves Q (ev_suspend E)" "preserves Q (ev_loop_destroy E)" "preserves Q (free_loop E)"
  by (auto simp: preserves_def ev_suspend_def ev_loop_destroy_def free_loop_def Q_call Q_loop split: evloop.splits)

lemma keep_parts: "preserves Q (close_set E fd)" "preserves Q (unlink_sds E v)"
  unfolding close_set_def unlink_sds_def
  by (cases v; auto intro!: preserves_rules keep_calls)+

lemma keep_destroy_slot: "sds_doc E \<Longrightarrow> preserves Q (destroy_slot E i)"
  unfolding destroy_slot_def destroy_self_def destroy_other_def
  by (intro preserves_rules keep_calls keep_slots keep_log keep_loop keep_parts) simp_all

lemma keep_destroy: "sds_doc E \<Longrightarrow> preserves Q (worker_destroy E)"
  unfolding worker_destroy_def
  by (intro preserves_rules preserves_block preserves_modP keep_log)
    (auto intro: keep_destroy_slot Q_table)

lemma keep_settings: "sds_doc E \<Longrightarrow> preserves Q (settings_destroy E)"
  unfolding settings_destroy_def
  by (intro preserves_rules preserves_modP keep_calls keep_log Q_settings) simp_all

end

interpretation sane: master_invariant log_sane
proof unfold_locales
  fix E r and s t :: "'a server_scheme"
  assume "log_sane s" "logger_flush E s = Ret r t"
  then show "log_sane t" by (rule preservesD[OF preserves_sane_flush])
qed (simp_all add: log_sane_def)

lemma quiet_flush:
  assumes "quiet f s" and "logger_flush E s = Ret r t"
  shows "quiet f t"
proof -
  from assms(1) have "LoggerThread s = None" by (simp add: quiet_def)
  from logger_flush_none[OF this, of E] assms show ?thesis by (auto simp: quiet_def)
qed

interpretation quiet: master_invariant "quiet f" for f
proof unfold_locales
  fix E r and s t :: "'a server_scheme"
  assume "quiet f s" "logger_flush E s = Ret r t"
  then show "quiet f t" by (rule quiet_flush)
qed (simp_all add: quiet_def)

text \<open>The calls a process has made are never forgotten.\<close>

definition grown :: "call list \<Rightarrow> 'a server_scheme \<Rightarrow> bool" where
  "grown h s \<longleftrightarrow> prefix h (hist s)"

interpretation grown: master_invariant "grown h" for h
proof unfold_locales
  fix E r and s t :: "'a server_scheme"
  assume g: "grown h s" and r: "logger_flush E s = Ret r t"
  from keepsD[OF keeps_aside_thread(2) r] g show "grown h t" by (simp add: grown_def aside_def)
qed (simp_all add: grown_def)

section \<open>Claims\<close>

definition demo_server :: "tsWorkerStruct option list \<Rightarrow> 32 word \<Rightarrow> int \<Rightarrow> server" where
  "demo_server ws n fd = \<lparr>hist = [], errno = 0, pid = 1, sds_live = 0, gpcLogfile = SNull,
     sCurrLogSettings = default_log_settings, Head = [], LogfileFd = False, iDataInQueueCount = 0,
     iIsInitDone = False, iDoForceFlush = False, iShuttingDown = False, bTerminateProg = False,
     LoggerThread = None, logfile = [], terminal = [], lops = 0, stamps = 0, naps = 0,
     sCurrSSettings = zero_settings, cheap = Map.empty, fresh_addr = 5, io_on = {}, timer_on = {},
     gWorkerAdmin = \<lparr>uiCurrWorkers = n, psWorker = ws @ replicate (64 - length ws) None\<rparr>,
     NextWorker = -1, psWorkerEVLoop = LNull, iFd = fd\<rparr>"

text \<open>The buffer is large enough for every port.\<close>

lemma port_text_complete: "port_text iPort = dec_int (uint iPort)" "strtol10 (port_text iPort) = uint iPort"
proof -
  have b: "0 \<le> uint iPort" "uint iPort < 2 ^ 16" using uint_lt2p[of iPort] by simp_all
  have "unat iPort < 2 ^ LENGTH(16)" by (rule unsigned_less)
  then have "nat (uint iPort) < 10 ^ Suc 4" by simp
  then have "length (dec_nat (nat (uint iPort))) \<le> Suc 4" by (rule length_dec_nat)
  with b show p: "port_text iPort = dec_int (uint iPort)"
    by (simp add: port_text_def rendered_def snprintf_cut_def dec_int_def)
  show "strtol10 (port_text iPort) = uint iPort"
    unfolding p
  proof (rule strtol10_dec_int)
    have "LONG_MIN \<le> 0" "(2 :: int) ^ 16 \<le> LONG_MAX" by (simp_all add: LONG_MIN_def LONG_MAX_def)
    with b show "LONG_MIN \<le> uint iPort" "uint iPort \<le> LONG_MAX" by linarith+
  qed
qed

text \<open>Every call that opens the socket succeeds.\<close>

definition listen_ok :: "env \<Rightarrow> 16 word \<Rightarrow> int \<Rightarrow> bool" where
  "listen_ok E p fd \<longleftrightarrow> 0 < fd \<and> (\<forall>h. sr_val (os E h (Getaddrinfo (port_text p))) = 0 \<and>
     sr_val (os E h (Socket ''AF_INET'')) = fd \<and> sr_val (os E h (Setsockopt fd)) \<noteq> -1 \<and>
     0 \<le> sr_val (os E h (Bind fd (port_text p))) \<and> 0 \<le> sr_val (os E h (Listen fd BACKLOG)) \<and>
     sr_val (os E h (Fcntl_nonblock fd)) \<noteq> -1)"

definition setup_calls :: "16 word \<Rightarrow> int \<Rightarrow> call list" where
  "setup_calls p fd = [Getaddrinfo (port_text p), Socket ''AF_INET'', Setsockopt fd, Bind fd (port_text p),
     Freeaddrinfo, Listen fd BACKLOG, Fcntl_nonblock fd]"

lemma socket_setup_run:
  assumes "sds_doc E" and "listen_ok E p fd"
  shows "\<exists>t. socket_setup E p s = Ret (SOCK_EXIT_SUCCESS, Some fd) t \<and>
    outside_log t = (outside_log s)\<lparr>hist := hist s @ setup_calls p fd, iFd := fd\<rparr>"
proof -
  have ok: "\<And>h. sr_val (os E h (Getaddrinfo (port_text p))) = 0" "\<And>h. sr_val (os E h (Socket ''AF_INET'')) = fd"
    "\<And>h. sr_val (os E h (Setsockopt fd)) \<noteq> -1" "\<And>h. \<not> sr_val (os E h (Bind fd (port_text p))) < 0"
    "\<And>h. \<not> sr_val (os E h (Listen fd BACKLOG)) < 0" "\<And>h. sr_val (os E h (Fcntl_nonblock fd)) \<noteq> -1" "\<not> fd < 0"
    using assms(2) by (auto simp: listen_ok_def not_less)
  show ?thesis by (simp add: socket_setup_def ok setup_calls_def log_calls[OF assms(1)])
qed

text \<open>
  The reference for opening the socket: a list of calls is made in order up to the first one that
  fails, by the convention of that call. The result is the history then and whether one failed.
\<close>

definition call_failed :: "call \<Rightarrow> int \<Rightarrow> bool" where
  "call_failed c r = (case c of
      Getaddrinfo _ \<Rightarrow> r \<noteq> 0 | Socket _ \<Rightarrow> r < 0 | Setsockopt _ \<Rightarrow> r = -1 | Bind _ _ \<Rightarrow> r < 0
    | Listen _ _ \<Rightarrow> r < 0 | Fcntl_nonblock _ \<Rightarrow> r = -1 | _ \<Rightarrow> False)"

fun until_failure :: "env \<Rightarrow> call list \<Rightarrow> call list \<Rightarrow> call list \<times> bool" where
  "until_failure E h [] = (h, False)"
| "until_failure E h (c # cs) =
     (if call_failed c (sr_val (os E h c)) then (h @ [c], True) else until_failure E (h @ [c]) cs)"

text \<open>
  C20. Opening the socket, whatever the calls answer: the calls are made in order up to the first
  that fails. If one does, the function hands out nothing and returns \<^verbatim>\<open>errno\<close>, which is the
  error number that call left, if it left one; if none does, the socket listens on the requested
  port and its descriptor is handed out with \<^verbatim>\<open>SOCK_EXIT_SUCCESS\<close>. Apart from logging and
  the remembered descriptor nothing changes. The decimal text of every 16-bit port fits the buffer.
\<close>

theorem socket_setup_correct:
  assumes "sds_doc E"
  shows "let fd = sr_val (os E (hist s @ [Getaddrinfo (port_text p)]) (Socket ''AF_INET''));
      (h, failed) = until_failure E (hist s) (setup_calls p fd) in
    strtol10 (port_text p) = uint p \<and>
    (\<exists>t. socket_setup E p s = Ret (if failed then (errno t, None) else (SOCK_EXIT_SUCCESS, Some fd)) t \<and>
       outside_log t = (outside_log s)\<lparr>hist := h, iFd := (if length h = Suc (length (hist s)) then iFd s else fd)\<rparr> \<and>
       (failed \<and> sr_errno (os E (butlast h) (last h)) \<noteq> 0 \<longrightarrow> errno t = sr_errno (os E (butlast h) (last h))))"
proof -
  define fd where "fd = sr_val (os E (hist s @ [Getaddrinfo (port_text p)]) (Socket ''AF_INET''))"
  let ?h0 = "hist s @ [Getaddrinfo (port_text p), Socket ''AF_INET'']"
  let ?h1 = "?h0 @ [Setsockopt fd]" and ?h2 = "?h0 @ [Setsockopt fd, Bind fd (port_text p), Freeaddrinfo]"
  let ?h3 = "?h2 @ [Listen fd BACKLOG]"
  consider "sr_val (os E (hist s) (Getaddrinfo (port_text p))) \<noteq> 0"
    | "sr_val (os E (hist s) (Getaddrinfo (port_text p))) = 0" "fd < 0"
    | "sr_val (os E (hist s) (Getaddrinfo (port_text p))) = 0" "\<not> fd < 0" "sr_val (os E ?h0 (Setsockopt fd)) = -1"
    | "sr_val (os E (hist s) (Getaddrinfo (port_text p))) = 0" "\<not> fd < 0" "sr_val (os E ?h0 (Setsockopt fd)) \<noteq> -1"
        "sr_val (os E ?h1 (Bind fd (port_text p))) < 0"
    | "sr_val (os E (hist s) (Getaddrinfo (port_text p))) = 0" "\<not> fd < 0" "sr_val (os E ?h0 (Setsockopt fd)) \<noteq> -1"
        "\<not> sr_val (os E ?h1 (Bind fd (port_text p))) < 0" "sr_val (os E ?h2 (Listen fd BACKLOG)) < 0"
    | "sr_val (os E (hist s) (Getaddrinfo (port_text p))) = 0" "\<not> fd < 0" "sr_val (os E ?h0 (Setsockopt fd)) \<noteq> -1"
        "\<not> sr_val (os E ?h1 (Bind fd (port_text p))) < 0" "\<not> sr_val (os E ?h2 (Listen fd BACKLOG)) < 0"
        "sr_val (os E ?h3 (Fcntl_nonblock fd)) = -1"
    | "sr_val (os E (hist s) (Getaddrinfo (port_text p))) = 0" "\<not> fd < 0" "sr_val (os E ?h0 (Setsockopt fd)) \<noteq> -1"
        "\<not> sr_val (os E ?h1 (Bind fd (port_text p))) < 0" "\<not> sr_val (os E ?h2 (Listen fd BACKLOG)) < 0"
        "sr_val (os E ?h3 (Fcntl_nonblock fd)) \<noteq> -1"
    by blast
  then show ?thesis
    unfolding fd_def[symmetric]
    by cases (simp_all add: socket_setup_def ret_errno_def setup_calls_def call_failed_def errno_after_def Let_def
        port_text_complete(2) log_calls[OF assms] butlast_append flip: fd_def)
qed

text \<open>A machine on which every call succeeds, and one on which the port is taken.\<close>

definition demo_sockets :: "int \<Rightarrow> env" where
  "demo_sockets b = calm_env\<lparr>os := \<lambda>h c. (case c of
       Socket _ \<Rightarrow> \<lparr>sr_val = 7, sr_errno = 0, sr_data = []\<rparr>
     | Bind _ _ \<Rightarrow> \<lparr>sr_val = b, sr_errno = (if b < 0 then 98 else 0), sr_data = []\<rparr>
     | _ \<Rightarrow> \<lparr>sr_val = 0, sr_errno = 0, sr_data = []\<rparr>)\<rparr>"

theorem socket_setup_correct_witness:
  "(\<exists>t. socket_setup (demo_sockets 0) 65535 (demo_server [] 0 0) = Ret (0, Some 7) t \<and> iFd t = 7) \<and>
   (\<exists>t. socket_setup (demo_sockets (-1)) 80 (demo_server [] 0 0) = Ret (98, None) t \<and> last (hist t) = Bind 7 (port_text 80))"
proof -
  have d: "sds_doc (demo_sockets b)" for b by (simp add: demo_sockets_def calm_env_def documented_sds_def sds_doc_def)
  have i: "iFd t = fd \<and> hist t = h" if "outside_log t = (outside_log s)\<lparr>hist := h, iFd := fd\<rparr>" for s t :: server and h fd
    using arg_cong[OF that, of iFd] arg_cong[OF that, of hist] by (simp add: outside_log_def)
  from socket_setup_correct[OF d, of 0 "demo_server [] 0 0" 65535]
  have "\<exists>t. socket_setup (demo_sockets 0) 65535 (demo_server [] 0 0) = Ret (0, Some 7) t \<and> iFd t = 7"
    by (auto simp: demo_sockets_def setup_calls_def call_failed_def Let_def dest!: i)
  moreover from socket_setup_correct[OF d, of "-1" "demo_server [] 0 0" 80]
  have "\<exists>t. socket_setup (demo_sockets (-1)) 80 (demo_server [] 0 0) = Ret (98, None) t \<and> last (hist t) = Bind 7 (port_text 80)"
    by (auto simp: demo_sockets_def setup_calls_def call_failed_def Let_def dest!: i)
  ultimately show ?thesis by blast
qed

text \<open>
  A failed lookup can pass for success: \<^verbatim>\<open>getaddrinfo\<close> reports its errors in its
  result and need not touch \<^verbatim>\<open>errno\<close>; if that is 0, the caller is told that all went well,
  while there is no socket and no descriptor.
\<close>

lemma socket_setup_lookup_unnoticed:
  assumes "sr_val (os E (hist s) (Getaddrinfo (port_text p))) \<noteq> 0"
    and "sr_errno (os E (hist s) (Getaddrinfo (port_text p))) = 0" and "errno s = 0"
  shows "\<exists>t. socket_setup E p s = Ret (SOCK_EXIT_SUCCESS, None) t \<and> iFd t = iFd s \<and>
    hist t = hist s @ [Getaddrinfo (port_text p)]"
  using assms by (simp add: socket_setup_def ret_errno_def errno_after_def)

lemma socket_accept_run:
  assumes "sds_doc E" and "workers_up n s" and "NextWorker s = next_after n k"
    and "psWorker (gWorkerAdmin s) ! (k mod n) = Some w"
    and "sr_val (os E (hist s) (Accept (iFd s))) = fd" and "fd \<noteq> -1"
  shows "\<exists>t. socket_accept_client E s = Ret () t \<and>
    outside_log t = (outside_log s)\<lparr>hist := hist s @ [Accept (iFd s), Sendmsg_fd (iMasterIPCfd w) fd],
      NextWorker := next_after n (Suc k)\<rparr>"
proof -
  let ?u = "log_st E eDEBUG (rendered [FL ''Master. Got Callback from ev about a client.''] []) s"
  let ?v = "?u\<lparr>hist := hist s @ [Accept (iFd s)], errno := errno_after E (hist s) (Accept (iFd s)) (errno ?u)\<rparr>"
  let ?s = "log_st E eDEBUG (rendered [FL ''Sending fd:'', FD, FL '' to the worker.''] [AI fd]) ?v"
  have "workers_up n ?s" "NextWorker ?s = next_after n k" "psWorker (gWorkerAdmin ?s) ! (k mod n) = Some w"
    using assms(2-4) by (simp_all add: workers_up_def)
  from route_step[OF assms(1) this, of fd] obtain r t where
    "worker_route_client E fd ?s = Ret r t"
    "outside_log t = (outside_log ?s)\<lparr>hist := hist ?s @ [Sendmsg_fd (iMasterIPCfd w) fd],
      NextWorker := next_after n (Suc k)\<rparr>" by blast
  with assms(5,6) show ?thesis
    by (cases "r = 0") (simp_all add: socket_accept_client_def log_calls[OF assms(1)])
qed

lemma socket_accept_refused:
  assumes "sds_doc E" and "sr_val (os E (hist s) (Accept (iFd s))) = -1"
  shows "\<exists>t. socket_accept_client E s = Ret () t \<and>
    outside_log t = (outside_log s)\<lparr>hist := hist s @ [Accept (iFd s)]\<rparr>"
  using assms by (simp add: socket_accept_client_def log_calls[OF assms(1)])

end
