(* ===== verification/Process_Exit.thy ===== *)
theory Process_Exit
  imports Socket_Server
begin

text \<open>
  How a process ends, \<^verbatim>\<open>src/src/cew_exit.c\<close>: the clean-up of every component, in order, and
  the two functions that end the process with it.
\<close>

section \<open>Operations\<close>

definition exit_cleanup :: "env \<Rightarrow> ('a server_scheme, unit) prog" where
  "exit_cleanup E =
     seqP (socket_close E) (
     seqP (worker_destroy E) (
     seqP (settings_destroy E)
       (voidP (logger_destroy E))))"

definition do_exit :: "env \<Rightarrow> int \<Rightarrow> ('a server_scheme, unit) prog" where
  "do_exit E ciExitval =
     bindP (getP pid) (\<lambda>me.
     seqP (log_info E [FL ''Goodbye pid '', FD, FL ''!''] [AI me]) (
     seqP (exit_cleanup E) (
     seqP (callP E (Printf (''Bye :-)'' @ [CHR 0x0A])))
       (exitP ciExitval))))"

text \<open>The format names four values; three are passed.\<close>

definition do_exit_with_errno :: "env \<Rightarrow> int \<Rightarrow> ('a server_scheme, unit) prog" where
  "do_exit_with_errno E ciErrno =
     bindP (getP pid) (\<lambda>me.
     seqP (log_error E [FL ''Exit pid '', FD, FL '' with '', FD, FL '': '', FS, FL ''. Line '', FD, FL ''.'', FL [CHR 0x0A]]
             [AI me, AI ciErrno, AS (strerror_text E ciErrno)])
       (do_exit E ciErrno))"

section \<open>What they do\<close>

definition bye :: call where "bye = Printf (''Bye :-)'' @ [CHR 0x0A])"

text \<open>The socket's part of the clean-up.\<close>

definition socket_calls :: "int \<Rightarrow> call list" where
  "socket_calls fd = (if 0 < fd then [Close fd] else [])"

lemma socket_close_run:
  assumes "sds_doc E"
  shows "\<exists>t. socket_close E s = Ret 0 t \<and>
    outside_log t = (outside_log s)\<lparr>hist := hist s @ socket_calls (iFd s), iFd := (if 0 < iFd s then 0 else iFd s)\<rparr>"
proof (cases "0 < iFd s")
  case True
  with assms show ?thesis by (simp add: socket_close_def log_calls socket_calls_def)
next
  case False
  have "(outside_log s)\<lparr>hist := hist s, iFd := iFd s\<rparr> = outside_log s" by (cases s) (simp add: outside_log_def)
  with False assms show ?thesis by (simp add: socket_close_def log_calls socket_calls_def)
qed

text \<open>The fields the clean-up is about, read from the part outside the log.\<close>

lemma fields:
  assumes "outside_log t = x"
  shows "hist t = hist x" and "sds_live t = sds_live x" and "gWorkerAdmin t = gWorkerAdmin x"
    and "sCurrSSettings t = sCurrSSettings x" and "iFd t = iFd x" and "iIsInitDone t = iIsInitDone x"
    and "gpcLogfile t = gpcLogfile x" and "psWorkerEVLoop t = psWorkerEVLoop x" and "pid t = pid x"
    and "NextWorker t = NextWorker x"
  using assms by (auto simp: outside_log_def)

lemma outside_log_fields [simp]:
  "sCurrSSettings (outside_log s) = sCurrSSettings s" "iIsInitDone (outside_log s) = iIsInitDone s"
  "gpcLogfile (outside_log s) = gpcLogfile s"
  by (simp_all add: outside_log_def)

lemma exit_cleanup_master:
  assumes "sds_doc E" and "length (slots s) = WORKER_MAX_WORKERS" and "\<forall>x \<in> set (slots s). other_entry x"
    and "pcLogfile (sCurrSSettings s) \<noteq> SFreed"
  shows "\<exists>u. exit_cleanup E s = voidP (logger_destroy E) u \<and>
    hist u = destroy_trace E (hist s @ socket_calls (iFd s)) (slots s) \<and>
    gWorkerAdmin u = zero_admin \<and> sCurrSSettings u = zero_settings \<and> iFd u \<le> 0 \<and>
    sds_live u = sds_live s - sum_list (map slot_owns (slots s)) - owns (pcLogfile (sCurrSSettings s)) \<and>
    iIsInitDone u = iIsInitDone s \<and> gpcLogfile u = gpcLogfile s \<and>
    (\<forall>Q. master_invariant Q \<longrightarrow> Q s \<longrightarrow> Q u)"
proof -
  from socket_close_run[OF assms(1)] obtain t where t: "socket_close E s = Ret 0 t"
    "outside_log t = (outside_log s)\<lparr>hist := hist s @ socket_calls (iFd s), iFd := (if 0 < iFd s then 0 else iFd s)\<rparr>"
    by blast
  have ft: "slots t = slots s" "hist t = hist s @ socket_calls (iFd s)" "iFd t \<le> 0" "sds_live t = sds_live s"
    "sCurrSSettings t = sCurrSSettings s" "iIsInitDone t = iIsInitDone s" "gpcLogfile t = gpcLogfile s"
    using fields[OF t(2)] by (simp_all add: slots_def)
  with assms(2,3) worker_destroy_others[OF assms(1), of t] obtain v where
    v: "worker_destroy E t = Ret 0 v"
    "outside_log v = (outside_log t)\<lparr>hist := destroy_trace E (hist t) (slots t),
      sds_live := sds_live t - sum_list (map slot_owns (slots t)), gWorkerAdmin := zero_admin\<rparr>" by auto
  note fv = fields[OF v(2)]
  with ft assms(4) have "pcLogfile (sCurrSSettings v) \<noteq> SFreed" by simp
  from settings_destroy_run[OF assms(1) this] obtain u where u: "settings_destroy E v = Ret 0 u"
    "outside_log u = (outside_log v)\<lparr>sCurrSSettings := zero_settings,
      sds_live := sds_live v - owns (pcLogfile (sCurrSSettings v))\<rparr>" by blast
  have "\<forall>Q. master_invariant Q \<longrightarrow> Q s \<longrightarrow> Q u"
  proof (intro allI impI)
    fix Q :: "'a server_scheme \<Rightarrow> bool"
    assume Q: "master_invariant Q" "Q s"
    from preservesD[OF master_invariant.keep_close[OF Q(1) assms(1)] Q(2) t(1)] have "Q t" .
    from preservesD[OF master_invariant.keep_destroy[OF Q(1) assms(1)] this v(1)] have "Q v" .
    from preservesD[OF master_invariant.keep_settings[OF Q(1) assms(1)] this u(1)] show "Q u" .
  qed
  with fields[OF u(2)] fv ft t(1) v(1) u(1) show ?thesis
    by (intro exI[of _ u]) (simp add: exit_cleanup_def)
qed

lemma aside_fields:
  fixes s t :: "'a server_scheme"
  assumes "aside t = aside s"
  shows "hist t = hist s" and "pid t = pid s" and "gWorkerAdmin t = gWorkerAdmin s"
    and "sCurrSSettings t = sCurrSSettings s" and "iFd t = iFd s" and "psWorkerEVLoop t = psWorkerEVLoop s"
    and "NextWorker t = NextWorker s"
proof -
  from assms have m: "logger.more t = logger.more s" and h: "hist t = hist s" "pid t = pid s"
    by (simp_all add: aside_def)
  show "hist t = hist s" "pid t = pid s" by (rule h)+
  show "gWorkerAdmin t = gWorkerAdmin s" "sCurrSSettings t = sCurrSSettings s" "iFd t = iFd s"
    "psWorkerEVLoop t = psWorkerEVLoop s" "NextWorker t = NextWorker s"
    by (subst more_eq_upd[OF m], simp)+
qed

text \<open>The last part of the clean-up, in whatever state the logger is.\<close>

lemma logger_destroy_any:
  fixes s :: "'a server_scheme"
  assumes "sds_doc E" and "log_io_ok E" and "log_sane s" and "iIsInitDone s \<Longrightarrow> gpcLogfile s = SLive p"
  shows "\<exists>r t. logger_destroy E s = Ret r t \<and> aside t = aside s \<and> \<not> iIsInitDone t \<and>
    sds_live t = sds_live s - (if iIsInitDone s then 1 else 0) \<and> (LoggerThread s = None \<longrightarrow> logfile t = logfile s)"
proof (cases "iIsInitDone s")
  case False
  then show ?thesis by (simp add: logger_destroy_def)
next
  case True
  from logger_destroy_returns[OF assms(1,2) True assms(3) assms(4)[OF True]] obtain t where
    t: "logger_destroy E s = Ret 0 t" "\<not> iIsInitDone t" "sds_live t = sds_live s - 1" by blast
  have "logfile t = logfile s" if "LoggerThread s = None"
    using logger_destroy_forked[OF assms(1) True that assms(4)[OF True]] t(1) by auto
  with t True keepsD[OF keeps_aside_destroy t(1)] show ?thesis by auto
qed

lemma do_exit_run:
  fixes s :: "'a server_scheme"
  assumes "sds_doc E" and "log_io_ok E" and "log_sane s" and "iIsInitDone s \<Longrightarrow> gpcLogfile s = SLive p"
    and "length (slots s) = WORKER_MAX_WORKERS" and "\<forall>x \<in> set (slots s). other_entry x"
    and "pcLogfile (sCurrSSettings s) \<noteq> SFreed"
  shows "\<exists>t. do_exit E c s = Exited c t \<and>
    hist t = destroy_trace E (hist s @ socket_calls (iFd s)) (slots s) @ [bye] \<and>
    gWorkerAdmin t = zero_admin \<and> sCurrSSettings t = zero_settings \<and> iFd t \<le> 0 \<and> \<not> iIsInitDone t \<and>
    sds_live t = sds_live s - sum_list (map slot_owns (slots s)) - owns (pcLogfile (sCurrSSettings s)) -
      (if iIsInitDone s then 1 else 0) \<and>
    (LoggerThread s = None \<longrightarrow> logfile t = logfile s)"
proof -
  let ?s = "log_st E eINFO (rendered [FL ''Goodbye pid '', FD, FL ''!''] [AI (pid s)]) s"
  have p: "slots ?s = slots s" "iFd ?s = iFd s" "sCurrSSettings ?s = sCurrSSettings s"
    by (simp_all add: slots_def)
  with assms(5-7) have pre: "length (slots ?s) = WORKER_MAX_WORKERS" "\<forall>x \<in> set (slots ?s). other_entry x"
    "pcLogfile (sCurrSSettings ?s) \<noteq> SFreed" by simp_all
  from exit_cleanup_master[OF assms(1) pre] p obtain u where
    u: "exit_cleanup E ?s = voidP (logger_destroy E) u"
    "hist u = destroy_trace E (hist s @ socket_calls (iFd s)) (slots s)"
    "gWorkerAdmin u = zero_admin" "sCurrSSettings u = zero_settings" "iFd u \<le> 0"
    "sds_live u = sds_live s - sum_list (map slot_owns (slots s)) - owns (pcLogfile (sCurrSSettings s))"
    "iIsInitDone u = iIsInitDone s" "gpcLogfile u = gpcLogfile s"
    and Q: "\<And>Q. master_invariant Q \<Longrightarrow> Q ?s \<Longrightarrow> Q u" by auto
  have sane: "log_sane u" using Q[OF sane.master_invariant_axioms log_sane_log_st[OF assms(3)]] .
  have q: "LoggerThread u = None \<and> logfile u = logfile s" if "LoggerThread s = None"
    using Q[OF quiet.master_invariant_axioms, of "logfile s"] that by (simp add: quiet_def)
  from logger_destroy_any[OF assms(1,2) sane, of p] u(7,8) assms(4) obtain r t where
    t: "logger_destroy E u = Ret r t" "aside t = aside u" "\<not> iIsInitDone t"
    "sds_live t = sds_live u - (if iIsInitDone u then 1 else 0)" "LoggerThread u = None \<longrightarrow> logfile t = logfile u" by auto
  note f = aside_fields[OF t(2)]
  have "do_exit E c s = Exited c (t\<lparr>hist := hist t @ [bye], errno := errno_after E (hist t) bye (errno t)\<rparr>)"
    using u(1) t(1) by (simp add: do_exit_def log_calls[OF assms(1)] bye_def)
  with f t(3-5) u(2-7) q show ?thesis by simp
qed

section \<open>Claims\<close>

text \<open>
  C8. A master leaves nothing behind: if its logger is in order and its calls succeed, the table
  has its 64 slots and in them only workers other than this process, and no string it owns was
  freed before, then under any schedule of the logger's thread, and whatever the other calls
  answer, \<^verbatim>\<open>do_exit\<close> comes to an end. It
  closes the listening socket, stops and cleans up every worker in the order of the table, clears
  the settings, stops the logger, says goodbye and ends the process with the given status. Those
  are all the calls it makes, in this order, and it frees each string it owns exactly once.
\<close>

theorem do_exit_cleans_up:
  fixes s :: "'a server_scheme"
  assumes "sds_doc E" and "log_io_ok E" and "log_sane s" and "iIsInitDone s \<Longrightarrow> gpcLogfile s = SLive p"
    and "length (slots s) = WORKER_MAX_WORKERS"
    and "\<And>w. Some w \<in> set (slots s) \<Longrightarrow> iMe w = 0 \<and> IPCFile w \<noteq> SFreed"
    and "pcLogfile (sCurrSSettings s) \<noteq> SFreed"
  shows "\<exists>t. do_exit E ciExitval s = Exited ciExitval t \<and>
    hist t = destroy_trace E (hist s @ socket_calls (iFd s)) (slots s) @ [bye] \<and>
    gWorkerAdmin t = zero_admin \<and> sCurrSSettings t = zero_settings \<and> iFd t \<le> 0 \<and> \<not> iIsInitDone t \<and>
    sds_live t = sds_live s - sum_list (map slot_owns (slots s)) - owns (pcLogfile (sCurrSSettings s)) -
      (if iIsInitDone s then 1 else 0)"
proof -
  have "\<forall>x \<in> set (slots s). other_entry x"
    using assms(6) by (auto simp: other_entry_def split: option.split)
  from do_exit_run[OF assms(1-5) this assms(7)] show ?thesis by blast
qed

text \<open>A master with one worker, an open socket, and a running logger with a line in its queue.\<close>

definition demo_running :: server where
  "demo_running = (demo_server [Some (demo_entry 20)] 1 8)\<lparr>sds_live := 2, gpcLogfile := SLive ''/log'', Head := [''a''],
     iDataInQueueCount := 1, iIsInitDone := True,
     LoggerThread := Some \<lparr>pc = TPoll, iDataToWrite = 0, iDataWritten = 0\<rparr>\<rparr>"

lemma demo_running_ok:
  "slots demo_running = Some (demo_entry 20) # replicate 63 None" "hist demo_running = []" "iFd demo_running = 8"
  "pcLogfile (sCurrSSettings demo_running) = SNull" "iIsInitDone demo_running" "gpcLogfile demo_running = SLive ''/log''"
  "log_sane demo_running" "sds_live demo_running = 2" "LoggerThread demo_running \<noteq> None"
  by (simp_all add: demo_running_def demo_server_def slots_def zero_settings_def log_sane_def default_log_settings_def thread_ok_def)

theorem do_exit_cleans_up_witness:
  "\<exists>t. do_exit calm_env 3 demo_running = Exited 3 t \<and>
    hist t = [Close 8, Kill 20 SIGTERM, Waitpid 20, Close 21, Unlink ''/run/x'', Free ''worker'', bye] \<and>
    gWorkerAdmin t = zero_admin \<and> \<not> iIsInitDone t \<and> sds_live t = 0"
proof -
  note s = demo_running_ok
  have n: "destroy_trace E h (replicate k None) = h" for E h k by (induction k) simp_all
  have e: "iMe (demo_entry 20) = 0" "IPCFile (demo_entry 20) = SLive ''/run/x''" "iWorkerIPCfd (demo_entry 20) = 0"
    "iMasterIPCAccept (demo_entry 20) = 0" "iMasterIPCfd (demo_entry 20) = 21" "Pid (demo_entry 20) = 20"
    by (simp_all add: demo_entry_def zero_worker_def)
  have l: "length (slots demo_running) = WORKER_MAX_WORKERS" by (simp add: s WORKER_MAX_WORKERS_def)
  have o: "iMe w = 0 \<and> IPCFile w \<noteq> SFreed" if "Some w \<in> set (slots demo_running)" for w
    using that by (auto simp: s e)
  from do_exit_cleans_up[OF calm_env_simps(1) demo_logger_ok(1) s(7,6) l o, of 3] show ?thesis
    by (auto simp: s e n socket_calls_def stop_calls_def close_calls_def sds_path_def cstr_def slot_owns_def owns_def sum_list_replicate)
qed

text \<open>
  The error exit reads an argument that is not there: while the logger runs and has room,
  \<^verbatim>\<open>do_exit_with_errno\<close> is undefined behaviour before any clean-up; only when the message is
  refused does it do the same as \<^verbatim>\<open>do_exit\<close>.
\<close>

lemma do_exit_with_errno_undefined:
  shows "(is_msg_allowed eERROR s = 0 \<and> \<not> log_full s \<longrightarrow>
      do_exit_with_errno E e s = Fault MissingFormatArgument (s\<lparr>stamps := Suc (stamps s)\<rparr>))
    \<and> (is_msg_allowed eERROR s \<noteq> 0 \<longrightarrow> do_exit_with_errno E e s = do_exit E e s)"
  by (simp add: do_exit_with_errno_def log_error_def log_msg_bad_format)

end
