(* ===== verification/IPC_Handshake.thy ===== *)
theory IPC_Handshake
  imports Worker
begin

text \<open>
  How the master and a new worker meet: the master's \<^verbatim>\<open>worker_create_ipc_socket\<close> and the
  worker's \<^verbatim>\<open>workerp_connect_ipc_socket\<close> run in two processes at the same time. Each is run
  here against a kernel that shows it the calls the other has made so far; how far the other is
  at each call is an arbitrary schedule.
\<close>

section \<open>The master's side\<close>

definition ipc_master_calls :: "int \<Rightarrow> string \<Rightarrow> call list" where
  "ipc_master_calls fd file = [Socket ''AF_UNIX'', Stat WORKER_IPC_FOLDER, Unlink file,
     Bind fd (take BIND_PATH_LEN file), Chmod file, Listen fd 20, Accept fd]"

lemma put_slot_run:
  assumes "i < length (psWorker (gWorkerAdmin s))"
  shows "put_slot i w s = Ret () (s\<lparr>gWorkerAdmin := (gWorkerAdmin s)\<lparr>psWorker := (psWorker (gWorkerAdmin s))[i := w]\<rparr>\<rparr>)"
  using assms by (simp add: put_slot_def)

lemma worker_at_run:
  "i < length (psWorker (gWorkerAdmin s)) \<Longrightarrow> psWorker (gWorkerAdmin s) ! i = Some w \<Longrightarrow> worker_at i s = Ret w s"
  by (simp add: worker_at_def)

text \<open>The folder exists and every call of the master succeeds.\<close>

definition ipc_master_ok :: "env \<Rightarrow> bool" where
  "ipc_master_ok E \<longleftrightarrow> (\<forall>h fd p q.
     sr_val (os E h (Socket ''AF_UNIX'')) \<noteq> -1 \<and> sr_val (os E h (Stat p)) \<noteq> -1 \<and>
     sr_val (os E (h @ [Unlink q]) (Bind fd p)) \<noteq> -1 \<and> sr_val (os E h (Chmod p)) \<noteq> -1 \<and>
     sr_val (os E h (Listen fd 20)) \<noteq> -1 \<and> sr_val (os E (h @ [Listen fd 20]) (Accept fd)) \<noteq> -1)"

text \<open>The two descriptors the kernel hands out, after the calls \<open>h\<close>.\<close>

definition ipc_fd :: "env \<Rightarrow> call list \<Rightarrow> int" where
  "ipc_fd E h = sr_val (os E h (Socket ''AF_UNIX''))"

definition ipc_conn :: "env \<Rightarrow> call list \<Rightarrow> string \<Rightarrow> int" where
  "ipc_conn E h file =
     sr_val (os E (h @ butlast (ipc_master_calls (ipc_fd E h) file)) (Accept (ipc_fd E h)))"

abbreviation (input) ipc_entry :: "env \<Rightarrow> call list \<Rightarrow> string \<Rightarrow> tsWorkerStruct \<Rightarrow> tsWorkerStruct" where
  "ipc_entry E h file w \<equiv> w\<lparr>iMasterIPCAccept := ipc_fd E h, iMasterIPCfd := ipc_conn E h file\<rparr>"

lemma ipc_conn_ok:
  assumes "ipc_master_ok E"
  shows "ipc_conn E h file \<noteq> -1"
proof -
  have "h @ butlast (ipc_master_calls fd file) =
    (h @ butlast (butlast (ipc_master_calls fd file))) @ [Listen fd 20]" for fd
    by (simp add: ipc_master_calls_def)
  then show ?thesis using assms unfolding ipc_master_ok_def ipc_conn_def by metis
qed

lemma worker_create_ipc_run:
  assumes "sds_doc E" and "ipc_master_ok E" and "i < length (slots s)" and "slots s ! i = Some w"
    and "IPCFile w = SLive file" and "NUL \<notin> set file" and "length file < SUN_PATH_SIZE"
  shows "\<exists>t. worker_create_ipc_socket E i s = Ret EXIT_SUCCESS t \<and>
    outside_log t = (outside_log s)\<lparr>hist := hist s @ ipc_master_calls (ipc_fd E (hist s)) file,
      gWorkerAdmin := (gWorkerAdmin s)\<lparr>psWorker := (slots s)[i := Some (ipc_entry E (hist s) file w)]\<rparr>\<rparr>"
proof -
  have ok: "\<And>h. sr_val (os E h (Socket ''AF_UNIX'')) \<noteq> -1"
    "\<And>h p. sr_val (os E h (Stat p)) \<noteq> -1" "\<And>h fd p q. sr_val (os E (h @ [Unlink q]) (Bind fd p)) \<noteq> -1"
    "\<And>h p. sr_val (os E h (Chmod p)) \<noteq> -1" "\<And>h fd. sr_val (os E h (Listen fd 20)) \<noteq> -1"
    using assms(2) by (auto simp: ipc_master_ok_def)
  have bind: "sr_val (os E (hist s @ [x, y, Unlink q]) (Bind fd p)) \<noteq> -1" for x y q fd p
    using ok(3)[of "hist s @ [x, y]"] by simp
  note conn = ipc_conn_ok[OF assms(2), of "hist s" "file"]
  show ?thesis
    using assms(3-7) conn
    by (simp add: worker_create_ipc_socket_def worker_at_run put_slot_run log_calls[OF assms(1)] ok bind
        slots_def ipc_master_calls_def ipc_fd_def ipc_conn_def)
qed

text \<open>
  C21. Setting up the master's end: the old file is removed before the socket is bound, its
  permissions are narrowed before anybody can connect, and the master waits for the worker last;
  the two descriptors the kernel answers with are recorded for that worker and for no other.
\<close>

theorem worker_create_ipc_socket_correct:
  assumes "sds_doc E" and "ipc_master_ok E" and "i < length (slots s)" and "slots s ! i = Some w"
    and "IPCFile w = SLive file" and "NUL \<notin> set file" and "length file < SUN_PATH_SIZE"
  shows "\<exists>t. worker_create_ipc_socket E i s = Ret EXIT_SUCCESS t \<and>
    outside_log t = (outside_log s)\<lparr>hist := hist s @ ipc_master_calls (ipc_fd E (hist s)) file,
      gWorkerAdmin := (gWorkerAdmin s)\<lparr>psWorker := (slots s)[i := Some (ipc_entry E (hist s) file w)]\<rparr>\<rparr>"
  using assms by (rule worker_create_ipc_run)

definition ipc_demo_master :: env where
  "ipc_demo_master = calm_env\<lparr>os := \<lambda>h c. \<lparr>sr_val = (case c of Socket _ \<Rightarrow> 5 | Accept _ \<Rightarrow> 6 | _ \<Rightarrow> 0),
     sr_errno = 0, sr_data = []\<rparr>\<rparr>"

theorem worker_create_ipc_socket_correct_witness:
  "\<exists>t. worker_create_ipc_socket ipc_demo_master 0 (demo_worker [Some (demo_entry 20)] 0 LNull) = Ret 0 t \<and>
    hist t = ipc_master_calls 5 ''/run/x''"
proof -
  let ?s = "demo_worker [Some (demo_entry 20)] 0 LNull"
  have "sds_doc ipc_demo_master" "ipc_master_ok ipc_demo_master" "ipc_fd ipc_demo_master [] = 5"
    by (simp_all add: ipc_demo_master_def calm_env_def documented_sds_def sds_doc_def ipc_master_ok_def ipc_fd_def)
  moreover have "0 < length (slots ?s)" "slots ?s ! 0 = Some (demo_entry 20)" "hist ?s = []"
    by (simp_all add: slots_def demo_worker_def)
  ultimately show ?thesis
    using worker_create_ipc_socket_correct[of ipc_demo_master 0 ?s "demo_entry 20" "''/run/x''"]
    by (auto simp: demo_entry_def SUN_PATH_SIZE_def dest!: arg_cong[of "outside_log _" _ hist])
qed

section \<open>The worker's side\<close>

text \<open>
  The kernel as the worker sees it: when the worker makes its \<open>j\<close>-th call, the master has made
  the first \<open>m j\<close> of its calls. The file is there once the master has bound its socket; a
  connection is refused unless the master listens.
\<close>

definition ipc_kernel :: "env \<Rightarrow> (nat \<Rightarrow> nat) \<Rightarrow> int \<Rightarrow> string \<Rightarrow> env" where
  "ipc_kernel E m fd file = E\<lparr>os := \<lambda>h c.
     let past = set (take (m (length h)) (ipc_master_calls fd file)) in
     \<lparr>sr_val = (case c of
         Access p \<Rightarrow> if p = file \<and> Bind fd file \<in> past then 0 else -1
       | Connect w p \<Rightarrow> if p = file \<and> Listen fd 20 \<in> past then 0 else -1
       | Socket _ \<Rightarrow> 4
       | _ \<Rightarrow> 0), sr_errno = 0, sr_data = []\<rparr>\<rparr>"

lemma ipc_kernel_answers:
  "length file \<le> BIND_PATH_LEN \<Longrightarrow>
   sr_val (os (ipc_kernel E m fd file) h (Access file)) = (if 4 \<le> m (length h) then 0 else -1)"
  "sr_val (os (ipc_kernel E m fd file) h (Connect w file)) = (if 6 \<le> m (length h) then 0 else -1)"
  "sr_val (os (ipc_kernel E m fd file) h (Socket x)) = 4"
  "sr_val (os (ipc_kernel E m fd file) h (Fcntl_nonblock w)) = 0"
  by (auto simp: ipc_kernel_def Let_def ipc_master_calls_def take_Cons' numeral_eq_Suc split: if_splits)

text \<open>
  C22. The meeting is a race: the worker takes the socket file for the sign that it can
  connect, but the file is there from \<^verbatim>\<open>bind\<close> on, and connections are accepted from
  \<^verbatim>\<open>listen\<close> on. Whatever the schedule, a worker that sees the file gets through exactly if the
  master has called \<^verbatim>\<open>listen\<close> by the time of its one attempt; otherwise it gives up.
\<close>

theorem ipc_handshake_race:
  assumes "sds_doc E" and "i < length (slots s)" and "slots s ! i = Some w"
    and "IPCFile w = SLive file" and "NUL \<notin> set file" and "length file \<le> BIND_PATH_LEN"
    and "k < fuel E" and "m (length (hist s) + k) \<ge> 4" and "\<And>j. j < k \<Longrightarrow> m (length (hist s) + j) < 4"
  shows "\<exists>t. workerp_connect_ipc_socket (ipc_kernel E m fd file) i s =
      Ret (if 6 \<le> m (length (hist s) + k + 2) then EXIT_SUCCESS else EXIT_FAILURE) t \<and>
    hist t = hist s @ replicate (Suc k) (Access file) @ [Socket ''AF_UNIX'', Connect 4 file] @
      (if 6 \<le> m (length (hist s) + k + 2) then [Fcntl_nonblock 4] else [])"
proof -
  let ?E = "ipc_kernel E m fd file"
  have doc: "sds_doc ?E" using assms(1) by (simp add: sds_doc_def ipc_kernel_def)
  have fuel: "fuel ?E = fuel E" by (simp add: ipc_kernel_def)
  have "\<exists>e. wait_for_file ?E (fuel E) file u =
      Ret () (u\<lparr>hist := hist u @ replicate (Suc k) (Access file), errno := e\<rparr>)"
    if "hist u = hist s" for u :: "'a worker_scheme"
    unfolding wait_for_file_def
    using that assms(6-9) by (intro until_zero_run) (simp_all add: ipc_kernel_answers, force)
  then obtain e where e: "\<And>u :: 'a worker_scheme. hist u = hist s \<Longrightarrow> wait_for_file ?E (fuel E) file u =
      Ret () (u\<lparr>hist := hist u @ replicate (Suc k) (Access file), errno := e u\<rparr>)" by metis
  have "length file < SUN_PATH_SIZE" using assms(6) by (simp add: BIND_PATH_LEN_def SUN_PATH_SIZE_def)
  then show ?thesis
    using assms(2-6)
    by (simp add: workerp_connect_ipc_socket_def worker_at_run put_slot_run log_calls[OF doc] e fuel
        slots_def ipc_kernel_answers del: replicate_Suc)
qed

theorem ipc_handshake_race_witness:
  "\<exists>t. workerp_connect_ipc_socket (ipc_kernel calm_env (\<lambda>_. 5) 5 ''/run/x'') 0
      (demo_worker [Some (demo_entry 20)] 0 LNull) = Ret EXIT_FAILURE t \<and>
    hist t = [Access ''/run/x'', Socket ''AF_UNIX'', Connect 4 ''/run/x'']"
proof -
  let ?s = "demo_worker [Some (demo_entry 20)] 0 LNull"
  have "0 < length (slots ?s)" "slots ?s ! 0 = Some (demo_entry 20)" "hist ?s = []"
    by (simp_all add: slots_def demo_worker_def)
  then show ?thesis
    using ipc_handshake_race[OF calm_env_simps(1), of 0 ?s "demo_entry 20" "''/run/x''" 0 "\<lambda>_. 5" 5]
    by (simp add: demo_entry_def BIND_PATH_LEN_def SUN_PATH_SIZE_def)
qed

end
