(* ===== verification/Worker_Process.thy ===== *)
theory Worker_Process
  imports Process_Exit IPC_Handshake
begin

text \<open>
  The life of the workers, the rest of \<^verbatim>\<open>src/src/cew_worker.c\<close>: what runs inside a worker
  process from its start to its end, and how the master starts the workers.
  A fork is one call: its answer decides which of the two processes the rest of the program is.
\<close>

section \<open>Inside a worker\<close>

definition workerp_callback_exitsig :: "env \<Rightarrow> ('a server_scheme, unit) prog" where
  "workerp_callback_exitsig E = voidP (callP E Ev_break)"

definition workerp_ipc_callback :: "env \<Rightarrow> nat \<Rightarrow> ('a server_scheme, unit) prog" where
  "workerp_ipc_callback E i =
     bindP (worker_at i) (\<lambda>w.
     bindP (receive_fd_from_worker E w) (\<lambda>(r, fd).
     case fd of
       Some fd \<Rightarrow>
         if r = WORKER_EXIT_SUCCESS then
           seqP (log_debug E [FL ''Got callback with iFd:'', FD] [AI fd]) (
           bindP (client_register_ev E fd) (\<lambda>r.
           whenP (r \<noteq> EXIT_SUCCESS) (log_error E [FL ''Client registering failed''] [])))
         else log_error E [FL ''reading from ipc failed !''] []
     | None \<Rightarrow> log_error E [FL ''reading from ipc failed !''] []))"

text \<open>
  What libev delivers to a worker. \<^verbatim>\<open>ev_run\<close> calls back for started watchers until
  \<^verbatim>\<open>ev_break\<close>; when nothing more ever happens, it never returns.
\<close>

datatype wevent = EvIpc | EvReadable nat | EvTimeout nat | EvSigint

fun ev_run_worker :: "env \<Rightarrow> nat \<Rightarrow> wevent list \<Rightarrow> ('a server_scheme, unit) prog" where
  "ev_run_worker E i [] = stuckP"
| "ev_run_worker E i (EvSigint # evs) = workerp_callback_exitsig E"
| "ev_run_worker E i (EvIpc # evs) = seqP (workerp_ipc_callback E i) (ev_run_worker E i evs)"
| "ev_run_worker E i (EvReadable a # evs) =
     bindP (getP io_on) (\<lambda>on.
     seqP (whenP (a \<in> on) (client_callback_serve E a)) (ev_run_worker E i evs))"
| "ev_run_worker E i (EvTimeout a # evs) =
     bindP (getP timer_on) (\<lambda>on.
     seqP (whenP (a \<in> on) (client_callback_timeout E a)) (ev_run_worker E i evs))"

definition ev_default_loop :: "env \<Rightarrow> ('a worker_scheme, unit) prog" where
  "ev_default_loop E = bindP (callP E Ev_default_loop) (\<lambda>r.
     modP (\<lambda>s. s\<lparr>psWorkerEVLoop := (if r = 0 then LNull else LLive)\<rparr>))"

text \<open>The log file name as the logger takes it.\<close>

definition sds_arg :: "sds \<Rightarrow> ('a base_scheme, string option) prog" where
  "sds_arg v = (case v of SNull \<Rightarrow> retP None | SLive t \<Rightarrow> retP (Some (cstr t)) | SFreed \<Rightarrow> faultP UseAfterFree)"

text \<open>The part of the entry function that sets the event loop up and runs it.\<close>

definition workerp_serve :: "env \<Rightarrow> wevent list \<Rightarrow> nat \<Rightarrow> ('a server_scheme, unit) prog" where
  "workerp_serve E evs i =
     seqP (ev_default_loop E) (
     bindP (getP psWorkerEVLoop) (\<lambda>l.
     if l = LNull then faultP NullDereference
     else
       seqP (callP E (Ev_signal_start SIGINT)) (
       bindP (worker_at i) (\<lambda>w.
       seqP (callP E (Ev_io_start (iWorkerIPCfd w))) (
       seqP (ev_run_worker E i evs) (
       seqP (log_info E [FL ''Worker '', FD, FL '' done.''] [AI (sint (uiId w))])
         (do_exit E 0)))))))"

definition workerp_entry :: "env \<Rightarrow> wevent list \<Rightarrow> nat \<Rightarrow> ('a server_scheme, unit) prog" where
  "workerp_entry E evs i =
     bindP (worker_at i) (\<lambda>w.
     seqP (put_slot i (Some (w\<lparr>iMe := 1\<rparr>))) (
     seqP (logger_destroy E) (
     bindP settings_get (\<lambda>c.
     bindP (sds_arg (pcLogfile c)) (\<lambda>file.
     seqP (logger_init E file (ucast (lLogLevel c))) (
     bindP (worker_at i) (\<lambda>w.
     seqP (callP E (Close (iMasterIPCAccept w))) (
     seqP (callP E (Close (iMasterIPCfd w))) (
     bindP (getP pid) (\<lambda>me.
     seqP (put_slot i (Some (w\<lparr>iMasterIPCAccept := 0, iMasterIPCfd := 0, Pid := me\<rparr>))) (
     bindP (callP E (Chdir ''/'')) (\<lambda>r.
     seqP (whenP (r < 0) (do_exit E EXIT_FAILURE)) (
     seqP (log_info E [FL ''Worker '', FD, FL '' is running.''] [AI (sint (uiId w))]) (
     bindP (workerp_connect_ipc_socket E i) (\<lambda>r.
     seqP (whenP (r \<noteq> 0) (do_exit E EXIT_FAILURE))
       (workerp_serve E evs i))))))))))))))))"

section \<open>Starting the workers\<close>

text \<open>A child has its own process number and only the thread that forked.\<close>

definition forkP :: "env \<Rightarrow> ('a logger_scheme, int) prog" where
  "forkP E = bindP (getP hist) (\<lambda>h.
     bindP (callP E Fork) (\<lambda>r.
     seqP (whenP (r = 0) (modP (\<lambda>s. s\<lparr>pid := child_pid E (length h), LoggerThread := None\<rparr>)))
       (retP r)))"

text \<open>The label \<^verbatim>\<open>exit_free_worker\<close> and what follows it.\<close>

definition exit_free_worker :: "env \<Rightarrow> nat \<Rightarrow> ('a worker_scheme, int) prog" where
  "exit_free_worker E i =
     seqP (callP E (Free ''worker'')) (
     seqP (put_slot i None)
       (retP WORKER_EXIT_FAILURE))"

text \<open>The part of a round from the fork on.\<close>

definition fork_worker :: "env \<Rightarrow> wevent list \<Rightarrow> nat \<Rightarrow> sds \<Rightarrow> ('a server_scheme, int) prog" where
  "fork_worker E evs i v =
     bindP (forkP E) (\<lambda>child.
     if child = -1 then
       seqP (log_error E [FL ''Error forking for worker '', FD, FL ''.''] [AI (int i)])
         (exit_free_worker E i)
     else if child = 0 then
       bindP (getP pid) (\<lambda>me.
       seqP (log_debug E [FL ''fork: I am PID '', FD] [AI me]) (
       seqP (workerp_entry E evs i)
         (exitP EXIT_FAILURE)))
     else
       seqP (put_slot i (Some (zero_worker\<lparr>uiId := word_of_nat i, IPCFile := v, Pid := child\<rparr>))) (
       seqP (log_debug E [FL ''New worker '', FD, FL '' has pid '', FD, FL ''.''] [AI (int i), AI child]) (
       bindP (worker_create_ipc_socket E i) (\<lambda>r.
       if r \<noteq> 0 then exit_free_worker E i
       else
         seqP (modP (\<lambda>s. s\<lparr>gWorkerAdmin := (gWorkerAdmin s)\<lparr>uiCurrWorkers := uiCurrWorkers (gWorkerAdmin s) + 1\<rparr>\<rparr>))
           (retP WORKER_EXIT_SUCCESS)))))"

text \<open>One round of the loop; the result says whether the loop goes on.\<close>

definition add_worker :: "env \<Rightarrow> wevent list \<Rightarrow> nat \<Rightarrow> ('a server_scheme, int) prog" where
  "add_worker E evs i =
     seqP (log_debug E [FL ''Adding worker '', FD, FL '' to system.''] [AI (int i)]) (
     bindP (callP E (Malloc ''worker'')) (\<lambda>m.
     seqP (put_slot i (if m = 0 then None else Some zero_worker)) (
     if m = 0 then retP WORKER_EXIT_FAILURE
     else
       seqP (log_debug E [FL ''psWorker '', FD, FL '' @ 0x'', FX] [AI (int i), AI m]) (
       bindP (sds_new E []) (\<lambda>v.
       bindP (callP E Random) (\<lambda>rnd.
       bindP (sds_printf E v [FS, FL ''/'', FS, FL ''_'', FD] [AS WORKER_IPC_FOLDER, AS WORKER_IPC_FILE, AI rnd]) (\<lambda>v.
       seqP (put_slot i (Some (zero_worker\<lparr>uiId := word_of_nat i, IPCFile := v\<rparr>))) (
       seqP (logger_flush E)
         (fork_worker E evs i v)))))))))"

fun add_workers :: "env \<Rightarrow> wevent list \<Rightarrow> nat list \<Rightarrow> ('a server_scheme, int) prog" where
  "add_workers E evs [] =
     bindP (getP (\<lambda>s. uiCurrWorkers (gWorkerAdmin s))) (\<lambda>n.
     seqP (log_info E [FL ''Finished with spinning-up '', FD, FL '' workers!''] [AI (sint n)])
       (retP WORKER_EXIT_SUCCESS))"
| "add_workers E evs (i # is) =
     bindP (add_worker E evs i) (\<lambda>r.
     if r = WORKER_EXIT_SUCCESS then add_workers E evs is else retP r)"

definition worker_init :: "env \<Rightarrow> wevent list \<Rightarrow> int \<Rightarrow> ('a server_scheme, int) prog" where
  "worker_init E evs iWantedWorkers =
     seqP (modP (\<lambda>s. s\<lparr>gWorkerAdmin := zero_admin\<rparr>))
       (add_workers E evs [0..<nat iWantedWorkers])"

section \<open>How the start goes\<close>

text \<open>
  The calls the master makes for a worker succeed, the fork apart, and \<^verbatim>\<open>random\<close> answers in its
  documented range. The number of entries allocated so far says which worker a fork is for.
\<close>

definition start_calls_ok :: "env \<Rightarrow> bool" where
  "start_calls_ok E \<longleftrightarrow> ipc_master_ok E \<and> (\<forall>h. sr_val (os E h (Malloc ''worker'')) \<noteq> 0 \<and>
     0 \<le> sr_val (os E h Random) \<and> sr_val (os E h Random) < 2 ^ 31)"

definition started :: "call list \<Rightarrow> nat" where
  "started h = count_list h (Malloc ''worker'')"

text \<open>Every fork of a worker returns in the master.\<close>

definition start_ok :: "env \<Rightarrow> bool" where
  "start_ok E \<longleftrightarrow> start_calls_ok E \<and> (\<forall>h. 0 < started h \<longrightarrow> 0 < sr_val (os E h Fork))"

text \<open>The forks of the first \<open>k\<close> workers do, the next one fails.\<close>

definition fork_fails :: "env \<Rightarrow> nat \<Rightarrow> bool" where
  "fork_fails E k \<longleftrightarrow> start_calls_ok E \<and>
     (\<forall>h. (0 < started h \<and> started h \<le> k \<longrightarrow> 0 < sr_val (os E h Fork)) \<and>
          (started h = Suc k \<longrightarrow> sr_val (os E h Fork) = -1))"

lemma started_simps [simp]:
  "started [] = 0" "started (h @ g) = started h + started g"
  "started (c # h) = (if c = Malloc ''worker'' then Suc (started h) else started h)"
  by (simp_all add: started_def)

lemma started_pos: "0 < started h \<longleftrightarrow> Malloc ''worker'' \<in> set h"
  by (simp add: started_def count_list_0_iff zero_less_iff_neq_zero)

definition ipc_path :: "int \<Rightarrow> string" where
  "ipc_path rnd = WORKER_IPC_FOLDER @ ''/'' @ WORKER_IPC_FILE @ ''_'' @ dec_int rnd"

lemma ipc_path_ok:
  assumes "0 \<le> rnd" and "rnd < 2 ^ 31"
  shows "NUL \<notin> set (ipc_path rnd)" and "length (ipc_path rnd) < SUN_PATH_SIZE"
proof -
  show "NUL \<notin> set (ipc_path rnd)" by (simp add: ipc_path_def WORKER_IPC_FOLDER_def WORKER_IPC_FILE_def)
  have "nat rnd < 10 ^ Suc 9" using assms by simp
  then have "length (dec_nat (nat rnd)) \<le> Suc 9" by (rule length_dec_nat)
  then show "length (ipc_path rnd) < SUN_PATH_SIZE"
    using assms by (simp add: ipc_path_def WORKER_IPC_FOLDER_def WORKER_IPC_FILE_def SUN_PATH_SIZE_def dec_int_def)
qed

text \<open>What the entry of a running worker looks like in the master.\<close>

definition entry_up :: "nat \<Rightarrow> tsWorkerStruct option \<Rightarrow> bool" where
  "entry_up i x \<longleftrightarrow> (\<exists>w rnd. x = Some w \<and> uiId w = word_of_nat i \<and> 0 < Pid w \<and>
     iMasterIPCfd w \<noteq> -1 \<and> iMe w = 0 \<and> IPCFile w = SLive (ipc_path rnd))"

lemma log_sane_worker [simp]: "log_sane (s\<lparr>gWorkerAdmin := g\<rparr>) = log_sane s"
  by (simp add: log_sane_def)

lemma forkP_parent:
  "sr_val (os E (hist s) Fork) > 0 \<Longrightarrow> \<exists>e. forkP E s = Ret (sr_val (os E (hist s) Fork)) (s\<lparr>hist := hist s @ [Fork], errno := e\<rparr>)"
  by (auto simp: forkP_def)

lemma fork_worker_run:
  assumes "sds_doc E" and "start_calls_ok E" and "log_sane s" and "i < length (slots s)"
    and "0 \<le> rnd" and "rnd < 2 ^ 31" and "0 < sr_val (os E (hist s) Fork)"
  shows "\<exists>t x. fork_worker E evs i (SLive (ipc_path rnd)) s = Ret WORKER_EXIT_SUCCESS t \<and> log_sane t \<and>
    entry_up i x \<and> started (hist t) = started (hist s) \<and> sds_live t = sds_live s \<and> gWorkerAdmin t =
      (gWorkerAdmin s)\<lparr>uiCurrWorkers := uiCurrWorkers (gWorkerAdmin s) + 1, psWorker := (slots s)[i := x]\<rparr>"
proof -
  let ?p = "sr_val (os E (hist s) Fork)"
  have p: "0 < ?p" and ipc: "ipc_master_ok E" using assms(2,7) by (auto simp: start_calls_ok_def)
  from forkP_parent[OF p] obtain e where e: "forkP E s = Ret ?p (s\<lparr>hist := hist s @ [Fork], errno := e\<rparr>)" ..
  define w where "w = zero_worker\<lparr>uiId := word_of_nat i, IPCFile := SLive (ipc_path rnd), Pid := ?p\<rparr>"
  define u where "u = log_st E eDEBUG (rendered [FL ''New worker '', FD, FL '' has pid '', FD, FL ''.''] [AI (int i), AI ?p])
    (s\<lparr>hist := hist s @ [Fork], errno := e, gWorkerAdmin := (gWorkerAdmin s)\<lparr>psWorker := (slots s)[i := Some w]\<rparr>\<rparr>)"
  have u: "log_sane u" "gWorkerAdmin u = (gWorkerAdmin s)\<lparr>psWorker := (slots s)[i := Some w]\<rparr>"
    "hist u = hist s @ [Fork]" "sds_live u = sds_live s"
    using assms(3) by (simp_all add: u_def log_sane_log_st)
  have at: "i < length (slots u)" "slots u ! i = Some w" using assms(4) u(2) by (simp_all add: slots_def)
  have w: "IPCFile w = SLive (ipc_path rnd)" "uiId w = word_of_nat i" "Pid w = ?p" "iMe w = 0"
    by (simp_all add: w_def zero_worker_def)
  from worker_create_ipc_run[OF assms(1) ipc at w(1) ipc_path_ok[OF assms(5,6)]] obtain t where
    t: "worker_create_ipc_socket E i u = Ret 0 t"
    "outside_log t = (outside_log u)\<lparr>hist := hist u @ ipc_master_calls (ipc_fd E (hist u)) (ipc_path rnd),
      gWorkerAdmin := (gWorkerAdmin u)\<lparr>psWorker := (slots u)[i := Some (ipc_entry E (hist u) (ipc_path rnd) w)]\<rparr>\<rparr>"
    by blast
  let ?x = "Some (ipc_entry E (hist u) (ipc_path rnd) w)"
  have g: "gWorkerAdmin t = (gWorkerAdmin s)\<lparr>psWorker := (slots s)[i := ?x]\<rparr>"
    using arg_cong[OF t(2), of gWorkerAdmin] u(2) by (simp add: slots_def)
  have h: "started (hist t) = started (hist s)" "sds_live t = sds_live s"
    using fields(1,2)[OF t(2)] u(3,4) by (simp_all add: ipc_master_calls_def)
  have "log_sane t" using preservesD[OF sane.keep_create[OF assms(1)] u(1) t(1)] .
  moreover have "entry_up i ?x" using w p ipc_conn_ok[OF ipc] by (auto simp: entry_up_def)
  moreover have "fork_worker E evs i (SLive (ipc_path rnd)) s = Ret 0
      (t\<lparr>gWorkerAdmin := (gWorkerAdmin t)\<lparr>uiCurrWorkers := uiCurrWorkers (gWorkerAdmin t) + 1\<rparr>\<rparr>)"
    using p assms(4) t(1)
    by (simp add: fork_worker_def e put_slot_run log_calls[OF assms(1)] slots_def u_def w_def)
  ultimately show ?thesis using g h by (intro exI[of _ ?x] exI) (auto simp: slots_def)
qed

text \<open>A failed fork frees the entry, not the name of its socket file.\<close>

lemma fork_worker_fails:
  assumes "sds_doc E" and "i < length (slots s)" and "log_sane s" and "sr_val (os E (hist s) Fork) = -1"
  shows "\<exists>t. fork_worker E evs i v s = Ret WORKER_EXIT_FAILURE t \<and> log_sane t \<and>
    hist t = hist s @ [Fork, Free ''worker''] \<and> sds_live t = sds_live s \<and>
    gWorkerAdmin t = (gWorkerAdmin s)\<lparr>psWorker := (slots s)[i := None]\<rparr>"
  using assms
  by (simp add: fork_worker_def forkP_def exit_free_worker_def log_calls[OF assms(1)] put_slot_run slots_def log_sane_log_st)

text \<open>
  When the master cannot make the socket for a worker it has just forked, it forgets the worker:
  the entry with its process number is freed, and nothing is sent to the process.
\<close>

lemma fork_worker_orphans:
  assumes "sds_doc E" and "i < length (slots s)" and "0 < sr_val (os E (hist s) Fork)"
    and "sr_val (os E (hist s @ [Fork]) (Socket ''AF_UNIX'')) = -1"
  shows "\<exists>t. fork_worker E evs i (SLive f) s = Ret WORKER_EXIT_FAILURE t \<and>
    hist t = hist s @ [Fork, Socket ''AF_UNIX'', Free ''worker''] \<and> sds_live t = sds_live s \<and>
    gWorkerAdmin t = (gWorkerAdmin s)\<lparr>psWorker := (slots s)[i := None]\<rparr>"
proof -
  from forkP_parent[OF assms(3)] obtain e where
    "forkP E s = Ret (sr_val (os E (hist s) Fork)) (s\<lparr>hist := hist s @ [Fork], errno := e\<rparr>)" ..
  with assms show ?thesis
    by (simp add: fork_worker_def worker_create_ipc_socket_def exit_free_worker_def log_calls[OF assms(1)] put_slot_run
        worker_at_run slots_def)
qed

text \<open>One round up to the fork.\<close>

lemma add_worker_to_fork:
  fixes s :: "'a server_scheme"
  assumes "sds_doc E" and "log_io_ok E" and "start_calls_ok E" and "log_sane s" and "i < length (slots s)"
  shows "\<exists>(v :: 'a server_scheme) rnd w. add_worker E evs i s = fork_worker E evs i (SLive (ipc_path rnd)) v \<and>
    0 \<le> rnd \<and> rnd < 2 ^ 31 \<and> log_sane v \<and> hist v = hist s @ [Malloc ''worker'', Random] \<and>
    sds_live v = sds_live s + 1 \<and> gWorkerAdmin v = (gWorkerAdmin s)\<lparr>psWorker := (slots s)[i := Some w]\<rparr>"
proof -
  have m: "\<And>h. sr_val (os E h (Malloc ''worker'')) \<noteq> 0"
    and r: "\<And>h. 0 \<le> sr_val (os E h Random)" "\<And>h. sr_val (os E h Random) < 2 ^ 31"
    using assms(3) by (auto simp: start_calls_ok_def)
  define a where "a = log_st E eDEBUG (rendered [FL ''Adding worker '', FD, FL '' to system.''] [AI (int i)]) s"
  define m0 where "m0 = sr_val (os E (hist s) (Malloc ''worker''))"
  define b where "b = log_st E eDEBUG (rendered [FL ''psWorker '', FD, FL '' @ 0x'', FX] [AI (int i), AI m0])
    (a\<lparr>hist := hist s @ [Malloc ''worker''], errno := errno_after E (hist s) (Malloc ''worker'') (errno a),
       gWorkerAdmin := (gWorkerAdmin s)\<lparr>psWorker := (slots s)[i := Some zero_worker]\<rparr>\<rparr>)"
  define rnd where "rnd = sr_val (os E (hist s @ [Malloc ''worker'']) Random)"
  define w where "w = zero_worker\<lparr>uiId := word_of_nat i, IPCFile := SLive (ipc_path rnd)\<rparr>"
  define u where "u = b\<lparr>sds_live := sds_live s + 1, hist := hist s @ [Malloc ''worker'', Random],
    errno := errno_after E (hist s @ [Malloc ''worker'']) Random (errno b),
    gWorkerAdmin := (gWorkerAdmin s)\<lparr>psWorker := (slots s)[i := Some w]\<rparr>\<rparr>"
  have fields_ab: "hist a = hist s" "gWorkerAdmin a = gWorkerAdmin s" "sds_live a = sds_live s"
    "hist b = hist s @ [Malloc ''worker'']" "sds_live b = sds_live s"
    "gWorkerAdmin b = (gWorkerAdmin s)\<lparr>psWorker := (slots s)[i := Some zero_worker]\<rparr>"
    by (simp_all add: a_def b_def)
  have "vformat [FS, FL ''/'', FS, FL ''_'', FD] [AS WORKER_IPC_FOLDER, AS WORKER_IPC_FILE, AI rnd] = Some (ipc_path rnd)"
    by (simp add: ipc_path_def)
  from sds_printf_live[OF assms(1) this, of "[]"]
  have pr: "sds_printf E (SLive []) [FS, FL ''/'', FS, FL ''_'', FD] [AS WORKER_IPC_FOLDER, AS WORKER_IPC_FILE, AI rnd] x =
    Ret (SLive (ipc_path rnd)) x" for x :: "'a server_scheme" by simp
  have run: "add_worker E evs i s = bindP (logger_flush E) (\<lambda>_. fork_worker E evs i (SLive (ipc_path rnd))) u"
    using assms(5) m[of "hist s"]
    by (simp add: add_worker_def log_calls[OF assms(1)] put_slot_run sds_docD[OF assms(1)] slots_def pr fields_ab
        u_def b_def flip: a_def m0_def rnd_def w_def)
  have "log_sane u" using assms(4) by (simp add: u_def b_def a_def log_sane_log_st)
  from log_sane_flush[OF assms(2) this] obtain v where
    v: "logger_flush E u = Ret 0 v" "log_sane v" "outside_log v = outside_log u" by blast
  have "hist v = hist s @ [Malloc ''worker'', Random]" "sds_live v = sds_live s + 1"
    "gWorkerAdmin v = (gWorkerAdmin s)\<lparr>psWorker := (slots s)[i := Some w]\<rparr>"
    using fields(1-3)[OF v(3)] by (simp_all add: u_def)
  moreover have "add_worker E evs i s = fork_worker E evs i (SLive (ipc_path rnd)) v" using run v(1) by simp
  moreover have "0 \<le> rnd" "rnd < 2 ^ 31" using r by (simp_all add: rnd_def)
  ultimately show ?thesis using v(2) by blast
qed

lemma add_worker_run:
  fixes s :: "'a server_scheme"
  assumes "sds_doc E" and "log_io_ok E" and "start_calls_ok E" and "log_sane s" and "i < length (slots s)"
    and "\<And>h. started h = Suc (started (hist s)) \<Longrightarrow> 0 < sr_val (os E h Fork)"
  shows "\<exists>t x. add_worker E evs i s = Ret WORKER_EXIT_SUCCESS t \<and> log_sane t \<and> entry_up i x \<and>
    started (hist t) = Suc (started (hist s)) \<and> sds_live t = sds_live s + 1 \<and>
    gWorkerAdmin t = (gWorkerAdmin s)\<lparr>uiCurrWorkers := uiCurrWorkers (gWorkerAdmin s) + 1, psWorker := (slots s)[i := x]\<rparr>"
proof -
  from add_worker_to_fork[OF assms(1-5), of evs] obtain v :: "'a server_scheme" and rnd w where
    v: "add_worker E evs i s = fork_worker E evs i (SLive (ipc_path rnd)) v" "0 \<le> rnd" "rnd < 2 ^ 31" "log_sane v"
    "hist v = hist s @ [Malloc ''worker'', Random]" "sds_live v = sds_live s + 1"
    "gWorkerAdmin v = (gWorkerAdmin s)\<lparr>psWorker := (slots s)[i := Some w]\<rparr>" by blast
  have "i < length (slots v)" "0 < sr_val (os E (hist v) Fork)"
    using assms(5,6) v(5,7) by (simp_all add: slots_def)
  from fork_worker_run[OF assms(1,3) v(4) this(1) v(2,3) this(2), of evs] v show ?thesis
    by (auto simp: slots_def)
qed

definition table_up :: "nat \<Rightarrow> 'a server_scheme \<Rightarrow> bool" where
  "table_up k s \<longleftrightarrow> log_sane s \<and> length (slots s) = WORKER_MAX_WORKERS \<and>
     uiCurrWorkers (gWorkerAdmin s) = word_of_nat k \<and> (\<forall>j < k. entry_up j (slots s ! j)) \<and>
     (\<forall>j. k \<le> j \<and> j < WORKER_MAX_WORKERS \<longrightarrow> slots s ! j = None)"

lemma table_up_step:
  assumes "table_up k s" and "k < WORKER_MAX_WORKERS" and "log_sane t" and "entry_up k x"
    and "gWorkerAdmin t = (gWorkerAdmin s)\<lparr>uiCurrWorkers := uiCurrWorkers (gWorkerAdmin s) + 1, psWorker := (slots s)[k := x]\<rparr>"
  shows "table_up (Suc k) t"
proof -
  have t: "slots t = (slots s)[k := x]" "uiCurrWorkers (gWorkerAdmin t) = uiCurrWorkers (gWorkerAdmin s) + 1"
    using assms(5) by (simp_all add: slots_def)
  with assms(1-4) show ?thesis
    unfolding table_up_def t by (auto simp: nth_list_update less_Suc_eq add.commute)
qed

lemma table_up_workers: "table_up n t \<Longrightarrow> 0 < n \<Longrightarrow> n \<le> WORKER_MAX_WORKERS \<Longrightarrow> workers_up n t"
  by (force simp: workers_up_def table_up_def slots_def entry_up_def)

lemma add_workers_until:
  assumes "sds_doc E" and "log_io_ok E" and "start_calls_ok E" and "table_up k s"
    and "k + n \<le> WORKER_MAX_WORKERS"
    and "\<And>h. started (hist s) < started h \<Longrightarrow> started h \<le> started (hist s) + n \<Longrightarrow> 0 < sr_val (os E h Fork)"
  shows "\<exists>t. add_workers E evs ([k..<k + n] @ rest) s = add_workers E evs rest t \<and> table_up (k + n) t \<and>
    started (hist t) = started (hist s) + n \<and> sds_live t = sds_live s + int n"
  using assms(4-)
proof (induction n arbitrary: k s)
  case 0
  then show ?case by auto
next
  case (Suc n)
  have k: "k < length (slots s)" "k < WORKER_MAX_WORKERS" "log_sane s"
    using Suc.prems(1,2) by (auto simp: table_up_def)
  from add_worker_run[OF assms(1-3) k(3,1) Suc.prems(3), of evs] obtain t x where
    t: "add_worker E evs k s = Ret 0 t" "log_sane t" "entry_up k x"
    "gWorkerAdmin t = (gWorkerAdmin s)\<lparr>uiCurrWorkers := uiCurrWorkers (gWorkerAdmin s) + 1, psWorker := (slots s)[k := x]\<rparr>"
    "started (hist t) = Suc (started (hist s))" "sds_live t = sds_live s + 1"
    by fastforce
  from table_up_step[OF Suc.prems(1) k(2) t(2-4)] have "table_up (Suc k) t" .
  from Suc.IH[OF this] Suc.prems(2,3) t(5) obtain u where
    u: "add_workers E evs ([Suc k..<Suc k + n] @ rest) t = add_workers E evs rest u" "table_up (Suc k + n) u"
    "started (hist u) = started (hist t) + n" "sds_live u = sds_live t + int n" by auto
  have "[k..<k + Suc n] = k # [Suc k..<Suc k + n]" using upt_conv_Cons[of k "k + Suc n"] by simp
  with t(1,5,6) u show ?case by (auto simp del: upt_Suc)
qed

lemma add_workers_run:
  assumes "sds_doc E" and "log_io_ok E" and "start_ok E" and "table_up k s"
    and "k + n \<le> WORKER_MAX_WORKERS"
  shows "\<exists>t. add_workers E evs ([k..<k + n] @ rest) s = add_workers E evs rest t \<and> table_up (k + n) t \<and>
    sds_live t = sds_live s + int n"
proof -
  have ok: "start_calls_ok E" "\<And>h. 0 < started h \<Longrightarrow> 0 < sr_val (os E h Fork)" using assms(3) by (auto simp: start_ok_def)
  have "0 < sr_val (os E h Fork)" if "started (hist s) < started h" for h using ok(2) that by simp
  with add_workers_until[OF assms(1,2) ok(1) assms(4,5), of evs rest] show ?thesis by blast
qed

lemma table_up_start: "log_sane s \<Longrightarrow> table_up 0 (s\<lparr>gWorkerAdmin := zero_admin\<rparr>)"
  by (simp add: table_up_def slots_def zero_admin_def)

section \<open>What starting the workers leaves alone\<close>

text \<open>A fork returns twice, but only the master comes back from \<^verbatim>\<open>worker_init\<close>.\<close>

context table_invariant
begin

lemma keep_free_worker: "preserves Q (exit_free_worker E i)"
  unfolding exit_free_worker_def by (intro preserves_rules keep_calls keep_slots)

lemma keep_fork_worker:
  assumes "sds_doc E"
  shows "preserves Q (fork_worker E evs i v)"
proof (unfold preserves_def, intro allI impI)
  fix s t :: "'a server_scheme" and a
  assume s: "Q s" and t: "fork_worker E evs i v s = Ret a t"
  define r where "r = sr_val (os E (hist s) Fork)"
  define u where "u = s\<lparr>hist := hist s @ [Fork], errno := errno_after E (hist s) Fork (errno s)\<rparr>"
  have "r \<noteq> 0"
  proof
    assume "r = 0"
    with t show False
      by (auto simp: fork_worker_def forkP_def r_def log_calls[OF assms] split: outcome.split_asm)
  qed
  then have f: "forkP E s = Ret r u" by (simp add: forkP_def r_def u_def)
  have "preserves Q (if r = -1 then
      seqP (log_error E [FL ''Error forking for worker '', FD, FL ''.''] [AI (int i)]) (exit_free_worker E i)
    else
      seqP (put_slot i (Some (zero_worker\<lparr>uiId := word_of_nat i, IPCFile := v, Pid := r\<rparr>))) (
      seqP (log_debug E [FL ''New worker '', FD, FL '' has pid '', FD, FL ''.''] [AI (int i), AI r]) (
      bindP (worker_create_ipc_socket E i) (\<lambda>x.
      if x \<noteq> 0 then exit_free_worker E i
      else
        seqP (modP (\<lambda>s. s\<lparr>gWorkerAdmin := (gWorkerAdmin s)\<lparr>uiCurrWorkers := uiCurrWorkers (gWorkerAdmin s) + 1\<rparr>\<rparr>))
          (retP WORKER_EXIT_SUCCESS)))))" (is "preserves Q ?rest")
    by (intro preserves_rules preserves_modP keep_slots keep_log[OF assms] keep_create[OF assms] keep_free_worker)
      (simp_all add: Q_table)
  moreover have "?rest u = Ret a t"
    using t f \<open>r \<noteq> 0\<close> by (simp add: fork_worker_def del: seqP_apply if_split) (auto simp: fork_worker_def)
  moreover have "Q u" using s by (simp add: u_def Q_call)
  ultimately show "Q t" by (blast dest: preservesD)
qed

lemma keep_add_worker:
  assumes "sds_doc E"
  shows "preserves Q (add_worker E evs i)"
  unfolding add_worker_def
  by (intro preserves_rules keep_calls keep_slots keep_log[OF assms] keep_flush keep_fork_worker[OF assms]) simp_all

lemma keep_add_workers:
  assumes "sds_doc E"
  shows "preserves Q (add_workers E evs is)"
  by (induction "is"; unfold add_workers.simps)
    (intro preserves_rules keep_log[OF assms] keep_add_worker[OF assms]; simp)+

lemma keep_worker_init:
  assumes "sds_doc E"
  shows "preserves Q (worker_init E evs n)"
  unfolding worker_init_def
  by (intro preserves_rules preserves_modP keep_add_workers[OF assms]) (rule Q_zero)

end

text \<open>The rest of the master's variables.\<close>

definition rest_of :: "'a server_scheme \<Rightarrow> 32 word \<times> int \<times> tsSSettings \<times> bool \<times> sds \<times> evloop" where
  "rest_of s = (NextWorker s, iFd s, sCurrSSettings s, iIsInitDone s, gpcLogfile s, psWorkerEVLoop s)"

interpretation rest: table_invariant "\<lambda>s. rest_of s = x" for x
proof unfold_locales
  fix E r and s t :: "'a server_scheme"
  assume "rest_of s = x" and r: "logger_flush E s = Ret r t"
  from outside_log_flush[of E s] r have "outside_log t = outside_log s" by simp
  from fields[OF this] \<open>rest_of s = x\<close> show "rest_of t = x" by (simp add: rest_of_def)
qed (simp_all add: rest_of_def)

lemma worker_init_run:
  assumes "sds_doc E" and "log_io_ok E" and "start_ok E" and "log_sane s" and "n \<le> WORKER_MAX_WORKERS"
  shows "\<exists>t. worker_init E evs (int n) s = Ret WORKER_EXIT_SUCCESS t \<and> table_up n t \<and>
    rest_of t = rest_of s \<and> prefix (hist s) (hist t) \<and> sds_live t = sds_live s + int n"
proof -
  have "0 + n \<le> WORKER_MAX_WORKERS" using assms(5) by simp
  from add_workers_run[OF assms(1-3) table_up_start[OF assms(4)] this, of evs "[]"] obtain t where
    t: "add_workers E evs [0..<n] (s\<lparr>gWorkerAdmin := zero_admin\<rparr>) = add_workers E evs [] t"
    "table_up n t" "sds_live t = sds_live s + int n" by auto
  let ?t = "log_st E eINFO (rendered [FL ''Finished with spinning-up '', FD, FL '' workers!'']
    [AI (sint (uiCurrWorkers (gWorkerAdmin t)))]) t"
  have run: "worker_init E evs (int n) s = Ret 0 ?t"
    using t(1) by (simp add: worker_init_def log_calls[OF assms(1)])
  have "table_up n ?t" using t(2) by (simp add: table_up_def slots_def log_sane_log_st)
  moreover have "rest_of ?t = rest_of s" using preservesD[OF rest.keep_worker_init[OF assms(1)] refl run] .
  moreover have "grown (hist s) ?t"
    using preservesD[OF grown.keep_worker_init[OF assms(1)] _ run, of "hist s"] by (simp add: grown_def)
  ultimately show ?thesis using run t(3) by (auto simp: grown_def)
qed

text \<open>
  When a fork fails, the workers before stay, and the name of one socket file is lost.
\<close>

lemma worker_init_fork_fails:
  assumes "sds_doc E" and "log_io_ok E" and "fork_fails E k" and "log_sane s"
    and "k < n" and "n \<le> WORKER_MAX_WORKERS" and "started (hist s) = 0"
  shows "\<exists>t. worker_init E evs (int n) s = Ret WORKER_EXIT_FAILURE t \<and> table_up k t \<and>
    rest_of t = rest_of s \<and> prefix (hist s) (hist t) \<and> sds_live t = sds_live s + int k + 1"
proof -
  have ok: "start_calls_ok E" "\<And>h. 0 < started h \<Longrightarrow> started h \<le> k \<Longrightarrow> 0 < sr_val (os E h Fork)"
    "\<And>h. started h = Suc k \<Longrightarrow> sr_val (os E h Fork) = -1" using assms(3) by (auto simp: fork_fails_def)
  let ?s = "s\<lparr>gWorkerAdmin := zero_admin\<rparr>"
  have split: "[0..<n] = [0..<0 + k] @ k # [Suc k..<n]"
    using assms(5) upt_add_eq_append[of 0 k "n - k"] upt_conv_Cons[of k n] by simp
  have "0 + k \<le> WORKER_MAX_WORKERS" using assms(5,6) by simp
  from add_workers_until[OF assms(1,2) ok(1) table_up_start[OF assms(4)] this, of evs "k # [Suc k..<n]"] obtain a where
    a: "add_workers E evs [0..<n] ?s = add_workers E evs (k # [Suc k..<n]) a" "table_up k a"
    "started (hist a) = k" "sds_live a = sds_live s + int k" using ok(2) assms(7) unfolding split by auto
  have at: "log_sane a" "k < length (slots a)" "slots a ! k = None" using a(2) assms(5,6) by (auto simp: table_up_def)
  from add_worker_to_fork[OF assms(1,2) ok(1) at(1,2), of evs] obtain v rnd w where
    v: "add_worker E evs k a = fork_worker E evs k (SLive (ipc_path rnd)) v" "log_sane v"
    "hist v = hist a @ [Malloc ''worker'', Random]" "sds_live v = sds_live a + 1"
    "gWorkerAdmin v = (gWorkerAdmin a)\<lparr>psWorker := (slots a)[k := Some w]\<rparr>" by blast
  have "k < length (slots v)" using v(5) at(2) by (simp add: slots_def)
  from fork_worker_fails[OF assms(1) this v(2) ok(3), of evs "SLive (ipc_path rnd)"] v(3) a(3) obtain t where
    t: "fork_worker E evs k (SLive (ipc_path rnd)) v = Ret 1 t" "log_sane t" "sds_live t = sds_live v"
    "gWorkerAdmin t = (gWorkerAdmin v)\<lparr>psWorker := (slots v)[k := None]\<rparr>" by auto
  have run: "worker_init E evs (int n) s = Ret 1 t" using a(1) v(1) t(1) by (simp add: worker_init_def)
  have "(slots a)[k := None] = slots a" using at(3) list_update_id[of "slots a" k] by simp
  then have "gWorkerAdmin t = gWorkerAdmin a" using t(4) v(5) by (simp add: slots_def)
  then have "table_up k t" using a(2) t(2) by (simp add: table_up_def slots_def)
  moreover have "rest_of t = rest_of s" using preservesD[OF rest.keep_worker_init[OF assms(1)] refl run] .
  moreover have "grown (hist s) t"
    using preservesD[OF grown.keep_worker_init[OF assms(1)] _ run, of "hist s"] by (simp add: grown_def)
  ultimately show ?thesis using run t(3) v(4) a(4) by (auto simp: grown_def)
qed

section \<open>A worker from start to end\<close>

text \<open>What the callbacks of a worker leave alone: the table, the loop, the listening socket.\<close>

definition wview :: "'a server_scheme \<Rightarrow> tsWorkerAdmin \<times> evloop \<times> int" where
  "wview s = (gWorkerAdmin s, psWorkerEVLoop s, iFd s)"

lemma keeps_more_wview:
  fixes m :: "('a server_scheme, 'v) prog"
  assumes "keeps logger.more m"
  shows "keeps wview m"
proof -
  have v: "wview t = wview s" if "logger.more t = logger.more s" for s t :: "'a server_scheme"
    by (subst more_eq_upd[OF that]) (simp add: wview_def)
  from assms have "logger.more (final (m s)) = logger.more s" for s by (simp add: keeps_def)
  from v[OF this] show ?thesis unfolding keeps_def by blast
qed

lemma keeps_wview_clients:
  "keeps wview (ev_io_start E a)" "keeps wview (ev_io_stop E a)" "keeps wview (ev_timer_start E a)"
  "keeps wview (ev_timer_again E a)" "keeps wview (ev_timer_stop E a)" "keeps wview (put_client a c)"
  "keeps wview (free_client E a)" "keeps wview (modP (\<lambda>s. s\<lparr>fresh_addr := n\<rparr>))"
  by (simp_all add: keeps_def wview_def ev_defs put_client_def free_client_def)

lemma keeps_more_worker_at [frame]: "keeps logger.more (worker_at i)"
  unfolding worker_at_def by (intro keeps_rules)

lemma keeps_wview_deregister: "keeps wview (client_deregister E a)"
  unfolding client_deregister_def
  by (intro keeps_rules keeps_wview_clients keeps_more_wview frame)

lemma keeps_wview_callbacks:
  "keeps wview (client_callback_timeout E a)" "keeps wview (client_callback_serve E a)"
  "keeps wview (client_register_ev E fd)"
  unfolding client_callback_timeout_def client_callback_serve_def client_register_ev_def
    client_disconnect_def client_request_def Let_def
  by (intro keeps_rules keeps_wview_clients keeps_wview_deregister keeps_more_wview frame)+

lemma keeps_wview_ipc: "keeps wview (workerp_ipc_callback E i)"
  unfolding workerp_ipc_callback_def receive_fd_from_worker_def
  by (intro keeps_rules keeps_wview_callbacks keeps_more_wview frame)

lemma keeps_wview_loop: "keeps wview (ev_run_worker E i evs)"
proof (induction evs)
  case Nil
  show ?case unfolding ev_run_worker.simps by (rule keeps_trivial)
next
  case (Cons ev evs)
  show ?case
    by (cases ev; simp only: ev_run_worker.simps workerp_callback_exitsig_def)
      (intro keeps_rules keeps_wview_ipc keeps_wview_callbacks keeps_more_wview frame Cons)+
qed

lemma logger_init_returns: "\<exists>r t. logger_init E p lvl s = Ret r t"
  by (simp add: logger_init_def split: option.split)

text \<open>The end of a worker: the clean-up stops at its own entry.\<close>

lemma do_exit_own:
  assumes "sds_doc E" and "length (slots s) = WORKER_MAX_WORKERS" and "slots s = sibs @ Some me # rest"
    and "\<forall>x \<in> set sibs. other_entry x" and "iMe me \<noteq> 0" and "psWorkerEVLoop s = LLive"
  shows "\<exists>t. do_exit E c s = Fault DoubleFree t \<and>
    hist t = destroy_trace E (hist s @ socket_calls (iFd s)) sibs @ [Ev_suspend, Ev_loop_destroy]"
proof -
  let ?s = "log_st E eINFO (rendered [FL ''Goodbye pid '', FD, FL ''!''] [AI (pid s)]) s"
  from socket_close_run[OF assms(1), of ?s] obtain t where
    t: "socket_close E ?s = Ret 0 t"
    "outside_log t = (outside_log ?s)\<lparr>hist := hist ?s @ socket_calls (iFd ?s), iFd := (if 0 < iFd ?s then 0 else iFd ?s)\<rparr>"
    by blast
  have f: "slots t = slots s" "psWorkerEVLoop t = LLive" "hist t = hist s @ socket_calls (iFd s)"
    using fields[OF t(2)] assms(6) by (simp_all add: slots_def)
  from worker_destroy_own[OF assms(1), of t sibs me rest] assms(2-5) f obtain u where
    "worker_destroy E t = Fault DoubleFree u"
    "hist u = destroy_trace E (hist s @ socket_calls (iFd s)) sibs @ [Ev_suspend, Ev_loop_destroy]" by auto
  with t(1) assms(1) show ?thesis by (simp add: do_exit_def exit_cleanup_def log_calls)
qed

text \<open>Every call a starting worker makes succeeds, and its socket file is there.\<close>

definition worker_start_ok :: "env \<Rightarrow> int \<Rightarrow> string \<Rightarrow> bool" where
  "worker_start_ok E wfd file \<longleftrightarrow> wfd \<noteq> -1 \<and> 0 < fuel E \<and> (\<forall>h.
     0 \<le> sr_val (os E h (Chdir ''/'')) \<and> sr_val (os E h (Access file)) = 0 \<and>
     sr_val (os E h (Socket ''AF_UNIX'')) = wfd \<and> sr_val (os E h (Connect wfd file)) = 0 \<and>
     sr_val (os E h (Fcntl_nonblock wfd)) = 0 \<and> sr_val (os E h Ev_default_loop) \<noteq> 0)"

definition worker_start_calls :: "tsWorkerStruct \<Rightarrow> int \<Rightarrow> string \<Rightarrow> call list" where
  "worker_start_calls w wfd file = [Close (iMasterIPCAccept w), Close (iMasterIPCfd w), Chdir ''/'',
     Access file, Socket ''AF_UNIX'', Connect wfd file, Fcntl_nonblock wfd, Ev_default_loop,
     Ev_signal_start SIGINT, Ev_io_start wfd]"

lemma workerp_connect_run:
  assumes "sds_doc E" and "worker_start_ok E wfd file" and "i < length (slots s)" and "slots s ! i = Some w"
    and "IPCFile w = SLive file" and "NUL \<notin> set file" and "length file < SUN_PATH_SIZE"
  shows "\<exists>t. workerp_connect_ipc_socket E i s = Ret EXIT_SUCCESS t \<and>
    outside_log t = (outside_log s)\<lparr>hist := hist s @ [Access file, Socket ''AF_UNIX'', Connect wfd file, Fcntl_nonblock wfd],
      gWorkerAdmin := (gWorkerAdmin s)\<lparr>psWorker := (slots s)[i := Some (w\<lparr>iWorkerIPCfd := wfd\<rparr>)]\<rparr>\<rparr>"
proof -
  have ok: "wfd \<noteq> -1" "\<And>h. sr_val (os E h (Access file)) = 0" "\<And>h. sr_val (os E h (Socket ''AF_UNIX'')) = wfd"
    "\<And>h. sr_val (os E h (Connect wfd file)) = 0" "\<And>h. sr_val (os E h (Fcntl_nonblock wfd)) = 0"
    and "0 < fuel E"
    using assms(2) by (auto simp: worker_start_ok_def)
  then obtain n where n: "fuel E = Suc n" by (cases "fuel E") auto
  show ?thesis
    using assms(3-7)
    by (simp add: workerp_connect_ipc_socket_def worker_at_run put_slot_run log_calls[OF assms(1)] ok n
        wait_for_file_def slots_def)
qed

text \<open>The logger of a child is stopped and started again, which nothing else notices.\<close>

lemma logger_restart:
  fixes s :: "'a server_scheme"
  assumes "sds_doc E" and "\<not> iIsInitDone s \<or> LoggerThread s = None \<and> gpcLogfile s = SLive p"
  shows "\<exists>r t. logger_destroy E s = Ret r t \<and> aside t = aside s \<and> (\<forall>f lvl. \<exists>r u. logger_init E f lvl t = Ret r u \<and> aside u = aside s)"
proof -
  obtain r t where t: "logger_destroy E s = Ret r t"
    using assms(2) logger_destroy_forked[OF assms(1), of s p]
    by (cases "iIsInitDone s") (auto simp: logger_destroy_def)
  from keepsD[OF keeps_aside_destroy t] have "aside t = aside s" .
  moreover have "\<exists>r u. logger_init E f lvl t = Ret r u \<and> aside u = aside s" for f lvl
    using logger_init_returns[of E f lvl t] keepsD[OF keeps_aside_init] calculation by metis
  ultimately show ?thesis using t by blast
qed

text \<open>Up to the connection: a new logger, the descriptors of the entry closed, the entry filled in.\<close>

lemma workerp_entry_prepare:
  fixes s :: "'a server_scheme"
  assumes "sds_doc E" and "worker_start_ok E wfd file" and "i < length (slots s)" and "slots s ! i = Some w"
    and "\<not> iIsInitDone s \<or> LoggerThread s = None \<and> gpcLogfile s = SLive p"
    and "pcLogfile (sCurrSSettings s) \<noteq> SFreed"
    and "w2 = w\<lparr>iMe := 1, iMasterIPCAccept := 0, iMasterIPCfd := 0, Pid := pid s\<rparr>"
  shows "\<exists>d :: 'a server_scheme. workerp_entry E evs i s = bindP (workerp_connect_ipc_socket E i) (\<lambda>r.
      seqP (whenP (r \<noteq> 0) (do_exit E EXIT_FAILURE)) (workerp_serve E evs i)) d \<and>
    hist d = hist s @ [Close (iMasterIPCAccept w), Close (iMasterIPCfd w), Chdir ''/''] \<and>
    gWorkerAdmin d = (gWorkerAdmin s)\<lparr>psWorker := (slots s)[i := Some w2]\<rparr> \<and> iFd d = iFd s"
proof -
  let ?w = "w\<lparr>iMe := 1\<rparr>"
  let ?g = "\<lambda>x. (gWorkerAdmin s)\<lparr>psWorker := (slots s)[i := Some x]\<rparr>"
  define a where "a = s\<lparr>gWorkerAdmin := ?g ?w\<rparr>"
  have "\<not> iIsInitDone a \<or> LoggerThread a = None \<and> gpcLogfile a = SLive p"
    using assms(5) by (simp add: a_def)
  from logger_restart[OF assms(1) this] obtain r b where b: "logger_destroy E a = Ret r b" "aside b = aside a"
    "\<And>f lvl. \<exists>r u. logger_init E f lvl b = Ret r u \<and> aside u = aside a" by blast
  have set: "sCurrSSettings b = sCurrSSettings s" using aside_fields(4)[OF b(2)] by (simp add: a_def)
  obtain f where f: "sds_arg (pcLogfile (sCurrSSettings s)) x = Ret f x" for x :: "'a server_scheme"
    using assms(6) by (cases "pcLogfile (sCurrSSettings s)") (auto simp: sds_arg_def)
  from b(3)[of f "ucast (lLogLevel (sCurrSSettings s))"] obtain r' c where
    c: "logger_init E f (ucast (lLogLevel (sCurrSSettings s))) b = Ret r' c" "aside c = aside a" by blast
  have fc: "hist c = hist s" "gWorkerAdmin c = ?g ?w" "iFd c = iFd s" "pid c = pid s"
    using aside_fields[OF c(2)] by (simp_all add: a_def)
  have cd: "\<not> sr_val (os E hh (Chdir ''/'')) < 0" for hh using assms(2) by (auto simp: worker_start_ok_def not_less)
  let ?h1 = "hist s @ [Close (iMasterIPCAccept w)]" and ?h2 = "hist s @ [Close (iMasterIPCAccept w), Close (iMasterIPCfd w)]"
  let ?h = "hist s @ [Close (iMasterIPCAccept w), Close (iMasterIPCfd w), Chdir ''/'']"
  let ?c = "c\<lparr>gWorkerAdmin := ?g w2, hist := ?h, errno := errno_after E ?h2 (Chdir ''/'')
      (errno_after E ?h1 (Close (iMasterIPCfd w)) (errno_after E (hist s) (Close (iMasterIPCAccept w)) (errno c)))\<rparr>"
  let ?d = "log_st E eINFO (rendered [FL ''Worker '', FD, FL '' is running.''] [AI (sint (uiId w))]) ?c"
  have d: "hist ?d = ?h" "gWorkerAdmin ?d = ?g w2" "iFd ?d = iFd s" using fc by simp_all
  have "worker_at i s = Ret w s" "put_slot i (Some ?w) s = Ret () a"
    using assms(3,4) by (simp_all add: worker_at_def put_slot_def slots_def a_def)
  moreover have "worker_at i c = Ret ?w c" using assms(3) fc(2) by (simp add: worker_at_def slots_def)
  ultimately have "workerp_entry E evs i s = bindP (workerp_connect_ipc_socket E i) (\<lambda>r.
    seqP (whenP (r \<noteq> 0) (do_exit E EXIT_FAILURE)) (workerp_serve E evs i)) ?d"
    using assms(3) b(1) set f c(1) fc cd
    by (simp add: workerp_entry_def settings_get_def put_slot_run log_calls[OF assms(1)] assms(7) slots_def)
  with d show ?thesis by blast
qed

lemma workerp_entry_run:
  fixes s :: "'a server_scheme"
  assumes "sds_doc E" and "worker_start_ok E wfd file" and "i < length (slots s)" and "slots s ! i = Some w"
    and "IPCFile w = SLive file" and "NUL \<notin> set file" and "length file < SUN_PATH_SIZE"
    and "\<not> iIsInitDone s \<or> LoggerThread s = None \<and> gpcLogfile s = SLive p"
    and "pcLogfile (sCurrSSettings s) \<noteq> SFreed"
  shows "\<exists>me. \<exists>u :: 'a server_scheme.
    workerp_entry E evs i s = bindP (ev_run_worker E i evs) (\<lambda>_.
       seqP (log_info E [FL ''Worker '', FD, FL '' done.''] [AI (sint (uiId me))]) (do_exit E 0)) u \<and>
    hist u = hist s @ worker_start_calls w wfd file \<and> slots u = (slots s)[i := Some me] \<and>
    iMe me = 1 \<and> psWorkerEVLoop u = LLive \<and> iFd u = iFd s"
proof -
  define w2 where "w2 = w\<lparr>iMe := 1, iMasterIPCAccept := 0, iMasterIPCfd := 0, Pid := pid s\<rparr>"
  from workerp_entry_prepare[OF assms(1-4,8,9) w2_def, of evs] obtain d :: "'a server_scheme" where
    d: "workerp_entry E evs i s = bindP (workerp_connect_ipc_socket E i) (\<lambda>r.
      seqP (whenP (r \<noteq> 0) (do_exit E EXIT_FAILURE)) (workerp_serve E evs i)) d"
    "hist d = hist s @ [Close (iMasterIPCAccept w), Close (iMasterIPCfd w), Chdir ''/'']"
    "gWorkerAdmin d = (gWorkerAdmin s)\<lparr>psWorker := (slots s)[i := Some w2]\<rparr>" "iFd d = iFd s" by blast
  have loop: "sr_val (os E hh Ev_default_loop) \<noteq> 0" for hh using assms(2) by (auto simp: worker_start_ok_def)
  have at: "i < length (slots d)" "slots d ! i = Some w2" "IPCFile w2 = SLive file"
    using assms(3,5) d(3) by (simp_all add: slots_def w2_def)
  from workerp_connect_run[OF assms(1,2) at assms(6,7)] obtain t where
    t: "workerp_connect_ipc_socket E i d = Ret 0 t"
    "outside_log t = (outside_log d)\<lparr>hist := hist d @ [Access file, Socket ''AF_UNIX'', Connect wfd file, Fcntl_nonblock wfd],
      gWorkerAdmin := (gWorkerAdmin d)\<lparr>psWorker := (slots d)[i := Some (w2\<lparr>iWorkerIPCfd := wfd\<rparr>)]\<rparr>\<rparr>" by blast
  let ?me = "w2\<lparr>iWorkerIPCfd := wfd\<rparr>"
  have ft: "hist t = hist d @ [Access file, Socket ''AF_UNIX'', Connect wfd file, Fcntl_nonblock wfd]"
    "gWorkerAdmin t = (gWorkerAdmin s)\<lparr>psWorker := (slots s)[i := Some ?me]\<rparr>" "iFd t = iFd s"
    using fields[OF t(2)] d(3,4) by (simp_all add: slots_def)
  then have wt: "psWorker (gWorkerAdmin t) ! i = Some ?me" "i < length (psWorker (gWorkerAdmin t))"
    using assms(3) by (simp_all add: slots_def)
  define u where "u = t\<lparr>psWorkerEVLoop := LLive, hist := hist t @ [Ev_default_loop, Ev_signal_start SIGINT, Ev_io_start wfd],
    errno := errno_after E (hist t @ [Ev_default_loop, Ev_signal_start SIGINT]) (Ev_io_start wfd)
      (errno_after E (hist t @ [Ev_default_loop]) (Ev_signal_start SIGINT)
        (errno_after E (hist t) Ev_default_loop (errno t)))\<rparr>"
  have "workerp_entry E evs i s = bindP (ev_run_worker E i evs) (\<lambda>_.
       seqP (log_info E [FL ''Worker '', FD, FL '' done.''] [AI (sint (uiId ?me))]) (do_exit E 0)) u"
    using t(1) loop[of "hist t"] wt
    by (simp add: d(1) workerp_serve_def ev_default_loop_def worker_at_def u_def)
  moreover have "hist u = hist s @ worker_start_calls w wfd file" "psWorkerEVLoop u = LLive" "iFd u = iFd s"
    "slots u = (slots s)[i := Some ?me]" "iMe ?me = 1"
    using ft d(2) by (simp_all add: u_def worker_start_calls_def slots_def w2_def)
  ultimately show ?thesis by blast
qed

section \<open>Claims\<close>

text \<open>
  C11. Starting the workers: when the calls succeed, \<^verbatim>\<open>worker_init\<close> returns in the master with
  exactly the wanted number of workers in the first slots, each with its index, a process number,
  its own socket file and a connection; the other slots are empty, and the counter agrees, so
  that routing works from then on.
\<close>

theorem worker_init_starts_all:
  assumes "sds_doc E" and "log_io_ok E" and "start_ok E" and "log_sane s"
    and "0 \<le> n" and "n \<le> int WORKER_MAX_WORKERS"
  shows "\<exists>t. worker_init E evs n s = Ret WORKER_EXIT_SUCCESS t \<and>
    uiCurrWorkers (gWorkerAdmin t) = word_of_nat (nat n) \<and> length (slots t) = WORKER_MAX_WORKERS \<and>
    (\<forall>j < nat n. entry_up j (slots t ! j)) \<and>
    (\<forall>j. nat n \<le> j \<and> j < WORKER_MAX_WORKERS \<longrightarrow> slots t ! j = None) \<and>
    (0 < n \<longrightarrow> workers_up (nat n) t)"
proof -
  from assms(5,6) have n: "nat n \<le> WORKER_MAX_WORKERS" "int (nat n) = n" by simp_all
  from worker_init_run[OF assms(1-4) n(1), of evs] obtain t where
    t: "worker_init E evs n s = Ret 0 t" "table_up (nat n) t" unfolding n(2) by blast
  moreover have "workers_up (nat n) t" if "0 < n"
    using table_up_workers[OF t(2)] that n(1) by simp
  ultimately show ?thesis by (auto simp: table_up_def)
qed

definition demo_start :: env where
  "demo_start = ipc_demo_master\<lparr>os := \<lambda>h c. (case c of
       Fork \<Rightarrow> \<lparr>sr_val = 100 + int (length h), sr_errno = 0, sr_data = []\<rparr>
     | Malloc x \<Rightarrow> \<lparr>sr_val = 1, sr_errno = 0, sr_data = []\<rparr>
     | _ \<Rightarrow> os ipc_demo_master h c)\<rparr>"

lemma demo_start_ok: "sds_doc demo_start" "log_io_ok demo_start" "start_ok demo_start"
  by (simp_all add: demo_start_def ipc_demo_master_def calm_env_def documented_sds_def sds_doc_def
      log_io_ok_def start_ok_def start_calls_ok_def ipc_master_ok_def)

lemma demo_server_sane: "log_sane (demo_server ws n fd)"
  by (simp add: log_sane_def demo_server_def default_log_settings_def)

theorem worker_init_starts_all_witness:
  "\<exists>t. worker_init demo_start [] 4 (demo_server [] 0 0) = Ret 0 t \<and> workers_up 4 t"
  using worker_init_starts_all[OF demo_start_ok demo_server_sane, of 4]
  by (force simp: WORKER_MAX_WORKERS_def)

text \<open>
  The number of workers is not checked against the size of the table: asked for more than
  \<^verbatim>\<open>WORKER_MAX_WORKERS\<close>, \<^verbatim>\<open>worker_init\<close> starts that many and then writes past the
  end of the table.
\<close>

lemma worker_init_overruns:
  assumes "sds_doc E" and "log_io_ok E" and "start_ok E" and "log_sane s"
    and "int WORKER_MAX_WORKERS < n"
  shows "\<exists>t. worker_init E evs n s = Fault OutOfBounds t \<and>
    uiCurrWorkers (gWorkerAdmin t) = word_of_nat WORKER_MAX_WORKERS"
proof -
  let ?m = WORKER_MAX_WORKERS
  have split: "[0..<nat n] = [0..<0 + ?m] @ ?m # [Suc ?m..<nat n]"
    using assms(5) upt_add_eq_append[of 0 ?m "nat n - ?m"] upt_conv_Cons[of ?m "nat n"] by simp
  from add_workers_run[OF assms(1-3) table_up_start[OF assms(4)], of ?m evs "?m # [Suc ?m..<nat n]"] obtain t where
    t: "add_workers E evs [0..<nat n] (s\<lparr>gWorkerAdmin := zero_admin\<rparr>) = add_workers E evs (?m # [Suc ?m..<nat n]) t"
    "table_up ?m t" unfolding split by auto
  have "length (psWorker (gWorkerAdmin t)) = ?m" "uiCurrWorkers (gWorkerAdmin t) = word_of_nat ?m"
    using t(2) by (simp_all add: table_up_def slots_def)
  then show ?thesis
    using t(1) by (simp add: worker_init_def add_worker_def log_calls[OF assms(1)] put_slot_def)
qed

text \<open>
  C16. The life of a worker: when its calls succeed, the child closes the two descriptors its
  entry names (for a fresh entry twice descriptor 0), connects to its socket file, watches
  \<^verbatim>\<open>SIGINT\<close> and the master's channel and nothing else, and enters its loop. Whatever clients
  and events that loop sees, once \<^verbatim>\<open>SIGINT\<close> ends it the process runs the master's clean-up:
  it stops the siblings before it in the table and then destroys its own event loop, which
  libev does not survive (\<^verbatim>\<open>ev_loop_destroy\<close> and then \<^verbatim>\<open>free\<close> of the same loop).
\<close>

theorem worker_process_life:
  fixes s :: "'a server_scheme"
  assumes "sds_doc E" and "worker_start_ok E wfd file"
    and "length (slots s) = WORKER_MAX_WORKERS" and "slots s = sibs @ Some w # rest"
    and "\<forall>x \<in> set sibs. other_entry x"
    and "IPCFile w = SLive file" and "NUL \<notin> set file" and "length file < SUN_PATH_SIZE"
    and "\<not> iIsInitDone s \<or> LoggerThread s = None \<and> gpcLogfile s = SLive p"
    and "pcLogfile (sCurrSSettings s) \<noteq> SFreed"
  shows "\<exists>u :: 'a server_scheme. hist u = hist s @ worker_start_calls w wfd file \<and>
    (\<forall>v. ev_run_worker E (length sibs) evs u = Stuck v \<longrightarrow> workerp_entry E evs (length sibs) s = Stuck v) \<and>
    (\<forall>e v. ev_run_worker E (length sibs) evs u = Fault e v \<longrightarrow> workerp_entry E evs (length sibs) s = Fault e v) \<and>
    (\<forall>v. ev_run_worker E (length sibs) evs u = Ret () v \<longrightarrow>
      (\<exists>t. workerp_entry E evs (length sibs) s = Fault DoubleFree t \<and>
         hist t = destroy_trace E (hist v @ socket_calls (iFd s)) sibs @ [Ev_suspend, Ev_loop_destroy]))"
proof -
  let ?i = "length sibs"
  have at: "?i < length (slots s)" "slots s ! ?i = Some w" using assms(4) by simp_all
  from workerp_entry_run[OF assms(1,2) at assms(6-10)] obtain me and u :: "'a server_scheme" where
    u: "workerp_entry E evs ?i s = bindP (ev_run_worker E ?i evs) (\<lambda>_.
       seqP (log_info E [FL ''Worker '', FD, FL '' done.''] [AI (sint (uiId me))]) (do_exit E 0)) u"
    "hist u = hist s @ worker_start_calls w wfd file" "slots u = (slots s)[?i := Some me]" "iMe me = 1"
    "psWorkerEVLoop u = LLive" "iFd u = iFd s" by blast
  have "\<exists>t. workerp_entry E evs ?i s = Fault DoubleFree t \<and>
      hist t = destroy_trace E (hist v @ socket_calls (iFd s)) sibs @ [Ev_suspend, Ev_loop_destroy]"
    if v: "ev_run_worker E ?i evs u = Ret () v" for v
  proof -
    let ?v = "log_st E eINFO (rendered [FL ''Worker '', FD, FL '' done.''] [AI (sint (uiId me))]) v"
    from keepsD[OF keeps_wview_loop v] have "wview v = wview u" .
    then have f: "slots ?v = sibs @ Some me # rest" "psWorkerEVLoop ?v = LLive" "iFd ?v = iFd s" "hist ?v = hist v"
      using u(3,5,6) assms(4) by (simp_all add: wview_def slots_def)
    then have "length (slots ?v) = WORKER_MAX_WORKERS" using assms(3,4) by simp
    from do_exit_own[OF assms(1) this f(1) assms(5) _ f(2), of 0] u(4) f(3,4) obtain t where
      "do_exit E 0 ?v = Fault DoubleFree t"
      "hist t = destroy_trace E (hist v @ socket_calls (iFd s)) sibs @ [Ev_suspend, Ev_loop_destroy]" by auto
    with u(1) v show ?thesis by (simp add: log_calls[OF assms(1)])
  qed
  with u(1,2) show ?thesis by (intro exI[of _ u]) (auto split: outcome.splits)
qed

definition demo_child :: env where
  "demo_child = calm_env\<lparr>os := \<lambda>h c. \<lparr>sr_val = (case c of Socket _ \<Rightarrow> 5 | Ev_default_loop \<Rightarrow> 1 | _ \<Rightarrow> 0),
     sr_errno = 0, sr_data = []\<rparr>\<rparr>"

lemma demo_child_ok: "sds_doc demo_child" "worker_start_ok demo_child 5 file"
  by (simp_all add: demo_child_def calm_env_def documented_sds_def sds_doc_def worker_start_ok_def)

theorem worker_process_life_witness:
  "\<exists>t. workerp_entry demo_child [EvSigint] 1 (demo_server [Some (demo_entry 20), Some (demo_entry 30)] 1 0) =
    Fault DoubleFree t \<and> Kill 20 SIGTERM \<in> set (hist t)"
proof -
  let ?s = "demo_server [Some (demo_entry 20), Some (demo_entry 30)] 1 0"
  have s: "slots ?s = [Some (demo_entry 20)] @ Some (demo_entry 30) # replicate 62 None"
    "length (slots ?s) = WORKER_MAX_WORKERS" "\<not> iIsInitDone ?s" "pcLogfile (sCurrSSettings ?s) \<noteq> SFreed" "iFd ?s = 0"
    by (simp_all add: demo_server_def slots_def WORKER_MAX_WORKERS_def zero_settings_def)
  have w: "IPCFile (demo_entry 30) = SLive ''/run/x''" "NUL \<notin> set ''/run/x''" "length ''/run/x'' < SUN_PATH_SIZE"
    "\<forall>x \<in> set [Some (demo_entry 20)]. other_entry x"
    by (simp_all add: demo_entry_def SUN_PATH_SIZE_def other_entry_def zero_worker_def)
  from worker_process_life[OF demo_child_ok s(2,1) w(4,1-3) disjI1[OF s(3)] s(4), of "[EvSigint]"]
  obtain u :: server where u: "\<forall>v. ev_run_worker demo_child 1 [EvSigint] u = Ret () v \<longrightarrow>
      (\<exists>t. workerp_entry demo_child [EvSigint] 1 ?s = Fault DoubleFree t \<and>
         hist t = destroy_trace demo_child (hist v @ socket_calls (iFd ?s)) [Some (demo_entry 20)] @ [Ev_suspend, Ev_loop_destroy])"
    by auto
  obtain v where "ev_run_worker demo_child 1 [EvSigint] u = Ret () v"
    by (simp add: workerp_callback_exitsig_def)
  with u show ?thesis by (auto simp: stop_calls_def demo_entry_def)
qed

end
