(* ===== verification/Log_Budget.thy ===== *)
theory Log_Budget
  imports Worker_Process
begin

text \<open>
  How many lines the start of the program can put into the log queue. The queue takes
  \<^verbatim>\<open>iLoggerQueueSize\<close> lines, the thread only ever makes it shorter, so a bound on the number of
  log calls of a function shows that messages are not refused for want of room, whatever the thread
  does. The bounds are computed along the structure of the functions.
\<close>

section \<open>Counting log calls\<close>

text \<open>What decides whether a message is accepted, the counter apart.\<close>

definition log_flags :: "'a logger_scheme \<Rightarrow> tsLogSettings \<times> bool \<times> bool \<times> bool" where
  "log_flags s = (sCurrLogSettings s, iIsInitDone s, bTerminateProg s, iShuttingDown s)"

text \<open>
  \<open>budget n m\<close>: from a logger in order, if \<open>m\<close> returns, the logger is in order, its flags are as
  before, and at most \<open>n\<close> lines more are counted.
\<close>

definition budget :: "nat \<Rightarrow> ('a logger_scheme, 'v) prog \<Rightarrow> bool" where
  "budget n m \<longleftrightarrow> (\<forall>s v t. log_sane s \<longrightarrow> m s = Ret v t \<longrightarrow>
     log_sane t \<and> log_flags t = log_flags s \<and> iDataInQueueCount t \<le> iDataInQueueCount s + int n)"

lemma budgetD:
  assumes "budget n m" and "log_sane s" and "m s = Ret v t"
  shows "log_sane t" and "log_flags t = log_flags s" and "iDataInQueueCount t \<le> iDataInQueueCount s + int n"
  using assms by (auto simp: budget_def)

lemma budget_le: "budget k m \<Longrightarrow> k \<le> n \<Longrightarrow> budget n m"
  by (force simp: budget_def)

lemma budget_bindP:
  assumes "budget n m" and "\<And>a. budget k (f a)"
  shows "budget (n + k) (bindP m f)"
  unfolding budget_def
proof (intro allI impI)
  fix s v t
  assume s: "log_sane s" and "bindP m f s = Ret v t"
  then obtain a u where u: "m s = Ret a u" "f a u = Ret v t" using bindP_RetD by metis
  note d = budgetD[OF assms(1) s u(1)]
  from budgetD[OF assms(2) d(1) u(2)] d(2,3)
  show "log_sane t \<and> log_flags t = log_flags s \<and> iDataInQueueCount t \<le> iDataInQueueCount s + int (n + k)" by simp
qed

lemma budget_seqP: "budget n m \<Longrightarrow> budget k m' \<Longrightarrow> budget (n + k) (seqP m m')"
  unfolding seqP_def by (rule budget_bindP)

lemma budget_trivial:
  "budget 0 (retP a)" "budget 0 (getP g)" "budget 0 (faultP e)" "budget 0 (exitP c)" "budget 0 stuckP"
  "budget 0 (callP E d)" "budget 0 (sysP E d)"
  by (auto simp: budget_def log_flags_def split: outcome.split_asm)

lemma budget_exits: "budget 0 (seqP m (exitP c))"
  by (auto simp: budget_def split: outcome.split_asm)

lemma budget_branch:
  "budget n m \<Longrightarrow> budget k m' \<Longrightarrow> budget (max n k) (if b then m else m')"
  by (cases b) (auto elim: budget_le)

lemma budget_voidP: "budget n m \<Longrightarrow> budget n (voidP m)"
  unfolding voidP_def using budget_seqP[OF _ budget_trivial(1)] by fastforce

lemma budget_whenP: "budget n m \<Longrightarrow> budget n (whenP b m)"
  unfolding whenP_def using budget_seqP[OF _ budget_trivial(1)] budget_le[OF budget_trivial(1)] by fastforce

lemma budget_log:
  assumes "sds_doc E" and "fmt_ok f as"
  shows "budget 1 (log_debug E f as)" and "budget 1 (log_info E f as)" and "budget 1 (log_warning E f as)"
    and "budget 1 (log_error E f as)"
  using assms
  by (auto simp: budget_def log_calls log_sane_log_st) (auto simp: log_flags_def log_st_def log_enqueue_def)

lemma budget_thread: "budget 0 (logger_thread_step E)"
  unfolding budget_def
proof (intro allI impI)
  fix s v t
  assume s: "log_sane s" and t: "logger_thread_step E s = Ret v t"
  have "log_flags t = log_flags s"
    using outside_log_thread_step[of E s] t outside_log_eqD[of t s] by (auto simp: log_flags_def)
  moreover have "iDataInQueueCount t \<le> iDataInQueueCount s"
  proof (cases "LoggerThread s")
    case None
    with t show ?thesis by (auto simp: logger_thread_step_def)
  next
    case (Some l)
    with s have "0 \<le> iDataWritten l" by (simp add: log_sane_def)
    with Some t show ?thesis
      by (cases "pc l") (auto simp: logger_thread_step_def thread_poll_def thread_open_def thread_pop_def thread_write_def
          thread_close_def thread_update_def goto_def exit_errno_def split: if_split_asm option.split_asm)
  qed
  ultimately show "log_sane t \<and> log_flags t = log_flags s \<and> iDataInQueueCount t \<le> iDataInQueueCount s + int 0"
    using preservesD[OF preserves_sane_thread s t] by simp
qed

lemma budget_run: "budget 0 (thread_run E n)"
proof (induction n)
  case (Suc n)
  from budget_seqP[OF budget_thread this, of E] show ?case by (simp only: thread_run.simps add_0)
qed (simp only: thread_run.simps budget_trivial)

lemma budget_update:
  "(\<And>s. log_sane s \<Longrightarrow> log_sane (g s) \<and> log_flags (g s) = log_flags s \<and> iDataInQueueCount (g s) \<le> iDataInQueueCount s) \<Longrightarrow>
   budget 0 (modP g)"
  by (auto simp: budget_def)

lemma budget_flush: "budget 0 (logger_flush E :: ('a logger_scheme, int) prog)"
proof -
  have nap: "budget (0 + (0 + 0)) (usleep_nap E)"
    unfolding usleep_nap_def
    by (intro budget_bindP budget_seqP budget_trivial budget_run budget_update) (simp add: log_flags_def)
  have loop: "budget 0 (flush_loop E n :: ('a logger_scheme, unit) prog)" for n
  proof (induction n)
    case (Suc n)
    have "budget (0 + max 0 (0 + (0 + 0) + 0)) (flush_loop E (Suc n) :: ('a logger_scheme, unit) prog)"
      unfolding flush_loop.simps by (rule budget_bindP budget_branch budget_seqP budget_trivial nap Suc.IH)+
    then show ?case by (rule budget_le) simp
  qed (simp only: flush_loop.simps budget_trivial)
  have "budget (0 + (0 + 0)) (logger_flush E :: ('a logger_scheme, int) prog)"
    unfolding logger_flush_def by (intro budget_seqP budget_trivial loop budget_update) (simp add: log_flags_def)
  then show ?thesis by simp
qed

lemma budget_block: "(\<And>m. m \<in> set ms \<Longrightarrow> budget n m) \<Longrightarrow> budget (n * length ms) (blockP ms)"
proof (induction ms)
  case (Cons m ms)
  then have "budget n m" "budget (n * length ms) (blockP ms)" by simp_all
  from budget_seqP[OF this] show ?case by (simp only: blockP.simps list.size mult_Suc_right add_Suc_right add_0_right)
qed (simp add: budget_trivial)

section \<open>The functions that start the workers\<close>

lemma budget_slots: "budget 0 (worker_at i)" "budget 0 (put_slot i w)"
  by (auto simp: budget_def worker_at_def put_slot_def log_flags_def split: if_split_asm option.split_asm)

lemma budget_sds: "budget 0 (sds_get v)" "budget 0 (sds_new E t)" "budget 0 (sds_printf E v f as)"
  by (auto simp: budget_def sds_get_def sds_new_def sds_printf_def log_flags_def split: sds.split_asm option.split_asm)

lemma budget_fork: "budget 0 (forkP E)"
proof -
  have "budget (0 + (0 + (0 + 0))) (forkP E)"
    unfolding forkP_def
    by (rule budget_bindP budget_seqP budget_whenP budget_trivial budget_update | simp add: log_flags_def log_sane_def)+
  then show ?thesis by simp
qed

lemmas budget_rules = budget_exits budget_bindP budget_seqP budget_trivial budget_branch budget_voidP budget_whenP budget_log
  budget_flush budget_slots budget_sds budget_fork

lemma budget_create: "sds_doc E \<Longrightarrow> budget 2 (worker_create_ipc_socket E i)"
  unfolding worker_create_ipc_socket_def by (rule budget_le, (rule budget_rules | simp)+)

lemma budget_free_worker: "budget 0 (exit_free_worker E i)"
  unfolding exit_free_worker_def by (rule budget_le, (rule budget_rules | simp)+)

lemma budget_add_worker: "sds_doc E \<Longrightarrow> budget 5 (add_worker E evs i)"
  unfolding add_worker_def fork_worker_def
  by (rule budget_le, (rule budget_rules budget_create budget_free_worker budget_update | simp add: log_flags_def)+)

lemma budget_add_workers:
  "sds_doc E \<Longrightarrow> budget (5 * length is + 1) (add_workers E evs is :: ('a server_scheme, int) prog)"
proof (induction "is")
  case Nil
  show ?case unfolding add_workers.simps by (rule budget_le, (rule budget_rules | simp add: Nil)+)
next
  case (Cons i "is")
  have "budget (5 + max (5 * length is + 1) 0) (add_workers E evs (i # is) :: ('a server_scheme, int) prog)"
    unfolding add_workers.simps by (rule budget_rules budget_add_worker Cons)+
  then show ?case by (rule budget_le) simp
qed

lemma budget_worker_init: "sds_doc E \<Longrightarrow> budget (5 * nat n + 1) (worker_init E evs n)"
  unfolding worker_init_def
  using budget_seqP[OF budget_update budget_add_workers, of "\<lambda>s. s\<lparr>gWorkerAdmin := zero_admin\<rparr>" E "[0..<nat n]" evs]
  by (simp add: log_flags_def)

lemma budget_settings_log: "sds_doc E \<Longrightarrow> budget 5 (settings_to_log E :: ('a settings_scheme, unit) prog)"
proof -
  assume E: "sds_doc E"
  have setting: "budget 1 (log_setting E opt :: ('a settings_scheme, unit) prog)" for opt
  proof (cases "pSection opt")
    case (Some sec)
    then show ?thesis
      unfolding log_setting_def
      by (cases "eType opt") (simp_all, (rule budget_le, (rule budget_rules E | simp)+)+)
  qed (simp add: log_setting_def budget_le[OF budget_trivial(3)])
  let ?ms = "map (log_setting E) (take (length sKnownOptions - 1) sKnownOptions) :: ('a settings_scheme, unit) prog list"
  have "budget (1 * length ?ms) (blockP ?ms)" by (rule budget_block) (use setting in auto)
  then show ?thesis unfolding settings_to_log_def by (rule budget_le) (simp add: sKnownOptions_def)
qed

section \<open>Errors are logged\<close>

text \<open>The configured level cannot keep errors out: theirs is the lowest.\<close>

lemma errors_accepted:
  assumes "log_flags s = (default_log_settings\<lparr>iCurrLogLevel := l\<rparr>, True, False, False)" and "iDataInQueueCount s \<le> 50"
  shows "is_msg_allowed eERROR s = LOG_EXIT_SUCCESS" and "\<not> log_full s"
  using assms by (auto simp: log_flags_def is_msg_allowed_iff log_full_def default_log_settings_def)

end
