(* ===== verification/Main_Server.thy ===== *)
theory Main_Server
  imports Log_Budget
begin

text \<open>
  The program, \<^verbatim>\<open>src/src/cew_main.c\<close>: turning into a daemon, seeding the random numbers,
  and the main function, which puts the components together. The arguments, the settings file,
  the events of every child and of the master's own loop are arbitrary.
\<close>

section \<open>Operations\<close>

definition SETTINGS_FILE :: string where "SETTINGS_FILE = ''/work/test/ini/valid_settings.ini''"
definition SOCKET_FAIL :: int where "SOCKET_FAIL = -2"
definition RLIM_INFINITY :: "64 word" where "RLIM_INFINITY = -1"

definition strcmp :: "string \<Rightarrow> string \<Rightarrow> int" where
  "strcmp a b = strncmp (cstr a) (cstr b) (Suc (length a + length b))"

definition callback_exitsig :: "env \<Rightarrow> ('a base_scheme, unit) prog" where
  "callback_exitsig E = voidP (callP E Ev_break)"

text \<open>\<^verbatim>\<open>struct rlimit\<close>: two 64-bit numbers, the second is \<^verbatim>\<open>rlim_max\<close>.\<close>

definition rlim_max :: "string \<Rightarrow> 64 word" where
  "rlim_max d = word_of_nat (foldr (\<lambda>c n. of_char c + 256 * n) (take 8 (drop 8 d)) 0)"

text \<open>One of the two forks: the parent ends, a failure returns \<^verbatim>\<open>errno\<close>, the child goes on.\<close>

definition daemon_fork :: "env \<Rightarrow> ('a logger_scheme, int) prog \<Rightarrow> ('a logger_scheme, int) prog" where
  "daemon_fork E k = bindP (forkP E) (\<lambda>child.
     if child < 0 then getP errno else if child \<noteq> 0 then exitP EXIT_SUCCESS else k)"

definition close_all :: "env \<Rightarrow> nat \<Rightarrow> ('a base_scheme, unit) prog" where
  "close_all E n = blockP (map (\<lambda>i. voidP (callP E (Close (sint (word_of_nat i :: 32 word))))) [0..<n])"

definition daemon_files :: "env \<Rightarrow> 64 word \<Rightarrow> ('a server_scheme, int) prog" where
  "daemon_files E lim =
     seqP (close_all E (unat (if lim = RLIM_INFINITY then 1024 else lim))) (
     bindP (callP E (Open ''/dev/null'')) (\<lambda>fd0.
     bindP (callP E (Dup 0)) (\<lambda>fd1.
     bindP (callP E (Dup 0)) (\<lambda>fd2.
     seqP (whenP (fd0 \<noteq> 0 \<or> fd1 \<noteq> 1 \<or> fd2 \<noteq> 2)
             (seqP (log_error E [FL ''Error setting up file descriptors.''] []) (do_exit E 1)))
       (retP 0)))))"

definition daemonize :: "env \<Rightarrow> ('a server_scheme, int) prog" where
  "daemonize E =
     seqP (callP E Umask) (
     bindP (sysP E Getrlimit) (\<lambda>lim.
     seqP (whenP (sr_val lim < 0)
             (seqP (log_error E [FL ''Can'', FL QUOTE, FL ''t get file limit. Line '', FD, FL ''.''] []) (do_exit E 1)))
       (daemon_fork E (
        seqP (callP E Setsid) (
        bindP (callP E (Sigaction SIGHUP)) (\<lambda>r.
        if r < 0 then getP errno
        else
          daemon_fork E (
          bindP (callP E (Chdir ''/'')) (\<lambda>r.
          if r < 0 then getP errno
          else daemon_files E (rlim_max (sr_data lim))))))))))"

text \<open>The time is answered in microseconds; the product is computed in 64 bits.\<close>

definition seed_random :: "env \<Rightarrow> ('a base_scheme, unit) prog" where
  "seed_random E =
     bindP (callP E Gettimeofday) (\<lambda>t.
     bindP (getP pid) (\<lambda>me.
     let x = (t mod 1000000) * (t div 1000000) in
     if x < LONG_MIN \<or> LONG_MAX < x \<or> x * me < LONG_MIN \<or> LONG_MAX < x * me then faultP SignedOverflow
     else voidP (callP E (Srand (x * me mod 2 ^ 32)))))"

text \<open>
  What libev delivers to the master: a client at the listening socket, or one of the two signals.
  When nothing more happens, the loop waits for ever.
\<close>

datatype mevent = MClient | MSigint | MSigterm

fun ev_run_master :: "env \<Rightarrow> mevent list \<Rightarrow> ('a server_scheme, unit) prog" where
  "ev_run_master E [] = stuckP"
| "ev_run_master E (MClient # evs) = seqP (socket_accept_client E) (ev_run_master E evs)"
| "ev_run_master E (MSigint # evs) = callback_exitsig E"
| "ev_run_master E (MSigterm # evs) = callback_exitsig E"

text \<open>The last part of the main function: the event loop.\<close>

definition main_loop :: "env \<Rightarrow> mevent list \<Rightarrow> int \<Rightarrow> ('a server_scheme, unit) prog" where
  "main_loop E mevs fd =
     bindP (callP E Ev_default_loop) (\<lambda>psLoop.
     if psLoop = 0 then faultP NullDereference
     else
       seqP (callP E (Ev_signal_start SIGINT)) (
       seqP (callP E (Ev_signal_start SIGTERM)) (
       seqP (callP E (Ev_io_start fd)) (
       seqP (ev_run_master E mevs)
         (do_exit E EXIT_SUCCESS)))))"

text \<open>From the start of the workers on.\<close>

definition main_serve :: "env \<Rightarrow> wevent list \<Rightarrow> mevent list \<Rightarrow> bool \<Rightarrow> tsSSettings \<Rightarrow> ('a server_scheme, unit) prog" where
  "main_serve E wevs mevs bDeamonize c =
     bindP (worker_init E wevs 4) (\<lambda>iRet.
     seqP (whenP (iRet \<noteq> WORKER_EXIT_SUCCESS) (do_exit_with_errno E iRet)) (
     bindP (socket_setup E (ucast (lPort c))) (\<lambda>(iRet, out).
     seqP (whenP (iRet \<noteq> SOCK_EXIT_SUCCESS)
             (seqP (log_error E [FL ''Exit with '', FD, FL '': '', FS, FL ''. Line '', FD, FL ''.'', FL [CHR 0x0A]]
                     [AI iRet, AS (strerror_text E iRet)])
               (do_exit E SOCKET_FAIL))) (
     seqP (whenP (\<not> bDeamonize)
             (callP E (Printf (rendered [FL ''Waiting for connections on port '', FD, FL ''...'', FL [CHR 0x0A]]
               [AI (sint (lPort c))]))))
       (main_loop E mevs (case out of None \<Rightarrow> 0 | Some fd \<Rightarrow> fd))))))"

text \<open>Going to run as a service, or not.\<close>

definition main_daemonize :: "env \<Rightarrow> bool \<Rightarrow> tsSSettings \<Rightarrow> ('a server_scheme, unit) prog" where
  "main_daemonize E bDeamonize c =
     whenP bDeamonize
       (seqP (callP E (Printf (rendered [FL ''Demonizing, listening on port '', FD, FL [CHR 0x0A]] [AI (sint (lPort c))])))
         (bindP (daemonize E) (\<lambda>iRet. whenP (iRet \<noteq> 0) (do_exit_with_errno E iRet))))"

definition main ::
  "env \<Rightarrow> 'h ini_lib \<Rightarrow> string list \<Rightarrow> wevent list \<Rightarrow> mevent list \<Rightarrow> ('a server_scheme, unit) prog" where
  "main E I argv wevs mevs =
     (let bDeamonize = (length argv > 1 \<and> strcmp (argv ! 0) ''-d'' \<noteq> 0) in
     seqP (seed_random E) (
     bindP settings_init (\<lambda>iRet.
     seqP (whenP (iRet \<noteq> 0) (do_exit_with_errno E iRet)) (
     bindP (settings_load E I SETTINGS_FILE) (\<lambda>iRet.
     seqP (whenP (iRet \<noteq> 0) (do_exit_with_errno E iRet)) (
     bindP settings_get (\<lambda>c.
     bindP (sds_arg (pcLogfile c)) (\<lambda>file.
     bindP (logger_init E file (ucast (lLogLevel c))) (\<lambda>iRet.
     seqP (whenP (iRet \<noteq> 0) (do_exit_with_errno E iRet)) (
     seqP (log_error E [FL ''----- STARTING -------''] []) (
     seqP (settings_to_log E) (
     seqP (main_daemonize E bDeamonize c)
       (main_serve E wevs mevs bDeamonize c)))))))))))))"

section \<open>The master's event loop\<close>

text \<open>
  The calls of \<open>m\<close> client events, when \<open>k\<close> clients were routed before: each accepted client
  goes to the next worker, a refused \<^verbatim>\<open>accept\<close> is skipped.
\<close>

fun serve_trace :: "env \<Rightarrow> int \<Rightarrow> (nat \<Rightarrow> int) \<Rightarrow> nat \<Rightarrow> nat \<Rightarrow> call list \<Rightarrow> call list" where
  "serve_trace E lfd target k 0 h = h"
| "serve_trace E lfd target k (Suc m) h =
     (let fd = sr_val (os E h (Accept lfd)) in
      if fd = -1 then serve_trace E lfd target k m (h @ [Accept lfd])
      else serve_trace E lfd target (Suc k) m (h @ [Accept lfd, Sendmsg_fd (target k) fd]))"

text \<open>One client event, whatever \<^verbatim>\<open>accept\<close> answers.\<close>

lemma client_event:
  assumes "sds_doc E" and "workers_up n s" and "NextWorker s = next_after n k"
  shows "\<exists>t j. socket_accept_client E s = Ret () t \<and> workers_up n t \<and> NextWorker t = next_after n j \<and>
    gWorkerAdmin t = gWorkerAdmin s \<and> iFd t = iFd s \<and> sCurrSSettings t = sCurrSSettings s \<and>
    gpcLogfile t = gpcLogfile s \<and> iIsInitDone t = iIsInitDone s \<and> sds_live t = sds_live s \<and>
    (\<forall>m. serve_trace E (iFd s) (route_target n s) j m (hist t) = serve_trace E (iFd s) (route_target n s) k (Suc m) (hist s))"
proof -
  from assms(2) obtain w where w: "psWorker (gWorkerAdmin s) ! (k mod n) = Some w"
    unfolding workers_up_def by (metis mod_less_divisor not_Some_eq)
  define fd where "fd = sr_val (os E (hist s) (Accept (iFd s)))"
  show ?thesis
  proof (cases "fd = -1")
    case True
    with socket_accept_refused[OF assms(1), of s] obtain t where
      t: "socket_accept_client E s = Ret () t" "outside_log t = (outside_log s)\<lparr>hist := hist s @ [Accept (iFd s)]\<rparr>"
      unfolding fd_def by blast
    from fields[OF t(2)] t(1) True assms(2,3) show ?thesis
      by (intro exI[of _ t] exI[of _ k]) (simp add: workers_up_def flip: fd_def)
  next
    case False
    from socket_accept_run[OF assms w fd_def[symmetric] False] obtain t where
      t: "socket_accept_client E s = Ret () t"
      "outside_log t = (outside_log s)\<lparr>hist := hist s @ [Accept (iFd s), Sendmsg_fd (iMasterIPCfd w) fd],
        NextWorker := next_after n (Suc k)\<rparr>" by blast
    from fields[OF t(2)] t(1) False assms(2) w show ?thesis
      by (intro exI[of _ t] exI[of _ "Suc k"]) (simp add: workers_up_def route_target_def flip: fd_def)
  qed
qed

lemma client_events:
  assumes "sds_doc E" and "workers_up n s" and "NextWorker s = next_after n k"
  shows "\<exists>t. ev_run_master E (replicate m MClient @ evs) s = ev_run_master E evs t \<and>
    gWorkerAdmin t = gWorkerAdmin s \<and> iFd t = iFd s \<and> sCurrSSettings t = sCurrSSettings s \<and>
    gpcLogfile t = gpcLogfile s \<and> iIsInitDone t = iIsInitDone s \<and> sds_live t = sds_live s \<and>
    hist t = serve_trace E (iFd s) (route_target n s) k m (hist s) \<and>
    (\<forall>Q. master_invariant Q \<longrightarrow> Q s \<longrightarrow> Q t)"
  using assms(2,3)
proof (induction m arbitrary: s k)
  case (Suc m)
  from client_event[OF assms(1) Suc.prems] obtain u j where
    u: "socket_accept_client E s = Ret () u" "workers_up n u" "NextWorker u = next_after n j"
    "gWorkerAdmin u = gWorkerAdmin s" "iFd u = iFd s" "sCurrSSettings u = sCurrSSettings s"
    "gpcLogfile u = gpcLogfile s" "iIsInitDone u = iIsInitDone s" "sds_live u = sds_live s"
    "\<And>m. serve_trace E (iFd s) (route_target n s) j m (hist u) = serve_trace E (iFd s) (route_target n s) k (Suc m) (hist s)"
    by blast
  have tgt: "route_target n u = route_target n s" using u(4) by (simp add: route_target_def fun_eq_iff)
  from Suc.IH[OF u(2,3)] u(4-9) tgt obtain t where
    t: "ev_run_master E (replicate m MClient @ evs) u = ev_run_master E evs t"
    "gWorkerAdmin t = gWorkerAdmin s" "iFd t = iFd s" "sCurrSSettings t = sCurrSSettings s"
    "gpcLogfile t = gpcLogfile s" "iIsInitDone t = iIsInitDone s" "sds_live t = sds_live s"
    "hist t = serve_trace E (iFd s) (route_target n s) j m (hist u)"
    and Q: "\<And>Q. master_invariant Q \<Longrightarrow> Q u \<Longrightarrow> Q t" by auto
  have "Q t" if "master_invariant Q" "Q s" for Q
    using Q[OF that(1) preservesD[OF master_invariant.keep_accept[OF that(1) assms(1)] that(2) u(1)]] .
  then have "\<forall>Q. master_invariant Q \<longrightarrow> Q s \<longrightarrow> Q t" by blast
  with t u(1,10) show ?case by (intro exI[of _ t]) (simp del: serve_trace.simps)
qed auto

section \<open>The master from the start of the workers to the end\<close>

definition loop_calls :: "bool \<Rightarrow> tsSSettings \<Rightarrow> int \<Rightarrow> call list" where
  "loop_calls bDeamonize c fd = (if bDeamonize then [] else [Printf (rendered [FL ''Waiting for connections on port '',
      FD, FL ''...'', FL [CHR 0x0A]] [AI (sint (lPort c))])]) @
     [Ev_default_loop, Ev_signal_start SIGINT, Ev_signal_start SIGTERM, Ev_io_start fd]"

lemma entry_up_other: "entry_up i x \<Longrightarrow> other_entry x"
  by (auto simp: entry_up_def other_entry_def)

lemma others_up:
  assumes "\<forall>j < n. entry_up j (ws ! j)" and "\<forall>j. n \<le> j \<and> j < length ws \<longrightarrow> ws ! j = None"
  shows "\<forall>x \<in> set ws. other_entry x"
proof
  fix x
  assume "x \<in> set ws"
  then obtain j where j: "j < length ws" "x = ws ! j" by (auto simp: in_set_conv_nth)
  show "other_entry x"
  proof (cases "j < n")
    case True
    with assms(1) j show ?thesis by (auto intro: entry_up_other)
  next
    case False
    with assms(2) j have "x = None" by simp
    then show ?thesis by (simp add: other_entry_def)
  qed
qed

lemma table_up_others: "table_up n s \<Longrightarrow> \<forall>x \<in> set (slots s). other_entry x"
  by (rule others_up[of n]) (simp_all add: table_up_def)

text \<open>Each worker in the table owns the name of its socket file.\<close>

lemma table_up_owns:
  assumes "table_up n s" and "n \<le> WORKER_MAX_WORKERS"
  shows "sum_list (map slot_owns (slots s)) = int n"
proof -
  have "slot_owns (slots s ! j) = (if j < n then 1 else 0)" if "j < WORKER_MAX_WORKERS" for j
    using assms(1) that by (auto simp: table_up_def entry_up_def slot_owns_def owns_def)
  then have "sum_list (map slot_owns (slots s)) = (\<Sum>j < WORKER_MAX_WORKERS. if j < n then 1 else 0)"
    using assms(1) by (simp add: table_up_def sum_list_sum_nth atLeast0LessThan)
  also have "\<dots> = int (card ({..<WORKER_MAX_WORKERS} \<inter> {j. j < n}))" by (simp add: sum.If_cases)
  also have "{..<WORKER_MAX_WORKERS} \<inter> {j. j < n} = {..<n}" using assms(2) by auto
  finally show ?thesis by simp
qed

lemma main_loop_run:
  assumes "sds_doc E" and "log_io_ok E" and "\<And>h. sr_val (os E h Ev_default_loop) \<noteq> 0"
    and "log_sane s" and "gpcLogfile s = SLive p" and "pcLogfile (sCurrSSettings s) \<noteq> SFreed"
    and "table_up n s" and "0 < n" and "n \<le> WORKER_MAX_WORKERS" and "NextWorker s = -1"
    and "sig = MSigint \<or> sig = MSigterm"
  shows "\<exists>t. main_loop E (replicate m MClient @ sig # evs) fd s = Exited EXIT_SUCCESS t \<and>
    hist t = destroy_trace E (serve_trace E (iFd s) (route_target n s) 0 m
      (hist s @ [Ev_default_loop, Ev_signal_start SIGINT, Ev_signal_start SIGTERM, Ev_io_start fd])
      @ Ev_break # socket_calls (iFd s)) (slots s) @ [bye] \<and>
    gWorkerAdmin t = zero_admin \<and> sCurrSSettings t = zero_settings \<and> iFd t \<le> 0 \<and> \<not> iIsInitDone t \<and>
    sds_live t = sds_live s - int n - owns (pcLogfile (sCurrSSettings s)) - (if iIsInitDone s then 1 else 0) \<and>
    (LoggerThread s = None \<longrightarrow> logfile t = logfile s)"
proof -
  let ?h = "hist s @ [Ev_default_loop, Ev_signal_start SIGINT, Ev_signal_start SIGTERM, Ev_io_start fd]"
  obtain e where e: "main_loop E (replicate m MClient @ sig # evs) fd s =
      seqP (ev_run_master E (replicate m MClient @ sig # evs)) (do_exit E EXIT_SUCCESS) (s\<lparr>hist := ?h, errno := e\<rparr>)"
    using assms(3) by (simp add: main_loop_def)
  let ?u = "s\<lparr>hist := ?h, errno := e\<rparr>"
  have "workers_up n ?u" "NextWorker ?u = next_after n 0"
    using table_up_workers[OF assms(7-9)] assms(10) by (simp_all add: workers_up_def next_after_def)
  from client_events[OF assms(1) this, of m "sig # evs"] obtain v where
    v: "ev_run_master E (replicate m MClient @ sig # evs) ?u = ev_run_master E (sig # evs) v"
    "gWorkerAdmin v = gWorkerAdmin s" "iFd v = iFd s" "sCurrSSettings v = sCurrSSettings s"
    "gpcLogfile v = gpcLogfile s" "iIsInitDone v = iIsInitDone s" "sds_live v = sds_live s"
    "hist v = serve_trace E (iFd s) (route_target n ?u) 0 m ?h"
    and Q: "\<And>Q. master_invariant Q \<Longrightarrow> Q ?u \<Longrightarrow> Q v" by auto
  have tgt: "route_target n ?u = route_target n s" by (simp add: route_target_def fun_eq_iff)
  define w where "w = v\<lparr>hist := hist v @ [Ev_break], errno := errno_after E (hist v) Ev_break (errno v)\<rparr>"
  have run: "ev_run_master E (sig # evs) v = Ret () w"
    using assms(11) by (auto simp: callback_exitsig_def w_def)
  have sane: "log_sane w" using Q[OF sane.master_invariant_axioms] assms(4) by (simp add: w_def)
  have quiet: "LoggerThread w = None \<and> logfile w = logfile s" if "LoggerThread s = None"
    using Q[OF quiet.master_invariant_axioms, of "logfile s"] that by (simp add: w_def quiet_def)
  have sl: "slots w = slots s" using v(2) by (simp add: w_def slots_def)
  have pre: "gpcLogfile w = SLive p" "length (slots w) = WORKER_MAX_WORKERS"
    "\<forall>x \<in> set (slots w). other_entry x" "pcLogfile (sCurrSSettings w) \<noteq> SFreed"
    using v assms(5,6) table_up_others[OF assms(7)] assms(7) by (simp_all add: sl) (simp_all add: w_def table_up_def)
  obtain t where
    t: "do_exit E EXIT_SUCCESS w = Exited EXIT_SUCCESS t"
    "hist t = destroy_trace E (hist w @ socket_calls (iFd w)) (slots w) @ [bye]"
    "gWorkerAdmin t = zero_admin" "sCurrSSettings t = zero_settings" "iFd t \<le> 0" "\<not> iIsInitDone t"
    "sds_live t = sds_live w - sum_list (map slot_owns (slots w)) - owns (pcLogfile (sCurrSSettings w)) -
      (if iIsInitDone w then 1 else 0)" "LoggerThread w = None \<longrightarrow> logfile t = logfile w"
    using do_exit_run[OF assms(1,2) sane pre, where c = EXIT_SUCCESS] by (elim exE conjE) (rule that; assumption)
  have "iFd w = iFd s" "hist w = serve_trace E (iFd s) (route_target n s) 0 m ?h @ [Ev_break]"
    using v tgt by (simp_all add: w_def)
  moreover have "main_loop E (replicate m MClient @ sig # evs) fd s = Exited EXIT_SUCCESS t"
    unfolding e using v(1) run t(1) by simp
  moreover have "LoggerThread s = None \<longrightarrow> logfile t = logfile s" using t(8) quiet by simp
  moreover have "sds_live t = sds_live s - int n - owns (pcLogfile (sCurrSSettings s)) - (if iIsInitDone s then 1 else 0)"
    using t(7) table_up_owns[OF assms(7,9)] v(4,6,7) unfolding sl by (simp add: w_def)
  ultimately show ?thesis using t(2-6) sl by (intro exI[of _ t]) simp
qed

text \<open>The program's own table once the workers run: four entries, each with its connection.\<close>

definition four_up :: "tsWorkerStruct option list \<Rightarrow> bool" where
  "four_up ws \<longleftrightarrow> length ws = WORKER_MAX_WORKERS \<and> (\<forall>j < 4. entry_up j (ws ! j)) \<and>
     (\<forall>j. 4 \<le> j \<and> j < WORKER_MAX_WORKERS \<longrightarrow> ws ! j = None)"

definition target_of :: "tsWorkerStruct option list \<Rightarrow> nat \<Rightarrow> int" where
  "target_of ws k = iMasterIPCfd (the (ws ! (k mod 4)))"

text \<open>Up to the event loop: the workers are up and the socket is open.\<close>

lemma main_serve_loop:
  fixes s :: "'a server_scheme"
  assumes "sds_doc E" and "log_io_ok E" and "start_ok E" and "listen_ok E (ucast (lPort c)) lfd" and "log_sane s"
  shows "\<exists>(x :: 'a server_scheme) h. main_serve E wevs mevs bDeamonize c s = main_loop E mevs lfd x \<and>
    table_up 4 x \<and> prefix (hist s) h \<and>
    hist x @ [Ev_default_loop, Ev_signal_start SIGINT, Ev_signal_start SIGTERM, Ev_io_start lfd] =
      h @ setup_calls (ucast (lPort c)) lfd @ loop_calls bDeamonize c lfd \<and>
    rest_of x = (case rest_of s of (k, fd, r) \<Rightarrow> (k, lfd, r)) \<and> sds_live x = sds_live s + 4 \<and>
    (LoggerThread s = None \<longrightarrow> quiet (logfile s) x)"
proof -
  have four: "4 \<le> WORKER_MAX_WORKERS" by (simp add: WORKER_MAX_WORKERS_def)
  obtain u where u: "worker_init E wevs 4 s = Ret 0 u" "table_up 4 u" "rest_of u = rest_of s" "prefix (hist s) (hist u)"
    "sds_live u = sds_live s + 4"
    using worker_init_run[OF assms(1-3,5) four, of wevs] by auto
  have qu: "LoggerThread s = None \<Longrightarrow> quiet (logfile s) u"
    using preservesD[OF quiet.keep_worker_init[OF assms(1)] _ u(1)] by (simp add: quiet_def)
  obtain v where v: "socket_setup E (ucast (lPort c)) u = Ret (0, Some lfd) v"
    "outside_log v = (outside_log u)\<lparr>hist := hist u @ setup_calls (ucast (lPort c)) lfd, iFd := lfd\<rparr>"
    using socket_setup_run[OF assms(1,4)] by blast
  note fv = fields[OF v(2)]
  define x where "x = (if bDeamonize then v else v\<lparr>hist := hist v @ take 1 (loop_calls bDeamonize c lfd),
    errno := errno_after E (hist v) (hd (loop_calls bDeamonize c lfd)) (errno v)\<rparr>)"
  have "main_serve E wevs mevs bDeamonize c s = main_loop E mevs lfd x"
    using u(1) v(1) by (simp add: main_serve_def x_def loop_calls_def)
  moreover have "log_sane x" and "LoggerThread s = None \<Longrightarrow> quiet (logfile s) x"
    using preservesD[OF sane.keep_setup[OF assms(1)] _ v(1)] preservesD[OF quiet.keep_setup[OF assms(1)] qu v(1)] u(2)
    by (auto simp: x_def table_up_def quiet_def)
  moreover have "gWorkerAdmin x = gWorkerAdmin u" "rest_of x = (case rest_of s of (k, fd, r) \<Rightarrow> (k, lfd, r))"
    "sds_live x = sds_live s + 4" using fv u(3,5) by (auto simp: x_def rest_of_def)
  moreover have "hist x @ [Ev_default_loop, Ev_signal_start SIGINT, Ev_signal_start SIGTERM, Ev_io_start lfd] =
    hist u @ setup_calls (ucast (lPort c)) lfd @ loop_calls bDeamonize c lfd"
    using fv(1) by (simp add: x_def loop_calls_def)
  ultimately show ?thesis
    using u(2,4) by (intro exI[of _ x] exI[of _ "hist u"]) (simp add: table_up_def slots_def)
qed

lemma main_serve_run:
  fixes s :: "'a server_scheme"
  assumes "sds_doc E" and "log_io_ok E" and "start_ok E" and "listen_ok E (ucast (lPort c)) lfd"
    and "\<And>h. sr_val (os E h Ev_default_loop) \<noteq> 0"
    and "log_sane s" and "gpcLogfile s = SLive p" and "pcLogfile (sCurrSSettings s) \<noteq> SFreed"
    and "NextWorker s = -1" and "sig = MSigint \<or> sig = MSigterm"
  shows "\<exists>t ws h. main_serve E wevs (replicate m MClient @ sig # evs) bDeamonize c s = Exited EXIT_SUCCESS t \<and>
    four_up ws \<and> prefix (hist s) h \<and>
    hist t = destroy_trace E (serve_trace E lfd (target_of ws) 0 m
      (h @ setup_calls (ucast (lPort c)) lfd @ loop_calls bDeamonize c lfd) @ [Ev_break, Close lfd]) ws @ [bye] \<and>
    gWorkerAdmin t = zero_admin \<and> sCurrSSettings t = zero_settings \<and> iFd t \<le> 0 \<and> \<not> iIsInitDone t \<and>
    sds_live t = sds_live s - owns (pcLogfile (sCurrSSettings s)) - (if iIsInitDone s then 1 else 0) \<and>
    (LoggerThread s = None \<longrightarrow> logfile t = logfile s)"
proof -
  have four: "0 < (4 :: nat)" "4 \<le> WORKER_MAX_WORKERS" by (simp_all add: WORKER_MAX_WORKERS_def)
  let ?mevs = "replicate m MClient @ sig # evs"
  obtain x :: "'a server_scheme" and h where
    x: "main_serve E wevs ?mevs bDeamonize c s = main_loop E ?mevs lfd x" "table_up 4 x" "prefix (hist s) h"
    "hist x @ [Ev_default_loop, Ev_signal_start SIGINT, Ev_signal_start SIGTERM, Ev_io_start lfd] =
      h @ setup_calls (ucast (lPort c)) lfd @ loop_calls bDeamonize c lfd"
    "rest_of x = (case rest_of s of (k, fd, r) \<Rightarrow> (k, lfd, r))" "sds_live x = sds_live s + 4"
    "LoggerThread s = None \<longrightarrow> quiet (logfile s) x"
    using main_serve_loop[OF assms(1-4,6), of wevs ?mevs bDeamonize] by (elim exE conjE) (rule that; assumption)
  have fx: "iFd x = lfd" "gpcLogfile x = SLive p" "pcLogfile (sCurrSSettings x) \<noteq> SFreed" "NextWorker x = -1"
    "sCurrSSettings x = sCurrSSettings s" "iIsInitDone x = iIsInitDone s" "log_sane x"
    using x(2,5) assms(7-9) by (auto simp: rest_of_def table_up_def)
  have tgt: "route_target 4 x = target_of (slots x)"
    by (simp add: route_target_def target_of_def slots_def fun_eq_iff)
  have sock: "socket_calls lfd = [Close lfd]" using assms(4) by (simp add: socket_calls_def listen_ok_def)
  have four_up: "four_up (slots x)" using x(2) by (simp add: four_up_def table_up_def)
  obtain t where
    t: "main_loop E ?mevs lfd x = Exited EXIT_SUCCESS t"
    "hist t = destroy_trace E (serve_trace E (iFd x) (route_target 4 x) 0 m
      (hist x @ [Ev_default_loop, Ev_signal_start SIGINT, Ev_signal_start SIGTERM, Ev_io_start lfd])
      @ Ev_break # socket_calls (iFd x)) (slots x) @ [bye]"
    "gWorkerAdmin t = zero_admin" "sCurrSSettings t = zero_settings" "iFd t \<le> 0" "\<not> iIsInitDone t"
    "sds_live t = sds_live x - int 4 - owns (pcLogfile (sCurrSSettings x)) - (if iIsInitDone x then 1 else 0)"
    "LoggerThread x = None \<longrightarrow> logfile t = logfile x"
    using main_loop_run[OF assms(1,2,5) fx(7,2,3) x(2) four fx(4) assms(10), of m evs lfd]
    by (elim exE conjE) (rule that; assumption)
  have "LoggerThread s = None \<longrightarrow> logfile t = logfile s" using t(8) x(7) by (auto simp: quiet_def)
  with x(1,3,6) t(1,3-7) t(2)[unfolded x(4) tgt fx(1) sock] fx(5,6) four_up show ?thesis
    by (intro exI[of _ t] exI[of _ "slots x"] exI[of _ h]) simp
qed

section \<open>The start of the program\<close>

text \<open>The static variables as the program is loaded.\<close>

definition program_start :: "'a server_scheme \<Rightarrow> bool" where
  "program_start s \<longleftrightarrow> \<not> iIsInitDone s \<and> sCurrLogSettings s = default_log_settings \<and>
     sCurrSSettings s = zero_settings \<and> NextWorker s = -1 \<and> iFd s = 0"

text \<open>The number the random numbers are seeded with, if it can be computed.\<close>

definition seed_of :: "int \<Rightarrow> int \<Rightarrow> int" where
  "seed_of t me = (t mod 1000000) * (t div 1000000) * me"

definition seed_ok :: "int \<Rightarrow> int \<Rightarrow> bool" where
  "seed_ok t me \<longleftrightarrow> LONG_MIN \<le> seed_of t 1 \<and> seed_of t 1 \<le> LONG_MAX \<and>
     LONG_MIN \<le> seed_of t me \<and> seed_of t me \<le> LONG_MAX"

lemma seed_random_run:
  assumes "seed_ok (sr_val (os E (hist s) Gettimeofday)) (pid s)"
  shows "\<exists>e. seed_random E s = Ret () (s\<lparr>hist := hist s @
      [Gettimeofday, Srand (seed_of (sr_val (os E (hist s) Gettimeofday)) (pid s) mod 2 ^ 32)], errno := e\<rparr>)"
  using assms by (auto simp: seed_random_def seed_ok_def seed_of_def Let_def not_less)

lemma logger_init_run:
  fixes s :: "'a server_scheme"
  assumes "log_io_ok E" and "\<not> iIsInitDone s" and "0 \<le> iBulkWrite (sCurrLogSettings s)"
  shows "\<exists>t p. logger_init E f lvl s = Ret LOG_EXIT_SUCCESS t \<and> aside t = aside s \<and> log_sane t \<and>
    iIsInitDone t \<and> gpcLogfile t = SLive p \<and> sds_live t = sds_live s + 1 \<and> iDataInQueueCount t = 0 \<and>
    log_flags t = ((sCurrLogSettings s)\<lparr>iCurrLogLevel := lvl\<rparr>, True, bTerminateProg s, False)"
proof -
  from assms(1) have "\<And>n. lres E n = 0" by (simp add: log_io_ok_def)
  with assms(2,3) obtain t p where t: "logger_init E f lvl s = Ret 0 t" "log_sane t" "iIsInitDone t" "gpcLogfile t = SLive p"
    "sds_live t = sds_live s + 1" "iDataInQueueCount t = 0"
    "log_flags t = ((sCurrLogSettings s)\<lparr>iCurrLogLevel := lvl\<rparr>, True, bTerminateProg s, False)"
    by (cases f) (simp_all add: logger_init_def log_sane_def thread_ok_def log_flags_def)
  from keepsD[OF keeps_aside_init t(1)] t show ?thesis by blast
qed

text \<open>The log file name of the settings never dangles.\<close>

lemma apply_file_name: "pcLogfile (apply_file secs zero_settings) \<noteq> SFreed"
  by (rule apply_file_not_freed) (simp add: zero_settings_def)

lemma main_daemonize_no [simp]: "main_daemonize E False c s = Ret () s"
  by (simp add: main_daemonize_def)

lemma main_start_run:
  fixes s :: "'a server_scheme"
  assumes "sds_doc E" and "log_io_ok E" and "ini_open I SETTINGS_FILE = Some h" and "ini_file I h secs"
    and "length secs < fuel E" and "\<forall>(sec, ps) \<in> set secs. length ps < fuel E"
    and "seed_ok (sr_val (os E (hist s) Gettimeofday)) (pid s)" and "program_start s"
  shows "\<exists>(u :: 'a server_scheme) p. main E I argv wevs mevs s =
      seqP (main_daemonize E (1 < length argv \<and> strcmp (argv ! 0) ''-d'' \<noteq> 0) (apply_file secs zero_settings))
        (main_serve E wevs mevs (1 < length argv \<and> strcmp (argv ! 0) ''-d'' \<noteq> 0) (apply_file secs zero_settings)) u \<and>
    hist u = hist s @ [Gettimeofday, Srand (seed_of (sr_val (os E (hist s) Gettimeofday)) (pid s) mod 2 ^ 32), Ini_close] \<and>
    log_sane u \<and> gpcLogfile u = SLive p \<and> NextWorker u = -1 \<and> iFd u = 0 \<and> iIsInitDone u \<and>
    sCurrSSettings u = apply_file secs zero_settings \<and>
    sds_live u = sds_live s + owns (pcLogfile (apply_file secs zero_settings)) + 1 \<and> iDataInQueueCount u \<le> 6 \<and>
    log_flags u = (default_log_settings\<lparr>iCurrLogLevel := ucast (lLogLevel (apply_file secs zero_settings))\<rparr>, True,
      bTerminateProg s, False)"
proof -
  let ?c = "apply_file secs zero_settings"
  let ?x = "seed_of (sr_val (os E (hist s) Gettimeofday)) (pid s) mod 2 ^ 32"
  define g where "g = hist s @ [Gettimeofday, Srand ?x]"
  obtain e where a: "seed_random E s = Ret () (s\<lparr>hist := g, errno := e\<rparr>)"
    using seed_random_run[OF assms(7)] by (auto simp: g_def)
  let ?a = "s\<lparr>hist := g, errno := e\<rparr>"
  from assms(8) have start: "\<not> iIsInitDone ?a" "sCurrLogSettings ?a = default_log_settings"
    "sCurrSSettings ?a = zero_settings" "NextWorker ?a = -1" "iFd ?a = 0" by (simp_all add: program_start_def)
  have nf: "pcLogfile (sCurrSSettings ?a) \<noteq> SFreed" using start(3) by (simp add: zero_settings_def)
  obtain b where b: "settings_load E I SETTINGS_FILE ?a = Ret 0 b"
    "outside_log b = (outside_log ?a)\<lparr>hist := hist ?a @ [Ini_close], sCurrSSettings := apply_file secs (sCurrSSettings ?a),
      sds_live := sds_live ?a + owns (pcLogfile (apply_file secs (sCurrSSettings ?a))) - owns (pcLogfile (sCurrSSettings ?a))\<rparr>"
    using settings_load_run[OF assms(1,3-6) nf] by blast
  have fb: "hist b = g @ [Ini_close]" "sCurrSSettings b = ?c" "NextWorker b = -1" "iFd b = 0" "\<not> iIsInitDone b"
    "sds_live b = sds_live s + owns (pcLogfile ?c)"
    using fields[OF b(2)] start by (simp_all add: zero_settings_def owns_def)
  have lb: "sCurrLogSettings b = default_log_settings" "bTerminateProg b = bTerminateProg s"
    using arg_cong[OF b(2), of sCurrLogSettings] arg_cong[OF b(2), of bTerminateProg] start(2) by (simp_all add: outside_log_def)
  then have bulk: "0 \<le> iBulkWrite (sCurrLogSettings b)" by (simp add: default_log_settings_def)
  obtain f where f: "sds_arg (pcLogfile ?c) x = Ret f x" for x :: "'a server_scheme"
    using apply_file_name[of secs] by (cases "pcLogfile ?c") (auto simp: sds_arg_def)
  obtain d p where d: "logger_init E f (ucast (lLogLevel ?c)) b = Ret 0 d" "aside d = aside b" "log_sane d"
    "iIsInitDone d" "gpcLogfile d = SLive p" "sds_live d = sds_live b + 1" "iDataInQueueCount d = 0"
    "log_flags d = (default_log_settings\<lparr>iCurrLogLevel := ucast (lLogLevel ?c)\<rparr>, True, bTerminateProg s, False)"
    using logger_init_run[OF assms(2) fb(5) bulk, unfolded lb] by blast
  let ?d = "log_st E eERROR (rendered [FL ''----- STARTING -------''] []) d"
  obtain u where u: "settings_to_log E ?d = Ret () u" "outside_log u = outside_log ?d"
  proof (rule settings_to_log_run[OF assms(1), of ?d])
    have "sCurrSSettings ?d = ?c" using aside_fields[OF d(2)] fb(2) by simp
    then show "pcLogfile (sCurrSSettings ?d) \<noteq> SFreed" using apply_file_name by simp
  qed
  have q: "log_flags ?d = log_flags d" "iDataInQueueCount ?d \<le> 1"
    using d(7) by (simp_all add: log_flags_def log_st_def log_enqueue_def)
  have "log_sane u" "log_flags u = log_flags d" "iDataInQueueCount u \<le> 6"
    using budgetD[OF budget_settings_log[OF assms(1)] log_sane_log_st[OF d(3)] u(1)] q by simp_all
  moreover have "hist u = g @ [Ini_close]" "sCurrSSettings u = ?c" "NextWorker u = -1" "iFd u = 0" "iIsInitDone u" "gpcLogfile u = SLive p"
    "sds_live u = sds_live s + owns (pcLogfile ?c) + 1"
    using fields[OF u(2)] aside_fields[OF d(2)] fb d(4-6) by simp_all
  moreover have "main E I argv wevs mevs s =
      seqP (main_daemonize E (1 < length argv \<and> strcmp (argv ! 0) ''-d'' \<noteq> 0) ?c)
        (main_serve E wevs mevs (1 < length argv \<and> strcmp (argv ! 0) ''-d'' \<noteq> 0) ?c) u"
    using a b(1) fb(2) f d(1) u(1)
    by (simp add: main_def settings_init_def settings_get_def log_calls[OF assms(1)] Let_def del: whenP_True)
  ultimately show ?thesis using d(8) unfolding g_def by auto
qed

section \<open>Turning into a daemon\<close>

definition daemon_closes :: "64 word \<Rightarrow> call list" where
  "daemon_closes lim = map (\<lambda>i. Close (sint (word_of_nat i :: 32 word)))
     [0..<unat (if lim = RLIM_INFINITY then 1024 else lim)]"

definition daemon_calls :: "64 word \<Rightarrow> call list" where
  "daemon_calls lim = [Umask, Getrlimit, Fork, Setsid, Sigaction SIGHUP, Fork, Chdir ''/''] @
     daemon_closes lim @ [Open ''/dev/null'', Dup 0, Dup 0]"

text \<open>
  The calls succeed, this process is the child of both forks (made before any worker is), and
  the lowest free descriptors are handed out.
\<close>

definition daemon_ok :: "env \<Rightarrow> bool" where
  "daemon_ok E \<longleftrightarrow> (\<forall>h. 0 \<le> sr_val (os E h Getrlimit) \<and>
     (Malloc ''worker'' \<notin> set h \<longrightarrow> sr_val (os E h Fork) = 0) \<and>
     0 \<le> sr_val (os E h (Sigaction SIGHUP)) \<and> 0 \<le> sr_val (os E h (Chdir ''/'')) \<and>
     sr_val (os E h (Open ''/dev/null'')) = 0 \<and>
     sr_val (os E (h @ [Open ''/dev/null'']) (Dup 0)) = 1 \<and> sr_val (os E (h @ [Dup 0]) (Dup 0)) = 2)"

lemma block_calls:
  "\<exists>e. blockP (map (\<lambda>c. voidP (callP E c)) cs) s = Ret () (s\<lparr>hist := hist s @ cs, errno := e\<rparr>)"
proof (induction cs arbitrary: s)
  case Nil
  show ?case by (intro exI[of _ "errno s"]) simp
next
  case (Cons c cs)
  from Cons.IH[of "s\<lparr>hist := hist s @ [c], errno := errno_after E (hist s) c (errno s)\<rparr>"] show ?case by simp
qed

lemma close_all_run:
  assumes "n = unat (if lim = RLIM_INFINITY then 1024 else lim)"
  shows "\<exists>e. close_all E n s = Ret () (s\<lparr>hist := hist s @ daemon_closes lim, errno := e\<rparr>)"
  using block_calls[of E "daemon_closes lim" s]
  by (simp add: close_all_def daemon_closes_def comp_def assms)

lemma daemon_files_run:
  assumes "daemon_ok E"
  shows "\<exists>e. daemon_files E lim s = Ret 0 (s\<lparr>hist := hist s @ daemon_closes lim @ [Open ''/dev/null'', Dup 0, Dup 0], errno := e\<rparr>)"
proof -
  obtain e where e: "close_all E (unat (if lim = RLIM_INFINITY then 1024 else lim)) s =
      Ret () (s\<lparr>hist := hist s @ daemon_closes lim, errno := e\<rparr>)"
    using close_all_run[OF refl] by blast
  have ok: "sr_val (os E h (Open ''/dev/null'')) = 0"
    "sr_val (os E (h @ [Open ''/dev/null'']) (Dup 0)) = 1" "sr_val (os E (h @ [Dup 0]) (Dup 0)) = 2" for h
    using assms unfolding daemon_ok_def by blast+
  have ok2: "sr_val (os E (hist s @ daemon_closes lim @ [Open ''/dev/null'']) (Dup 0)) = 1"
    "sr_val (os E (hist s @ daemon_closes lim @ [Open ''/dev/null'', Dup 0]) (Dup 0)) = 2"
    using ok(2)[of "hist s @ daemon_closes lim"] ok(3)[of "hist s @ daemon_closes lim @ [Open ''/dev/null'']"] by simp_all
  show ?thesis by (simp add: daemon_files_def e ok(1) ok2) blast
qed

lemma daemonize_run:
  fixes s :: "'a server_scheme"
  assumes "daemon_ok E" and "log_sane s" and "Malloc ''worker'' \<notin> set (hist s)"
  shows "\<exists>u. daemonize E s = Ret 0 u \<and> LoggerThread u = None \<and> logfile u = logfile s \<and> Head u = Head s \<and> log_sane u \<and>
    rest_of u = rest_of s \<and> hist u = hist s @ daemon_calls (rlim_max (sr_data (os E (hist s @ [Umask]) Getrlimit)))"
proof -
  define lim where "lim = rlim_max (sr_data (os E (hist s @ [Umask]) Getrlimit))"
  have ok: "\<And>h. \<not> sr_val (os E h Getrlimit) < 0" "\<And>h. Malloc ''worker'' \<notin> set h \<Longrightarrow> sr_val (os E h Fork) = 0"
    "\<And>h. \<not> sr_val (os E h (Sigaction SIGHUP)) < 0" "\<And>h. \<not> sr_val (os E h (Chdir ''/'')) < 0"
    using assms(1) by (auto simp: daemon_ok_def not_less)
  have fe: "daemon_fork E k x = k (x\<lparr>hist := hist x @ [Fork], errno := errno_after E (hist x) Fork (errno x),
      pid := child_pid E (length (hist x)), LoggerThread := None\<rparr>)"
    if "Malloc ''worker'' \<notin> set (hist x)" for k and x :: "'a server_scheme"
    using ok(2)[OF that] by (simp add: daemon_fork_def forkP_def)
  obtain de where de: "\<And>x :: 'a server_scheme. daemon_files E lim x =
      Ret 0 (x\<lparr>hist := hist x @ daemon_closes lim @ [Open ''/dev/null'', Dup 0, Dup 0], errno := de x\<rparr>)"
    using daemon_files_run[OF assms(1), of lim] by metis
  show ?thesis
    using assms(2,3)
    by (simp add: daemonize_def ok fe de daemon_calls_def rest_of_def log_sane_def flip: lim_def)
qed

lemma strncmp_eq:
  "NUL \<notin> set a \<Longrightarrow> NUL \<notin> set b \<Longrightarrow> length a + length b < n \<Longrightarrow> strncmp a b n = 0 \<longleftrightarrow> a = b"
  by (induction a b n rule: strncmp.induct) (auto simp: of_char_NUL simp del: neq0_conv)

lemma strcmp_eq: "strcmp a b = 0 \<longleftrightarrow> cstr a = cstr b"
proof -
  have "length (cstr x) \<le> length x" for x by (simp add: cstr_def length_takeWhile_le)
  from this[of a] this[of b] show ?thesis
    unfolding strcmp_def by (intro strncmp_eq cstr_no_nul) simp
qed

section \<open>The master between two events\<close>

text \<open>
  What can happen while the master is in its loop: the callback for a client, or a step of the
  logger's thread.
\<close>

inductive master_step :: "env \<Rightarrow> 'a server_scheme \<Rightarrow> 'a server_scheme \<Rightarrow> bool" for E where
  client: "socket_accept_client E s = Ret () t \<Longrightarrow> master_step E s t"
| thread: "logger_thread_step E s = Ret () t \<Longrightarrow> master_step E s t"

definition master_wf :: "nat \<Rightarrow> 'a server_scheme \<Rightarrow> bool" where
  "master_wf n s \<longleftrightarrow> log_sane s \<and> workers_up n s \<and> (\<exists>k. NextWorker s = next_after n k) \<and>
     (\<forall>x \<in> set (slots s). other_entry x)"

lemma master_wf_start:
  "table_up n s \<Longrightarrow> NextWorker s = -1 \<Longrightarrow> 0 < n \<Longrightarrow> n \<le> WORKER_MAX_WORKERS \<Longrightarrow> master_wf n s"
  using table_up_workers[of n s] table_up_others[of n s]
  by (auto simp: master_wf_def table_up_def next_after_def intro!: exI[of _ 0])

lemma master_wf_client:
  assumes "sds_doc E" and "master_wf n s"
  shows "\<exists>t. socket_accept_client E s = Ret () t \<and> master_wf n t"
proof -
  from assms(2) obtain k where wf: "log_sane s" "workers_up n s" "NextWorker s = next_after n k"
    "\<forall>x \<in> set (slots s). other_entry x" by (auto simp: master_wf_def)
  from client_event[OF assms(1) wf(2,3)] obtain t j where
    t: "socket_accept_client E s = Ret () t" "workers_up n t" "NextWorker t = next_after n j"
    "gWorkerAdmin t = gWorkerAdmin s" by blast
  have "log_sane t" using preservesD[OF sane.keep_accept[OF assms(1)] wf(1) t(1)] .
  with t wf(4) show ?thesis by (auto simp: master_wf_def slots_def)
qed

lemma master_wf_thread:
  assumes "master_wf n s" and "logger_thread_step E s = Ret () t"
  shows "master_wf n t"
proof -
  from outside_log_thread_step[of E s] assms(2) have "outside_log t = outside_log s" by simp
  from fields[OF this] have "gWorkerAdmin t = gWorkerAdmin s" "NextWorker t = NextWorker s" by simp_all
  moreover have "log_sane t" using assms by (auto simp: master_wf_def intro: preservesD[OF preserves_sane_thread])
  ultimately show ?thesis using assms(1) by (simp add: master_wf_def workers_up_def slots_def)
qed

interpretation master_loop: inductive_invariant "\<lambda>s. table_up n s \<and> NextWorker s = -1 \<and> 0 < n \<and> n \<le> WORKER_MAX_WORKERS"
  "\<lambda>s t. sds_doc E \<and> master_step E s t" "master_wf n" for n E
proof unfold_locales
  fix s t :: "'a server_scheme"
  show "master_wf n s" if "table_up n s \<and> NextWorker s = -1 \<and> 0 < n \<and> n \<le> WORKER_MAX_WORKERS"
    using that master_wf_start by blast
  show "master_wf n t" if wf: "master_wf n s" and step: "sds_doc E \<and> master_step E s t"
  proof -
    from step have doc: "sds_doc E" and "master_step E s t" by simp_all
    from this(2) show ?thesis
    proof cases
      case client
      with master_wf_client[OF doc wf] show ?thesis by auto
    next
      case thread
      with wf show ?thesis by (rule master_wf_thread)
    qed
  qed
qed

section \<open>Claims\<close>

text \<open>
  C1. The whole program: started without arguments, with a settings file whose contents the
  reader delivers and calls that succeed, it opens the socket on the port of that file, runs four
  workers whatever the file says about their number, hands each of the clients it accepts to the
  next worker in turn, and after \<^verbatim>\<open>SIGINT\<close> or \<^verbatim>\<open>SIGTERM\<close> closes the socket, stops
  all workers, and ends with status 0. The calls from the opening of the socket on are given
  exactly, for any number of clients, any failing \<^verbatim>\<open>accept\<close> among them, and any schedule of
  the logger's thread; every string the program made on the way has been freed, once.
\<close>

theorem main_serves_clients:
  fixes s :: "'a server_scheme"
  assumes "sds_doc E" and "log_io_ok E" and "start_ok E"
    and "ini_open I SETTINGS_FILE = Some h" and "ini_file I h secs"
    and "length secs < fuel E" and "\<forall>(sec, ps) \<in> set secs. length ps < fuel E"
    and "seed_ok (sr_val (os E (hist s) Gettimeofday)) (pid s)" and "program_start s"
    and "listen_ok E (ucast (lPort (apply_file secs zero_settings))) lfd"
    and "\<And>h. sr_val (os E h Ev_default_loop) \<noteq> 0"
    and "length argv \<le> 1" and "sig = MSigint \<or> sig = MSigterm"
  shows "\<exists>t ws h. main E I argv wevs (replicate m MClient @ sig # evs) s = Exited EXIT_SUCCESS t \<and>
    four_up ws \<and> prefix (hist s) h \<and>
    hist t = destroy_trace E (serve_trace E lfd (target_of ws) 0 m
      (h @ setup_calls (ucast (lPort (apply_file secs zero_settings))) lfd @
        loop_calls False (apply_file secs zero_settings) lfd) @ [Ev_break, Close lfd]) ws @ [bye] \<and>
    gWorkerAdmin t = zero_admin \<and> sCurrSSettings t = zero_settings \<and> iFd t \<le> 0 \<and> \<not> iIsInitDone t \<and>
    sds_live t = sds_live s"
proof -
  let ?c = "apply_file secs zero_settings" and ?mevs = "replicate m MClient @ sig # evs"
  from assms(12) have nod: "\<not> (1 < length argv \<and> strcmp (argv ! 0) ''-d'' \<noteq> 0)" by simp
  obtain u :: "'a server_scheme" and p where
    u: "main E I argv wevs ?mevs s = main_serve E wevs ?mevs False ?c u"
    "prefix (hist s) (hist u)" "log_sane u" "gpcLogfile u = SLive p" "NextWorker u = -1" "sCurrSSettings u = ?c"
    "sds_live u = sds_live s + owns (pcLogfile ?c) + 1" "iIsInitDone u"
    using main_start_run[OF assms(1,2,4-9), of argv wevs ?mevs] nod by auto
  have nf: "pcLogfile (sCurrSSettings u) \<noteq> SFreed" using u(6) apply_file_name by simp
  from main_serve_run[OF assms(1-3,10,11) u(3,4) nf u(5) assms(13), of wevs m evs False] obtain t ws g where
    t: "main_serve E wevs ?mevs False ?c u = Exited EXIT_SUCCESS t" "four_up ws" "prefix (hist u) g"
    "hist t = destroy_trace E (serve_trace E lfd (target_of ws) 0 m
      (g @ setup_calls (ucast (lPort ?c)) lfd @ loop_calls False ?c lfd) @ [Ev_break, Close lfd]) ws @ [bye]"
    "gWorkerAdmin t = zero_admin" "sCurrSSettings t = zero_settings" "iFd t \<le> 0" "\<not> iIsInitDone t"
    "sds_live t = sds_live u - owns (pcLogfile (sCurrSSettings u)) - (if iIsInitDone u then 1 else 0)"
    by (elim exE conjE) (rule that; assumption)
  from u(2) t(3) have "prefix (hist s) g" by (rule prefix_order.trans)
  moreover have "sds_live t = sds_live s" using t(9) u(6-8) by simp
  ultimately show ?thesis using u(1) t(1-8) by (intro exI[of _ t] exI[of _ ws] exI[of _ g]) simp
qed

lemma set_destroy_trace: "set h \<subseteq> set (destroy_trace E h ws)"
proof (induction E h ws rule: destroy_trace.induct)
  case (3 E h w ws)
  then show ?case by auto
qed simp_all

definition demo_main :: env where
  "demo_main = calm_env\<lparr>os := \<lambda>h c. \<lparr>sr_val = (case c of
       Socket t \<Rightarrow> if t = ''AF_INET'' then 7 else 5
     | Accept _ \<Rightarrow> 10
     | Fork \<Rightarrow> if Malloc ''worker'' \<in> set h then 100 + int (length h) else 0
     | Malloc _ \<Rightarrow> 1
     | Ev_default_loop \<Rightarrow> 1
     | Dup _ \<Rightarrow> if last h = Dup 0 then 2 else 1
     | _ \<Rightarrow> 0), sr_errno = 0, sr_data = []\<rparr>\<rparr>"

lemma demo_main_ok:
  "sds_doc demo_main" "log_io_ok demo_main" "start_ok demo_main" "listen_ok demo_main p 7" "daemon_ok demo_main"
  "sr_val (os demo_main h Ev_default_loop) \<noteq> 0" "fuel demo_main = 100" "sr_val (os demo_main h Gettimeofday) = 0"
  by (simp_all add: demo_main_def calm_env_def documented_sds_def sds_doc_def log_io_ok_def start_ok_def start_calls_ok_def started_pos
      ipc_master_ok_def listen_ok_def daemon_ok_def)

lemma demo_start_state:
  "program_start (demo_server [] 0 0)" "seed_ok 0 (pid (demo_server [] 0 0))" "hist (demo_server [] 0 0) = []"
  by (simp_all add: program_start_def demo_server_def seed_ok_def seed_of_def LONG_MIN_def LONG_MAX_def)

lemma demo_ini:
  "ini_open (list_ini valid_settings_ini) SETTINGS_FILE = Some (valid_settings_ini, [])"
  "length valid_settings_ini < 100" "\<forall>(sec, ps) \<in> set valid_settings_ini. length ps < 100"
  by (simp_all add: list_ini_def valid_settings_ini_def)

theorem main_serves_clients_witness:
  "\<exists>t ws. main demo_main (list_ini valid_settings_ini) [''cewserver''] [] [MClient, MSigterm] (demo_server [] 0 0) =
     Exited 0 t \<and> four_up ws \<and> Sendmsg_fd (target_of ws 0) 10 \<in> set (hist t)"
proof -
  let ?s = "demo_server [] 0 0"
  have "seed_ok (sr_val (os demo_main (hist ?s) Gettimeofday)) (pid ?s)"
    using demo_start_state(2) demo_main_ok(8) by simp
  from main_serves_clients[OF demo_main_ok(1-3) demo_ini(1) list_ini_file demo_ini(2,3)[folded demo_main_ok(7)] this
      demo_start_state(1) demo_main_ok(4,6), of "[''cewserver'']" MSigterm "[]" 1 "[]"]
  obtain t ws h where
    t: "main demo_main (list_ini valid_settings_ini) [''cewserver''] [] [MClient, MSigterm] ?s = Exited 0 t" "four_up ws"
    "hist t = destroy_trace demo_main (serve_trace demo_main 7 (target_of ws) 0 1 h @ [Ev_break, Close 7]) ws @ [bye]"
    by auto
  have "sr_val (os demo_main h (Accept 7)) = 10" by (simp add: demo_main_def)
  then have "Sendmsg_fd (target_of ws 0) 10 \<in> set (serve_trace demo_main 7 (target_of ws) 0 1 h)" by (simp add: Let_def)
  with t set_destroy_trace[of "serve_trace demo_main 7 (target_of ws) 0 1 h @ [Ev_break, Close 7]" demo_main ws]
  show ?thesis by (intro exI[of _ t] exI[of _ ws]) auto
qed

text \<open>
  C23. The daemon's master process does not log. At whatever point of its work the logger's thread
  is when the main function turns the process into a daemon, the thread does not survive the two
  forks and is not started again: the lines queued at that moment and all later ones of this
  process, while it serves clients, until it has cleaned up and exited, never reach the log file.
  (The workers it forks are not meant: each of them starts a logger of its own.) It is supposed
  that the calls of turning into a daemon and of the start succeed.
\<close>

theorem main_daemon_unlogged:
  fixes a :: "'a server_scheme"
  assumes "sds_doc E" and "log_io_ok E" and "start_ok E" and "daemon_ok E"
    and "listen_ok E (ucast (lPort c)) lfd" and "\<And>h. sr_val (os E h Ev_default_loop) \<noteq> 0"
    and "log_sane a" and "gpcLogfile a = SLive p" and "pcLogfile (sCurrSSettings a) \<noteq> SFreed" and "NextWorker a = -1"
    and "Malloc ''worker'' \<notin> set (hist a)" and "sig = MSigint \<or> sig = MSigterm"
  shows "\<exists>u t. main_daemonize E True c a = Ret () u \<and> LoggerThread u = None \<and> Head u = Head a \<and>
    (\<exists>lim. hist u = hist a @ Printf (rendered [FL ''Demonizing, listening on port '', FD, FL [CHR 0x0A]] [AI (sint (lPort c))]) #
      daemon_calls lim) \<and>
    main_serve E wevs (replicate m MClient @ sig # evs) True c u = Exited EXIT_SUCCESS t \<and> logfile t = logfile a"
proof -
  let ?p = "Printf (rendered [FL ''Demonizing, listening on port '', FD, FL [CHR 0x0A]] [AI (sint (lPort c))])"
  define b where "b = a\<lparr>hist := hist a @ [?p], errno := errno_after E (hist a) ?p (errno a)\<rparr>"
  have b: "log_sane b" "Malloc ''worker'' \<notin> set (hist b)" "rest_of b = rest_of a" "logfile b = logfile a" "Head b = Head a"
    "hist b = hist a @ [?p]"
    using assms(7,11) by (simp_all add: b_def rest_of_def)
  obtain u where u: "daemonize E b = Ret 0 u" "LoggerThread u = None" "logfile u = logfile b" "Head u = Head b" "log_sane u"
    "rest_of u = rest_of b" "hist u = hist b @ daemon_calls (rlim_max (sr_data (os E (hist b @ [Umask]) Getrlimit)))"
    using daemonize_run[OF assms(4) b(1,2)] by blast
  have f: "gpcLogfile u = SLive p" "NextWorker u = -1" "pcLogfile (sCurrSSettings u) \<noteq> SFreed"
    using u(6) b(3) assms(8-10) by (simp_all add: rest_of_def)
  have "main_daemonize E True c a = Ret () u" using u(1) by (simp add: main_daemonize_def b_def)
  moreover obtain t where "main_serve E wevs (replicate m MClient @ sig # evs) True c u = Exited EXIT_SUCCESS t" "logfile t = logfile u"
    using main_serve_run[OF assms(1-3,5,6) u(5) f(1,3,2) assms(12), of wevs m evs True] u(2) by blast
  ultimately show ?thesis using u b by (intro exI[of _ u] exI[of _ t]) auto
qed

theorem main_daemon_unlogged_witness:
  "\<exists>u t. Head demo_running = [''a''] \<and> LoggerThread demo_running \<noteq> None \<and>
     main_daemonize demo_main True zero_settings demo_running = Ret () u \<and> Head u = [''a''] \<and>
     main_serve demo_main [] [MClient, MSigint] True zero_settings u = Exited 0 t \<and> logfile t = []"
proof -
  note s = demo_running_ok
  have d: "Head demo_running = [''a'']" "logfile demo_running = []" "NextWorker demo_running = -1"
    "pcLogfile (sCurrSSettings demo_running) \<noteq> SFreed" "Malloc ''worker'' \<notin> set (hist demo_running)"
    by (simp_all add: s) (simp_all add: demo_running_def demo_server_def)
  from main_daemon_unlogged[OF demo_main_ok(1-3,5,4,6) s(7,6) d(4,3,5), of MSigint zero_settings "[]" 1 "[]"] d s(9)
  show ?thesis by auto
qed

text \<open>
  C13. The master's loop is safe: with the workers started, whatever clients come, whatever the
  calls answer, and however the steps of the logger's thread fall between them, in every state
  that can be reached the table is intact, the routing counter names a running worker, the
  logger's counters agree with its queue, and the callback for the next client returns: it
  neither divides by zero nor leaves the table nor follows a null pointer.
\<close>

theorem master_loop_safe:
  assumes "sds_doc E" and "reach (\<lambda>s. table_up n s \<and> NextWorker s = -1) (master_step E) s"
    and "0 < n" and "n \<le> WORKER_MAX_WORKERS"
  shows "master_wf n s \<and> (\<exists>t. socket_accept_client E s = Ret () t \<and> master_wf n t)"
proof -
  from assms(2) have "reach (\<lambda>s. table_up n s \<and> NextWorker s = -1 \<and> 0 < n \<and> n \<le> WORKER_MAX_WORKERS)
      (\<lambda>s t. sds_doc E \<and> master_step E s t) s"
    by (induction rule: reach.induct) (use assms in \<open>auto intro: reach.intros\<close>)
  then have "master_wf n s" by (rule master_loop.inv_reach)
  with master_wf_client[OF assms(1)] show ?thesis by blast
qed

theorem master_loop_safe_witness:
  "\<exists>s :: server. table_up 1 s \<and> (\<exists>t. socket_accept_client demo_main s = Ret () t \<and> master_wf 1 t)"
proof -
  let ?w = "zero_worker\<lparr>Pid := 20, iMasterIPCfd := 21, IPCFile := SLive (ipc_path 5)\<rparr>"
  let ?s = "demo_server [Some ?w] 1 3"
  have up: "table_up 1 ?s"
    by (auto simp: table_up_def slots_def log_sane_def demo_server_def default_log_settings_def WORKER_MAX_WORKERS_def
        entry_up_def zero_worker_def nth_Cons' less_Suc_eq)
  then have "reach (\<lambda>s. table_up 1 s \<and> NextWorker s = -1) (master_step demo_main) ?s"
    by (intro reach.start) (simp add: demo_server_def)
  from master_loop_safe[OF demo_main_ok(1) this] up show ?thesis by (auto simp: WORKER_MAX_WORKERS_def)
qed

text \<open>
  The test for the option looks at the name of the program and is inverted: what the arguments
  say makes no difference, there being one or none does.
\<close>

lemma main_ignores_arguments:
  assumes "1 < length argv" and "1 < length argv'" and "cstr (argv ! 0) = cstr (argv' ! 0)"
  shows "main E I argv = main E I argv'"
  using assms strcmp_eq[of "argv ! 0" "''-d''"] strcmp_eq[of "argv' ! 0" "''-d''"] by (simp add: main_def fun_eq_iff)

text \<open>The seed overflows for an ordinary process number and time of day.\<close>

lemma seed_overflows:
  "sr_val (os E (hist s) Gettimeofday) = 1700000000999999 \<Longrightarrow> pid s = 10000 \<Longrightarrow>
   \<exists>t. seed_random E s = Fault SignedOverflow t"
  by (simp add: seed_random_def LONG_MIN_def LONG_MAX_def Let_def)

end
