(* ===== verification/Main_Failures.thy ===== *)
theory Main_Failures
  imports Main_Server
begin

text \<open>
  The error paths of the main function, \<^verbatim>\<open>src/src/cew_main.c\<close>: no settings file, a worker that
  cannot be forked, and a port that cannot be bound after the workers have been started.
\<close>

section \<open>Before the logger runs\<close>

lemma destroy_trace_empty: "destroy_trace E h (replicate k None) = h"
  by (induction k) simp_all

text \<open>The exit function does not come back, so what stands after it is not reached.\<close>

lemma do_exit_no_return: "do_exit E c s \<noteq> Ret a t"
  by (auto simp: do_exit_def split: outcome.splits)

text \<open>While the logger does not run, the bad format of the error exit is not looked at.\<close>

lemma exit_with_errno_silent:
  "\<not> iIsInitDone s \<Longrightarrow> do_exit_with_errno E e s = do_exit E e s"
  by (simp add: do_exit_with_errno_def log_error_def log_msg_bad_format is_msg_allowed_def)

section \<open>After the workers run\<close>

text \<open>
  The two messages of the error paths have a conversion more than arguments. The start of the
  program has logged at most six lines and that of four workers at most twenty-one more, the queue
  takes fifty, and no configured level keeps errors out: so the message is formatted.
\<close>

lemma bad_message:
  assumes "vformat fs args = None" and "budget 21 m" and "log_sane s" and "m s = Ret v u"
    and "log_flags s = (default_log_settings\<lparr>iCurrLogLevel := l\<rparr>, True, False, False)" and "iDataInQueueCount s \<le> 6"
    and "log_flags w = log_flags u" and "iDataInQueueCount w = iDataInQueueCount u"
  shows "log_error E fs args w = Fault MissingFormatArgument (w\<lparr>stamps := Suc (stamps w)\<rparr>)"
proof -
  have "log_flags w = (default_log_settings\<lparr>iCurrLogLevel := l\<rparr>, True, False, False)" "iDataInQueueCount w \<le> 50"
    using budgetD[OF assms(2-4)] assms(5-8) by simp_all
  from errors_accepted[OF this] show ?thesis by (simp add: log_error_def log_msg_bad_format[OF assms(1)])
qed

definition port_taken :: "env \<Rightarrow> 16 word \<Rightarrow> int \<Rightarrow> bool" where
  "port_taken E p fd \<longleftrightarrow> 0 < fd \<and> (\<forall>h. sr_val (os E h (Getaddrinfo (port_text p))) = 0 \<and>
     sr_val (os E h (Socket ''AF_INET'')) = fd \<and> sr_val (os E h (Setsockopt fd)) \<noteq> -1 \<and>
     sr_val (os E (h @ [Setsockopt fd]) (Bind fd (port_text p))) = -1 \<and>
     sr_errno (os E (h @ [Setsockopt fd]) (Bind fd (port_text p))) \<noteq> 0)"

lemma socket_setup_taken:
  assumes "port_taken E p fd"
  shows "\<exists>e t. socket_setup E p s = Ret (e, None) t \<and> e \<noteq> 0 \<and>
    t = s\<lparr>hist := hist s @ take 4 (setup_calls p fd), errno := e, iFd := fd\<rparr>"
proof -
  have "\<not> fd < 0" "\<And>h. sr_val (os E h (Getaddrinfo (port_text p))) = 0" "\<And>h. sr_val (os E h (Socket ''AF_INET'')) = fd"
    "\<And>h. sr_val (os E h (Setsockopt fd)) \<noteq> -1" 
    "\<And>h. sr_val (os E (h @ [Setsockopt fd]) (Bind fd (port_text p))) = -1"
    "\<And>h. sr_errno (os E (h @ [Setsockopt fd]) (Bind fd (port_text p))) \<noteq> 0"
    using assms by (auto simp: port_taken_def)
  moreover from this(5,6)[of "hist s @ [Getaddrinfo (port_text p), Socket ''AF_INET'']"]
  have "sr_val (os E (hist s @ [Getaddrinfo (port_text p), Socket ''AF_INET'', Setsockopt fd]) (Bind fd (port_text p))) = -1"
    "sr_errno (os E (hist s @ [Getaddrinfo (port_text p), Socket ''AF_INET'', Setsockopt fd]) (Bind fd (port_text p))) \<noteq> 0"
    by simp_all
  ultimately show ?thesis
    by (simp add: socket_setup_def ret_errno_def setup_calls_def errno_after_def[of E _ "Bind fd (port_text p)"])
qed

lemma main_serve_taken:
  assumes "sds_doc E" and "log_io_ok E" and "start_ok E" and "port_taken E (ucast (lPort c)) fd" and "log_sane s"
    and "log_flags s = (default_log_settings\<lparr>iCurrLogLevel := l\<rparr>, True, False, False)" and "iDataInQueueCount s \<le> 6"
  shows "\<exists>t h. main_serve E wevs mevs d c s = Fault MissingFormatArgument t \<and> table_up 4 t \<and> iFd t = fd \<and>
    prefix (hist s) h \<and> hist t = h @ take 4 (setup_calls (ucast (lPort c)) fd)"
proof -
  have four: "4 \<le> WORKER_MAX_WORKERS" by (simp add: WORKER_MAX_WORKERS_def)
  obtain v where v: "worker_init E wevs 4 s = Ret 0 v" "table_up 4 v" "prefix (hist s) (hist v)"
    using worker_init_run[OF assms(1-3,5) four, of wevs] by auto
  from socket_setup_taken[OF assms(4), of v] obtain e u where
    u: "socket_setup E (ucast (lPort c)) v = Ret (e, None) u" "e \<noteq> 0"
    "u = v\<lparr>hist := hist v @ take 4 (setup_calls (ucast (lPort c)) fd), errno := e, iFd := fd\<rparr>" by blast
  have "log_error E [FL ''Exit with '', FD, FL '': '', FS, FL ''. Line '', FD, FL ''.'', FL [CHR 0x0A]]
      [AI e, AS (strerror_text E e)] u = Fault MissingFormatArgument (u\<lparr>stamps := Suc (stamps u)\<rparr>)"
    by (rule bad_message[OF _ budget_worker_init[OF assms(1), of 4, simplified] assms(5) v(1) assms(6,7)])
      (simp_all add: u(3) log_flags_def)
  then have "main_serve E wevs mevs d c s = Fault MissingFormatArgument (u\<lparr>stamps := Suc (stamps u)\<rparr>)"
    using v(1) u(1,2) by (simp add: main_serve_def)
  then show ?thesis
    using v(2,3) by (intro exI[of _ "u\<lparr>stamps := Suc (stamps u)\<rparr>"] exI[of _ "hist v"]) (simp add: u(3) table_up_def slots_def log_sane_def)
qed

lemma main_serve_fork_fails:
  assumes "sds_doc E" and "log_io_ok E" and "fork_fails E k" and "k < 4" and "started (hist s) = 0" and "log_sane s"
    and "log_flags s = (default_log_settings\<lparr>iCurrLogLevel := l\<rparr>, True, False, False)" and "iDataInQueueCount s \<le> 6"
  shows "\<exists>t. main_serve E wevs mevs d c s = Fault MissingFormatArgument t \<and> table_up k t \<and> iFd t = iFd s \<and>
    prefix (hist s) (hist t) \<and> sds_live t = sds_live s + int k + 1"
proof -
  have four: "4 \<le> WORKER_MAX_WORKERS" by (simp add: WORKER_MAX_WORKERS_def)
  obtain u where u: "worker_init E wevs 4 s = Ret 1 u" "table_up k u" "rest_of u = rest_of s" "prefix (hist s) (hist u)"
    "sds_live u = sds_live s + int k + 1"
    using worker_init_fork_fails[OF assms(1-3,6,4) four assms(5), of wevs] by auto
  have "log_error E [FL ''Exit pid '', FD, FL '' with '', FD, FL '': '', FS, FL ''. Line '', FD, FL ''.'', FL [CHR 0x0A]]
      [AI (pid u), AI 1, AS (strerror_text E 1)] u = Fault MissingFormatArgument (u\<lparr>stamps := Suc (stamps u)\<rparr>)"
    by (rule bad_message[OF _ budget_worker_init[OF assms(1), of 4, simplified] assms(6) u(1) assms(7,8)]) simp_all
  then have "main_serve E wevs mevs d c s = Fault MissingFormatArgument (u\<lparr>stamps := Suc (stamps u)\<rparr>)"
    using u(1) by (simp add: main_serve_def do_exit_with_errno_def)
  then show ?thesis
    using u(2-5) by (intro exI[of _ "u\<lparr>stamps := Suc (stamps u)\<rparr>"]) (simp add: table_up_def slots_def log_sane_def rest_of_def)
qed

section \<open>Claims\<close>

text \<open>
  C32. Without its settings file the program ends at once and leaves nothing behind: it exits with
  the status \<^verbatim>\<open>SET_NOFILE\<close> having made no call but those that seed the random numbers and
  the farewell; no worker was started, no socket opened, no thread, no file.
\<close>

theorem main_without_settings:
  fixes s :: "'a server_scheme"
  assumes "sds_doc E" and "log_io_ok E" and "ini_open I SETTINGS_FILE = None"
    and "seed_ok (sr_val (os E (hist s) Gettimeofday)) (pid s)" and "program_start s"
    and "log_sane s" and "gWorkerAdmin s = zero_admin"
  shows "\<exists>t. main E I argv wevs mevs s = Exited SET_NOFILE t \<and> hist t = hist s @ [Gettimeofday,
      Srand (seed_of (sr_val (os E (hist s) Gettimeofday)) (pid s) mod 2 ^ 32), bye] \<and>
    \<not> iIsInitDone t \<and> gWorkerAdmin t = zero_admin \<and> iFd t \<le> 0 \<and> sds_live t = sds_live s"
proof -
  let ?x = "Srand (seed_of (sr_val (os E (hist s) Gettimeofday)) (pid s) mod 2 ^ 32)"
  from seed_random_run[OF assms(4)] obtain e where
    e: "seed_random E s = Ret () (s\<lparr>hist := hist s @ [Gettimeofday, ?x], errno := e\<rparr>)" by blast
  let ?s = "s\<lparr>hist := hist s @ [Gettimeofday, ?x], errno := e\<rparr>"
  have f: "\<not> iIsInitDone ?s" "iFd ?s = 0" "sCurrSSettings ?s = zero_settings" "slots ?s = replicate WORKER_MAX_WORKERS None"
    "log_sane ?s" using assms(5-7) by (simp_all add: program_start_def slots_def zero_admin_def log_sane_def)
  have run: "main E I argv wevs mevs s = do_exit E SET_NOFILE ?s"
    using e assms(3) f(1)
    by (simp add: main_def settings_init_def settings_load_def exit_with_errno_silent Let_def)
      (simp add: do_exit_no_return split: outcome.split)
  from do_exit_run[OF assms(1,2) f(5), of _ SET_NOFILE] f show ?thesis
    unfolding run by (auto simp: destroy_trace_empty socket_calls_def other_entry_def slot_owns_def owns_def
        zero_settings_def sum_list_replicate)
qed

theorem main_without_settings_witness:
  "\<exists>t. main demo_main \<lparr>ini_open = (\<lambda>_. None), ini_next_section = (\<lambda>_. (0, [], ())), ini_read_pair = (\<lambda>_. (0, [], [], ()))\<rparr>
      [] [] [] (demo_server [] 0 0) = Exited (-3) t \<and> hist t = [Gettimeofday, Srand 0, bye]"
proof -
  let ?s = "demo_server [] 0 0"
  have "seed_ok (sr_val (os demo_main (hist ?s) Gettimeofday)) (pid ?s)"
    using demo_start_state(2) demo_main_ok(8) by simp
  moreover have "gWorkerAdmin ?s = zero_admin" by (simp add: demo_server_def zero_admin_def WORKER_MAX_WORKERS_def)
  ultimately show ?thesis
    using main_without_settings[OF demo_main_ok(1,2), of
        "\<lparr>ini_open = (\<lambda>_. None), ini_next_section = (\<lambda>_. (0, [], ())), ini_read_pair = (\<lambda>_. (0, [], [], ()))\<rparr>" ?s "[]" "[]" "[]"]
      demo_start_state demo_server_sane demo_main_ok(8) by (auto simp: seed_of_def)
qed

text \<open>
  C33. When the port cannot be bound, the four workers are already running, and they stay
  behind: whatever log level is configured, the error message is formatted, it has a conversion
  without an argument, and the program goes wrong right there, after the failed
  \<^verbatim>\<open>bind\<close>, with the four workers in its table and the socket open; it does not get to the
  exit that would stop them.
\<close>

theorem main_port_taken:
  fixes s :: "'a server_scheme"
  assumes "sds_doc E" and "log_io_ok E" and "start_ok E"
    and "ini_open I SETTINGS_FILE = Some h" and "ini_file I h secs"
    and "length secs < fuel E" and "\<forall>(sec, ps) \<in> set secs. length ps < fuel E"
    and "seed_ok (sr_val (os E (hist s) Gettimeofday)) (pid s)" and "program_start s" and "\<not> bTerminateProg s"
    and "port_taken E (ucast (lPort (apply_file secs zero_settings))) fd" and "length argv \<le> 1"
  shows "\<exists>t g. main E I argv wevs mevs s = Fault MissingFormatArgument t \<and> table_up 4 t \<and> iFd t = fd \<and>
    prefix (hist s) g \<and> hist t = g @ take 4 (setup_calls (ucast (lPort (apply_file secs zero_settings))) fd)"
proof -
  let ?c = "apply_file secs zero_settings"
  from assms(12) have nod: "\<not> (1 < length argv \<and> strcmp (argv ! 0) ''-d'' \<noteq> 0)" by simp
  obtain a :: "'a server_scheme" where
    a: "main E I argv wevs mevs s = main_serve E wevs mevs False ?c a" "prefix (hist s) (hist a)" "log_sane a"
    "log_flags a = (default_log_settings\<lparr>iCurrLogLevel := ucast (lLogLevel ?c)\<rparr>, True, False, False)" "iDataInQueueCount a \<le> 6"
    using main_start_run[OF assms(1,2,4-9), of argv wevs mevs] nod assms(10) by auto
  from main_serve_taken[OF assms(1-3,11) a(3-5), of wevs mevs False] obtain t g where
    t: "main_serve E wevs mevs False ?c a = Fault MissingFormatArgument t" "table_up 4 t" "iFd t = fd" "prefix (hist a) g"
    "hist t = g @ take 4 (setup_calls (ucast (lPort ?c)) fd)" by blast
  have "prefix (hist s) g" using a(2) t(4) by (rule prefix_order.trans)
  with t a(1) show ?thesis by (intro exI[of _ t] exI[of _ g]) simp
qed

definition demo_taken :: env where
  "demo_taken = demo_main\<lparr>os := \<lambda>h c. (case c of Bind fd p \<Rightarrow>
       if last h = Setsockopt 7 then \<lparr>sr_val = -1, sr_errno = 98, sr_data = []\<rparr> else os demo_main h c
     | _ \<Rightarrow> os demo_main h c)\<rparr>"

lemma demo_taken_ok:
  "sds_doc demo_taken" "log_io_ok demo_taken" "start_ok demo_taken" "port_taken demo_taken p 7"
  "fuel demo_taken = 100" "sr_val (os demo_taken h Gettimeofday) = 0"
  by (simp_all add: demo_taken_def demo_main_def calm_env_def documented_sds_def sds_doc_def log_io_ok_def start_ok_def start_calls_ok_def started_pos
      ipc_master_ok_def port_taken_def)

theorem main_port_taken_witness:
  "\<exists>t :: server. main demo_taken (list_ini valid_settings_ini) [''cewserver''] [] [] (demo_server [] 0 0) =
     Fault MissingFormatArgument t \<and> table_up 4 t \<and> iFd t = 7 \<and> (\<exists>p. last (hist t) = Bind 7 p)"
proof -
  let ?s = "demo_server [] 0 0"
  have "seed_ok (sr_val (os demo_taken (hist ?s) Gettimeofday)) (pid ?s)" "\<not> bTerminateProg ?s"
    using demo_start_state(2) demo_taken_ok(6) by (simp_all add: demo_server_def)
  from main_port_taken[OF demo_taken_ok(1-3) demo_ini(1) list_ini_file demo_ini(2,3)[folded demo_taken_ok(5)] this(1)
      demo_start_state(1) this(2) demo_taken_ok(4), of "[''cewserver'']" "[]" "[]"]
  show ?thesis by (auto simp: setup_calls_def)
qed

text \<open>
  C34. When worker \<open>k\<close> of the four cannot be forked, the start of the workers stops with those
  before it in the table, and the main function takes the error exit. Whatever log level is
  configured, its message is formatted and has a conversion too many: the program goes wrong
  there, and the \<open>k\<close> workers already running stay behind. One string was leaked before, the name
  of the socket file of the worker that was not to be: beside the strings of the settings, the
  logger and the \<open>k\<close> workers there is one more.
\<close>

theorem main_fork_fails:
  fixes s :: "'a server_scheme"
  assumes "sds_doc E" and "log_io_ok E" and "fork_fails E k" and "k < 4" and "started (hist s) = 0"
    and "ini_open I SETTINGS_FILE = Some h" and "ini_file I h secs"
    and "length secs < fuel E" and "\<forall>(sec, ps) \<in> set secs. length ps < fuel E"
    and "seed_ok (sr_val (os E (hist s) Gettimeofday)) (pid s)" and "program_start s" and "\<not> bTerminateProg s"
    and "length argv \<le> 1"
  shows "\<exists>t. main E I argv wevs mevs s = Fault MissingFormatArgument t \<and> table_up k t \<and> iFd t = 0 \<and>
    prefix (hist s) (hist t) \<and>
    sds_live t = sds_live s + owns (pcLogfile (apply_file secs zero_settings)) + 1 + int k + 1"
proof -
  let ?c = "apply_file secs zero_settings"
  from assms(13) have nod: "\<not> (1 < length argv \<and> strcmp (argv ! 0) ''-d'' \<noteq> 0)" by simp
  obtain a :: "'a server_scheme" where
    a: "main E I argv wevs mevs s = main_serve E wevs mevs False ?c a" "prefix (hist s) (hist a)" "log_sane a"
    "sds_live a = sds_live s + owns (pcLogfile ?c) + 1" "iFd a = 0" "started (hist a) = 0"
    "log_flags a = (default_log_settings\<lparr>iCurrLogLevel := ucast (lLogLevel ?c)\<rparr>, True, False, False)" "iDataInQueueCount a \<le> 6"
    using main_start_run[OF assms(1,2,6-11), of argv wevs mevs] nod assms(5,12) by auto
  from main_serve_fork_fails[OF assms(1-4) a(6,3,7,8), of wevs mevs False ?c] obtain t where
    t: "main_serve E wevs mevs False ?c a = Fault MissingFormatArgument t" "table_up k t" "iFd t = iFd a"
    "prefix (hist a) (hist t)" "sds_live t = sds_live a + int k + 1" by blast
  have "prefix (hist s) (hist t)" using a(2) t(4) by (rule prefix_order.trans)
  with t a(1,4,5) show ?thesis by (intro exI[of _ t]) simp
qed

text \<open>The third fork fails.\<close>

definition demo_no_fork :: env where
  "demo_no_fork = demo_main\<lparr>os := \<lambda>h c. if c = Fork \<and> 2 < started h
     then \<lparr>sr_val = -1, sr_errno = 11, sr_data = []\<rparr> else os demo_main h c\<rparr>"

lemma demo_no_fork_ok:
  "sds_doc demo_no_fork" "log_io_ok demo_no_fork" "fork_fails demo_no_fork 2" "fuel demo_no_fork = 100"
  "sr_val (os demo_no_fork h Gettimeofday) = 0"
  by (auto simp: demo_no_fork_def demo_main_def calm_env_def documented_sds_def sds_doc_def log_io_ok_def fork_fails_def
      start_calls_ok_def ipc_master_ok_def simp flip: started_pos)

theorem main_fork_fails_witness:
  "\<exists>t :: server. main demo_no_fork (list_ini valid_settings_ini) [''cewserver''] [] [] (demo_server [] 0 0) =
     Fault MissingFormatArgument t \<and> table_up 2 t \<and> iFd t = 0"
proof -
  let ?s = "demo_server [] 0 0"
  have s: "seed_ok (sr_val (os demo_no_fork (hist ?s) Gettimeofday)) (pid ?s)" "started (hist ?s) = 0" "\<not> bTerminateProg ?s"
    using demo_start_state demo_no_fork_ok(5) by simp_all (simp_all add: demo_server_def)
  from main_fork_fails[OF demo_no_fork_ok(1-3) _ s(2) demo_ini(1) list_ini_file demo_ini(2,3)[folded demo_no_fork_ok(4)] s(1)
      demo_start_state(1) s(3), of "[''cewserver'']" "[]" "[]"]
  show ?thesis by auto
qed

end
