(* ===== verification/Worker_Serving.thy ===== *)
theory Worker_Serving
  imports Worker_Process
begin

text \<open>
  What a worker does for its clients, over a whole run of its event loop: an abstract service
  that knows only the descriptors still to come, the clients attached, and the calls the clients
  notice; and that the event loop of \<^verbatim>\<open>src/src/cew_worker.c\<close> with the callbacks of
  \<^verbatim>\<open>src/src/cew_client.c\<close> is that service, whatever the order of events.
\<close>

section \<open>The abstract service\<close>

record service =
  arriving :: "int list"               \<comment> \<open>descriptors the master has passed or will pass\<close>
  attached :: "nat \<rightharpoonup> int"    \<comment> \<open>the descriptors of the present clients\<close>
  next_client :: nat
  effects :: "call list"               \<comment> \<open>what clients get to see\<close>

text \<open>
  \<open>inbox fd n\<close> is what the client sends that has the descriptor \<open>fd\<close> after it was closed \<open>n\<close>
  times; descriptors are used again. No bytes: it hangs up.
\<close>

definition serve_client ::
  "(int \<Rightarrow> nat \<Rightarrow> string) \<Rightarrow> (string \<rightharpoonup> string) \<Rightarrow> call list \<Rightarrow> int \<Rightarrow> call list" where
  "serve_client inbox fs done fd = (let d = inbox fd (count_list done (Close fd)) in
     (if d = [] then [] else [Send fd (http_answer fs (cstr d))]) @ [Shutdown fd, Close fd])"

fun service_step :: "(int \<Rightarrow> nat \<Rightarrow> string) \<Rightarrow> (string \<rightharpoonup> string) \<Rightarrow> wevent \<Rightarrow> service \<Rightarrow> service" where
  "service_step inbox fs EvIpc v = (case arriving v of
      [] \<Rightarrow> v
    | fd # fds \<Rightarrow> v\<lparr>arriving := fds, attached := (attached v)(next_client v \<mapsto> fd),
        next_client := Suc (next_client v)\<rparr>)"
| "service_step inbox fs (EvReadable a) v = (case attached v a of
      None \<Rightarrow> v
    | Some fd \<Rightarrow> v\<lparr>attached := (attached v)(a := None),
        effects := effects v @ serve_client inbox fs (effects v) fd\<rparr>)"
| "service_step inbox fs (EvTimeout a) v = (case attached v a of
      None \<Rightarrow> v
    | Some fd \<Rightarrow> v\<lparr>attached := (attached v)(a := None),
        effects := effects v @ [Shutdown fd, Close fd]\<rparr>)"
| "service_step inbox fs EvSigint v = v"

section \<open>The worker as a service\<close>

fun client_effect :: "call \<Rightarrow> bool" where
  "client_effect (Send fd d) = True"
| "client_effect (Shutdown fd) = True"
| "client_effect (Close fd) = True"
| "client_effect c = False"

definition service_of :: "int list \<Rightarrow> int \<Rightarrow> 'a server_scheme \<Rightarrow> service" where
  "service_of fds wfd s = \<lparr>
     arriving = drop (count_list (hist s) (Recvmsg_fd wfd)) fds,
     attached = (\<lambda>a. map_option (\<lambda>x. iSockfd (sClient x)) (cheap s a)),
     next_client = fresh_addr s,
     effects = filter client_effect (hist s)\<rparr>"

text \<open>The worker is in its loop: its entry is in the table, every client is watched and idle.\<close>

definition serving :: "nat \<Rightarrow> tsWorkerStruct \<Rightarrow> int list \<Rightarrow> 'a server_scheme \<Rightarrow> bool" where
  "serving i w fds s \<longleftrightarrow> i < length (slots s) \<and> slots s ! i = Some w \<and>
     io_on s = dom (cheap s) \<and> timer_on s = dom (cheap s) \<and>
     (\<forall>a x. cheap s a = Some x \<longrightarrow> idle_client x \<and> iSockfd (sClient x) \<in> set fds)"

text \<open>
  The kernel delivers the descriptors of \<open>fds\<close> in order over the socket \<open>wfd\<close> and then nothing
  more; client descriptors can be asked for their peer and deliver what the client sent,
  fewer than \<^verbatim>\<open>RECV_BUFF_SIZE\<close> bytes; there is memory for clients.
\<close>

definition kernel_delivers :: "env \<Rightarrow> int \<Rightarrow> int list \<Rightarrow> (int \<Rightarrow> nat \<Rightarrow> string) \<Rightarrow> bool" where
  "kernel_delivers E wfd fds inbox \<longleftrightarrow> 0 \<notin> set fds \<and>
     (\<forall>h. let k = count_list h (Recvmsg_fd wfd); r = os E h (Recvmsg_fd wfd) in
        if k < length fds then sr_val r \<noteq> -1 \<and> sr_data r \<noteq> [] \<and> le32 (sr_data r) = fds ! k
        else sr_val r = -1 \<or> sr_data r = []) \<and>
     (\<forall>h. sr_val (os E h (Malloc ''client'')) \<noteq> 0) \<and>
     (\<forall>h. \<forall>fd \<in> set fds. sr_val (os E h (Getpeername fd)) \<noteq> -1 \<and> sr_val (os E h (Inet_ntop fd)) \<noteq> 0 \<and>
        (let d = inbox fd (count_list h (Close fd)); r = os E h (Recv fd RECV_BUFF_SIZE) in
           sr_val r = int (length d) \<and> sr_data r = d \<and> length d < RECV_BUFF_SIZE))"

text \<open>Everything a run of the loop relies on outside the code.\<close>

definition service_ok ::
  "env \<Rightarrow> int \<Rightarrow> int list \<Rightarrow> (int \<Rightarrow> nat \<Rightarrow> string) \<Rightarrow> (call list \<Rightarrow> string \<Rightarrow> int) \<Rightarrow> (string \<rightharpoonup> string) \<Rightarrow> bool" where
  "service_ok E wfd fds inbox ffd fs \<longleftrightarrow> sds_doc E \<and> shutdown_drains E \<and> file_system E ffd fs \<and>
     (\<forall>m. \<not> sds_moves E [] m) \<and> kernel_delivers E wfd fds inbox"

lemma kernel_deliversD:
  assumes "kernel_delivers E wfd fds inbox"
  shows "count_list h (Recvmsg_fd wfd) < length fds \<Longrightarrow> sr_val (os E h (Recvmsg_fd wfd)) \<noteq> -1 \<and>
      sr_data (os E h (Recvmsg_fd wfd)) \<noteq> [] \<and>
      le32 (sr_data (os E h (Recvmsg_fd wfd))) = fds ! count_list h (Recvmsg_fd wfd)"
    and "length fds \<le> count_list h (Recvmsg_fd wfd) \<Longrightarrow>
      sr_val (os E h (Recvmsg_fd wfd)) = -1 \<or> sr_data (os E h (Recvmsg_fd wfd)) = []"
    and "sr_val (os E h (Malloc ''client'')) \<noteq> 0"
    and "fd \<in> set fds \<Longrightarrow> sr_val (os E h (Getpeername fd)) \<noteq> -1"
    and "fd \<in> set fds \<Longrightarrow> sr_val (os E h (Inet_ntop fd)) \<noteq> 0"
    and "fd \<in> set fds \<Longrightarrow> sr_val (os E h (Recv fd RECV_BUFF_SIZE)) = int (length (inbox fd (count_list h (Close fd))))"
    and "fd \<in> set fds \<Longrightarrow> sr_data (os E h (Recv fd RECV_BUFF_SIZE)) = inbox fd (count_list h (Close fd))"
    and "fd \<in> set fds \<Longrightarrow> length (inbox fd (count_list h (Close fd))) < RECV_BUFF_SIZE"
    and "fd \<in> set fds \<Longrightarrow> fd \<noteq> 0"
  using assms unfolding kernel_delivers_def Let_def by (auto split: if_split_asm)

section \<open>One event\<close>

text \<open>What the filters see of the calls of one callback.\<close>

lemma effects_down [simp]:
  "filter client_effect (down_calls a fd k) = (if fd = 0 then [] else [Shutdown fd, Close fd])"
  "count_list (down_calls a fd k) (Recvmsg_fd wfd) = 0"
  by (simp_all add: down_calls_def count_list_0_iff)

lemma effects_http [simp]:
  "filter client_effect (http_calls ffd h fs str) = []"
  "count_list (http_calls ffd h fs str) (Recvmsg_fd wfd) = 0"
  by (auto simp: http_calls_def file_calls_def count_list_0_iff split: option.splits)

lemma effects_serve [simp]:
  "filter client_effect (serve_calls a fd ffd h fs str k) =
     Send fd (http_answer fs str) # (if fd = 0 then [] else [Shutdown fd, Close fd])"
  "count_list (serve_calls a fd ffd h fs str k) (Recvmsg_fd wfd) = 0"
  by (simp_all add: serve_calls_def)

lemma count_close_effects: "count_list (filter client_effect h) (Close fd) = count_list h (Close fd)"
  by (induction h) auto

text \<open>A client that is taken down leaves the service.\<close>

lemma down_service:
  assumes "serving i w fds s" and "client_down a cs s t" and "cheap s a = Some x"
    and "iSockfd (sClient x) = fd" and "count_list cs (Recvmsg_fd wfd) = 0"
  shows "serving i w fds t"
    and "service_of fds wfd t = (service_of fds wfd s)\<lparr>attached := (attached (service_of fds wfd s))(a := None),
      effects := effects (service_of fds wfd s) @ filter client_effect cs\<rparr>"
proof -
  note d = client_downD[OF assms(2)]
  from fields(3)[OF assms(2)[unfolded client_down_def]] have "gWorkerAdmin t = gWorkerAdmin s" by simp
  with assms(1) d show "serving i w fds t" by (auto simp: serving_def slots_def)
  show "service_of fds wfd t = (service_of fds wfd s)\<lparr>attached := (attached (service_of fds wfd s))(a := None),
      effects := effects (service_of fds wfd s) @ filter client_effect cs\<rparr>"
    using d(1,2,5) assms(5) by (simp add: service_of_def fun_eq_iff)
qed

lemma client_hangup_run:
  assumes "sds_doc E" and "shutdown_drains E" and "cheap s a = Some x"
    and "iSockfd (sClient x) = fd" and "acSendBuff (sClient x) = SNull"
    and "sr_val (os E (hist s) (Recv fd RECV_BUFF_SIZE)) = 0"
  shows "\<exists>k t. client_callback_serve E a s = Ret () t \<and>
    client_down a (Recv fd RECV_BUFF_SIZE # down_calls a fd k) s t"
proof -
  let ?s = "log_st E eDEBUG (rendered [FL ''Disconnecting client '', FD] [AI (iId (sClient x))])
    (s\<lparr>hist := hist s @ [Recv fd RECV_BUFF_SIZE], errno := errno_after E (hist s) (Recv fd RECV_BUFF_SIZE) (errno s)\<rparr>)"
  have "cheap ?s a = Some x" using assms(3) by simp
  from client_deregister_run[OF assms(1,2) this assms(4,5)] assms show ?thesis
    by (auto simp: client_callback_serve_def client_disconnect_def log_calls client_down_def)
qed

lemma ipc_event:
  assumes "service_ok E wfd fds inbox ffd fs" and "serving i w fds s" and "iWorkerIPCfd w = wfd"
  shows "\<exists>t. workerp_ipc_callback E i s = Ret () t \<and> serving i w fds t \<and>
    service_of fds wfd t = service_step inbox fs EvIpc (service_of fds wfd s)"
proof -
  let ?k = "count_list (hist s) (Recvmsg_fd wfd)"
  have doc: "sds_doc E" and net: "kernel_delivers E wfd fds inbox"
    using assms(1) by (auto simp: service_ok_def)
  have at: "worker_at i s = Ret w s" using assms(2) by (simp add: serving_def worker_at_run slots_def)
  show ?thesis
  proof (cases "?k < length fds")
    case False
    then have r: "sr_val (os E (hist s) (Recvmsg_fd wfd)) = -1 \<or> sr_data (os E (hist s) (Recvmsg_fd wfd)) = []"
      using kernel_deliversD(2)[OF net, of "hist s"] by simp
    show ?thesis
      using False r at assms(2,3)
      by (cases "sr_val (os E (hist s) (Recvmsg_fd wfd)) = -1")
        (simp_all add: workerp_ipc_callback_def receive_fd_from_worker_def log_calls[OF doc] serving_def
          slots_def service_of_def)
  next
    case True
    define fd where "fd = fds ! ?k"
    have fd: "fd \<in> set fds" "drop ?k fds = fd # drop (Suc ?k) fds"
      using True by (simp_all add: fd_def Cons_nth_drop_Suc)
    have r: "sr_val (os E (hist s) (Recvmsg_fd wfd)) \<noteq> -1" "sr_data (os E (hist s) (Recvmsg_fd wfd)) \<noteq> []"
      "le32 (sr_data (os E (hist s) (Recvmsg_fd wfd))) = fd"
      using kernel_deliversD(1)[OF net True] by (simp_all add: fd_def)
    show ?thesis
      using fd r at assms(2,3) kernel_deliversD(3-5)[OF net]
      by (auto simp: workerp_ipc_callback_def receive_fd_from_worker_def log_calls[OF doc] serving_def
          slots_def service_of_def client_register_ev_def ev_defs idle_client_def new_client_def fun_eq_iff)
  qed
qed

lemma readable_event:
  assumes "service_ok E wfd fds inbox ffd fs" and "serving i w fds s"
  shows "\<exists>t. whenP (a \<in> io_on s) (client_callback_serve E a) s = Ret () t \<and> serving i w fds t \<and>
    service_of fds wfd t = service_step inbox fs (EvReadable a) (service_of fds wfd s)"
proof (cases "cheap s a")
  case None
  then have "a \<notin> io_on s" "attached (service_of fds wfd s) a = None"
    using assms(2) by (auto simp: serving_def service_of_def)
  with assms(2) show ?thesis by simp
next
  case (Some x)
  define fd where "fd = iSockfd (sClient x)"
  let ?n = "count_list (hist s) (Close fd)"
  have ok: "sds_doc E" "shutdown_drains E" "file_system E ffd fs" "\<And>m. \<not> sds_moves E [] m"
    and net: "kernel_delivers E wfd fds inbox" using assms(1) by (auto simp: service_ok_def)
  have x: "a \<in> io_on s" "fd \<in> set fds" "idle_client x"
    using assms(2) Some by (auto simp: serving_def fd_def)
  have att: "attached (service_of fds wfd s) a = Some fd" using Some by (simp add: service_of_def fd_def)
  note net = kernel_deliversD(6-9)[OF net x(2)]
  obtain cs t where t: "client_callback_serve E a s = Ret () t" "client_down a cs s t"
    "count_list cs (Recvmsg_fd wfd) = 0"
    "filter client_effect cs = serve_client inbox fs (effects (service_of fds wfd s)) fd"
  proof (cases "inbox fd ?n = []")
    case True
    with client_hangup_run[OF ok(1,2) Some fd_def[symmetric]] x(3) net(1)[of "hist s"] obtain k t where
      "client_callback_serve E a s = Ret () t" "client_down a (Recv fd RECV_BUFF_SIZE # down_calls a fd k) s t"
      by (auto simp: idle_client_def)
    with True net(4) show ?thesis
      by (intro that) (auto simp: serve_client_def service_of_def count_close_effects)
  next
    case False
    with client_serve_run[OF ok Some fd_def[symmetric] _ _ net(1,2) False net(3)] x(3) obtain k t where
      "client_callback_serve E a s = Ret () t"
      "client_down a (serve_calls a fd ffd (hist s) fs (cstr (inbox fd ?n)) k) s t"
      by (auto simp: idle_client_def)
    with False net(4) show ?thesis
      by (intro that) (auto simp: serve_client_def service_of_def count_close_effects)
  qed
  from down_service[OF assms(2) t(2) Some fd_def[symmetric] t(3)] t(1,4) x(1) att show ?thesis
    by (simp add: Let_def)
qed

lemma timeout_event:
  assumes "service_ok E wfd fds inbox ffd fs" and "serving i w fds s"
  shows "\<exists>t. whenP (a \<in> timer_on s) (client_callback_timeout E a) s = Ret () t \<and> serving i w fds t \<and>
    service_of fds wfd t = service_step inbox fs (EvTimeout a) (service_of fds wfd s)"
proof (cases "cheap s a")
  case None
  then have "a \<notin> timer_on s" "attached (service_of fds wfd s) a = None"
    using assms(2) by (auto simp: serving_def service_of_def)
  with assms(2) show ?thesis by simp
next
  case (Some x)
  define fd where "fd = iSockfd (sClient x)"
  have ok: "sds_doc E" "shutdown_drains E" and net: "kernel_delivers E wfd fds inbox"
    using assms(1) by (auto simp: service_ok_def)
  have x: "a \<in> timer_on s" "fd \<in> set fds" "acSendBuff (sClient x) = SNull"
    using assms(2) Some by (auto simp: serving_def fd_def idle_client_def)
  have att: "attached (service_of fds wfd s) a = Some fd" using Some by (simp add: service_of_def fd_def)
  from client_timeout_run[OF ok Some fd_def[symmetric] x(3)] obtain k t where
    t: "client_callback_timeout E a s = Ret () t" "client_down a (down_calls a fd k) s t" by blast
  from down_service[OF assms(2) t(2) Some fd_def[symmetric] effects_down(2)] t(1) x(1) att
    kernel_deliversD(9)[OF net x(2)]
  show ?thesis by simp
qed

section \<open>A run of the loop\<close>

lemma loop_is_service:
  assumes "service_ok E wfd fds inbox ffd fs" and "serving i w fds s" and "iWorkerIPCfd w = wfd"
    and "EvSigint \<notin> set evs"
  shows "\<exists>t. ev_run_worker E i (evs @ rest) s = ev_run_worker E i rest t \<and> serving i w fds t \<and>
    service_of fds wfd t = fold (service_step inbox fs) evs (service_of fds wfd s)"
  using assms(2,4)
proof (induction evs arbitrary: s)
  case Nil
  then show ?case by auto
next
  case (Cons ev evs)
  obtain t where t: "ev_run_worker E i (ev # evs @ rest) s = ev_run_worker E i (evs @ rest) t" "serving i w fds t"
    "service_of fds wfd t = service_step inbox fs ev (service_of fds wfd s)"
  proof (cases ev)
    case EvIpc
    with ipc_event[OF assms(1) Cons.prems(1) assms(3)] show ?thesis by (auto intro: that)
  next
    case (EvReadable a)
    with readable_event[OF assms(1) Cons.prems(1), of a] show ?thesis by (auto intro: that)
  next
    case (EvTimeout a)
    with timeout_event[OF assms(1) Cons.prems(1), of a] show ?thesis by (auto intro: that)
  qed (use Cons.prems in simp)
  from Cons.IH[OF t(2)] Cons.prems(2) t show ?case by auto
qed

section \<open>What the service guarantees\<close>

text \<open>
  No descriptor is lost and none is used twice: each one is still to come, or belongs to
  exactly one client, or was closed.
\<close>

definition holders :: "service \<Rightarrow> int \<Rightarrow> nat set" where
  "holders v fd = {a. attached v a = Some fd}"

definition account :: "int \<Rightarrow> service \<Rightarrow> nat" where
  "account fd v = count_list (arriving v) fd + card (holders v fd) + count_list (effects v) (Close fd)"

definition service_sane :: "service \<Rightarrow> bool" where
  "service_sane v \<longleftrightarrow> (\<forall>a \<in> dom (attached v). a < next_client v)"

lemma finite_holders: "service_sane v \<Longrightarrow> finite (holders v fd)"
  by (rule finite_subset[of _ "{..<next_client v}"]) (auto simp: service_sane_def holders_def)

lemma count_close_serve: "count_list (serve_client inbox fs h fd') (Close fd) = (if fd = fd' then 1 else 0)"
  by (simp add: serve_client_def Let_def)

lemma detach_account:
  assumes "service_sane v" and "attached v a = Some fd'"
  shows "card (holders (v\<lparr>attached := (attached v)(a := None), effects := es\<rparr>) fd) + (if fd = fd' then 1 else 0) =
    card (holders v fd)"
proof -
  have "holders (v\<lparr>attached := (attached v)(a := None), effects := es\<rparr>) fd = holders v fd - {a}"
    by (auto simp: holders_def)
  moreover have "a \<in> holders v fd \<longleftrightarrow> fd = fd'" using assms(2) by (auto simp: holders_def)
  ultimately show ?thesis
    using card_Suc_Diff1[OF finite_holders[OF assms(1), of fd], of a] by auto
qed

lemma attach_account:
  assumes "service_sane v" and "arriving v = fd' # fds"
  shows "account fd (service_step inbox fs EvIpc v) = account fd v"
proof -
  let ?a = "next_client v"
  have new: "?a \<notin> holders v x" for x using assms(1) by (auto simp: service_sane_def holders_def)
  have "holders (service_step inbox fs EvIpc v) fd = (if fd = fd' then insert ?a (holders v fd) else holders v fd)"
    using new[of fd] assms(2) by (auto simp: holders_def)
  with assms new finite_holders[OF assms(1), of fd] show ?thesis by (auto simp: account_def)
qed

lemma service_step_sane: "service_sane v \<Longrightarrow> service_sane (service_step inbox fs ev v)"
  by (cases ev) (auto simp: service_sane_def less_Suc_eq split: list.split option.split if_split_asm)

lemma service_step_account:
  assumes "service_sane v"
  shows "account fd (service_step inbox fs ev v) = account fd v"
proof (cases ev)
  case EvIpc
  with attach_account[OF assms] show ?thesis by (cases "arriving v") auto
next
  case (EvReadable a)
  show ?thesis
  proof (cases "attached v a")
    case (Some fd')
    with EvReadable detach_account[OF assms Some] show ?thesis
      by (simp add: account_def count_close_serve)
  qed (use EvReadable in simp)
next
  case (EvTimeout a)
  show ?thesis
  proof (cases "attached v a")
    case (Some fd')
    with EvTimeout detach_account[OF assms Some, of "effects v @ [Shutdown fd', Close fd']" fd] show ?thesis
      by (auto simp: account_def)
  qed (use EvTimeout in simp)
qed simp

text \<open>The service as a transition system, with what its runs keep as the invariant.\<close>

definition fresh_service :: "int list \<Rightarrow> call list \<Rightarrow> service \<Rightarrow> bool" where
  "fresh_service fds es v \<longleftrightarrow> arriving v = fds \<and> attached v = Map.empty \<and> effects v = es"

definition service_moves ::
  "(int \<Rightarrow> nat \<Rightarrow> string) \<Rightarrow> (string \<rightharpoonup> string) \<Rightarrow> service \<Rightarrow> service \<Rightarrow> bool" where
  "service_moves inbox fs v v' \<longleftrightarrow> (\<exists>ev. v' = service_step inbox fs ev v)"

interpretation svc: inductive_invariant "fresh_service fds es" "service_moves inbox fs"
  "\<lambda>v. service_sane v \<and> (\<forall>fd. account fd v = count_list fds fd + count_list es (Close fd))"
  for fds es inbox fs
proof
  fix v
  assume "fresh_service fds es v"
  then show "service_sane v \<and> (\<forall>fd. account fd v = count_list fds fd + count_list es (Close fd))"
    by (simp add: fresh_service_def service_sane_def account_def holders_def)
next
  fix v v'
  assume "service_sane v \<and> (\<forall>fd. account fd v = count_list fds fd + count_list es (Close fd))"
    and "service_moves inbox fs v v'"
  then show "service_sane v' \<and> (\<forall>fd. account fd v' = count_list fds fd + count_list es (Close fd))"
    using service_step_sane service_step_account by (auto simp: service_moves_def)
qed

lemma service_run_reach:
  "reach I (service_moves inbox fs) v \<Longrightarrow> reach I (service_moves inbox fs) (fold (service_step inbox fs) evs v)"
proof (induction evs arbitrary: v)
  case (Cons ev evs)
  from Cons.prems have "reach I (service_moves inbox fs) (service_step inbox fs ev v)"
    by (rule reach.move) (auto simp: service_moves_def)
  from Cons.IH[OF this] show ?case by simp
qed simp

text \<open>The \<open>j\<close>-th descriptor is attached once it has arrived, until it is served or times out.\<close>

definition ipc_count :: "wevent list \<Rightarrow> nat" where
  "ipc_count evs = length (filter (\<lambda>ev. ev = EvIpc) evs)"

lemma attached_after_arrival:
  assumes "arriving v = drop k fds" and "next_client v = a0 + k" and "j < length fds"
    and "j < k \<Longrightarrow> attached v (a0 + j) = Some (fds ! j)" and "j < k + ipc_count evs"
    and "EvReadable (a0 + j) \<notin> set evs" and "EvTimeout (a0 + j) \<notin> set evs"
  shows "attached (fold (service_step inbox fs) evs v) (a0 + j) = Some (fds ! j)"
  using assms(1,2,4-7)
proof (induction evs arbitrary: v k)
  case Nil
  then show ?case by (simp add: ipc_count_def)
next
  case (Cons ev evs)
  let ?v = "service_step inbox fs ev v"
  show ?case
  proof (cases "ev = EvIpc \<and> k < length fds")
    case True
    then have d: "drop k fds = fds ! k # drop (Suc k) fds" by (simp add: Cons_nth_drop_Suc)
    have "attached (fold (service_step inbox fs) evs ?v) (a0 + j) = Some (fds ! j)"
      using True d Cons.prems by (intro Cons.IH[of ?v "Suc k"]) (auto simp: ipc_count_def less_Suc_eq)
    then show ?thesis by simp
  next
    case False
    then have same: "arriving ?v = drop k fds" "next_client ?v = a0 + k"
      "j < k \<Longrightarrow> attached ?v (a0 + j) = Some (fds ! j)"
      using Cons.prems by (cases ev; auto split: option.split)+
    have "j < k + ipc_count evs" using False Cons.prems(4) assms(3) by (auto simp: ipc_count_def)
    then have "attached (fold (service_step inbox fs) evs ?v) (a0 + j) = Some (fds ! j)"
      using same Cons.prems by (intro Cons.IH[of ?v k]) auto
    then show ?thesis by simp
  qed
qed

lemma effects_grow: "\<exists>es. effects (fold (service_step inbox fs) evs v) = effects v @ es"
proof (induction evs arbitrary: v)
  case (Cons ev evs)
  have "\<exists>es. effects (service_step inbox fs ev v) = effects v @ es"
    by (cases ev) (auto split: list.split option.split)
  with Cons.IH[of "service_step inbox fs ev v"] show ?case by auto
qed simp

text \<open>The client with the \<open>j\<close>-th descriptor gets the answer to what it sent.\<close>

lemma service_answers:
  assumes "arriving v = fds" and "next_client v = a0" and "j < length fds"
    and "j < ipc_count pre" and "EvReadable (a0 + j) \<notin> set pre" and "EvTimeout (a0 + j) \<notin> set pre"
  shows "\<exists>h h'. effects (fold (service_step inbox fs) (pre @ EvReadable (a0 + j) # post) v) =
    h @ serve_client inbox fs h (fds ! j) @ h'"
proof -
  let ?u = "fold (service_step inbox fs) pre v"
  from attached_after_arrival[of v 0 fds a0 j pre inbox fs] assms
  have "attached ?u (a0 + j) = Some (fds ! j)" by simp
  then have "effects (service_step inbox fs (EvReadable (a0 + j)) ?u) =
    effects ?u @ serve_client inbox fs (effects ?u) (fds ! j)" by simp
  with effects_grow[of inbox fs post "service_step inbox fs (EvReadable (a0 + j)) ?u"] show ?thesis
    by (auto simp del: service_step.simps)
qed

section \<open>Claims\<close>

text \<open>
  Two clients for one worker: descriptor 9, whose client asks for the start page, and
  descriptor 10, whose client sends something else.
\<close>

definition demo_inbox :: "int \<Rightarrow> nat \<Rightarrow> string" where
  "demo_inbox fd n = (if fd = 9 then ''get / HTTP/1.1'' else ''PUT'')"

definition demo_serving :: env where
  "demo_serving = (demo_net [])\<lparr>os := \<lambda>h c. (case c of
       Recv fd n \<Rightarrow> \<lparr>sr_val = int (length (demo_inbox fd 0)), sr_errno = 0, sr_data = demo_inbox fd 0\<rparr>
     | Recvmsg_fd fd \<Rightarrow> \<lparr>sr_val = (if count_list h c < 2 then 1 else -1), sr_errno = 0,
         sr_data = [char_of (9 + count_list h c)]\<rparr>
     | _ \<Rightarrow> os (demo_net []) h c)\<rparr>"

lemma le32_byte: "n < 256 \<Longrightarrow> le32 [char_of n] = int n"
  by (simp add: le32_def signed_of_nat signed_take_bit_int_eq_self)

lemma demo_serving_ok: "service_ok demo_serving 5 [9, 10] demo_inbox (\<lambda>_ _. 7) demo_fs"
proof -
  have "kernel_delivers demo_serving 5 [9, 10] demo_inbox"
    by (auto simp: kernel_delivers_def demo_serving_def demo_inbox_def le32_byte RECV_BUFF_SIZE_def Let_def
        less_2_cases_iff demo_net_def demo_os_def)
  moreover have "sds_doc demo_serving" "shutdown_drains demo_serving"
    "file_system demo_serving (\<lambda>_ _. 7) demo_fs" "\<not> sds_moves demo_serving [] m" for m
    using demo_net_ok[of "[]"]
    by (simp_all add: demo_serving_def sds_doc_def shutdown_drains_def file_system_def)
  ultimately show ?thesis by (simp add: service_ok_def)
qed

definition demo_self :: tsWorkerStruct where
  "demo_self = zero_worker\<lparr>iMe := 1, iWorkerIPCfd := 5\<rparr>"

lemma demo_serving_start:
  "serving 0 demo_self fds (demo_server [Some demo_self] 1 0)" "iWorkerIPCfd demo_self = 5"
  "service_of fds 5 (demo_server [Some demo_self] 1 0) =
    \<lparr>arriving = fds, attached = Map.empty, next_client = 5, effects = []\<rparr>"
  by (simp_all add: serving_def demo_server_def slots_def demo_self_def service_of_def)

text \<open>
  C3. The event loop of a worker is the abstract service: whatever the order in which
  descriptors arrive, clients send or hang up, and timers run out, each event makes the worker
  take one step of the service. It accepts the next descriptor; it answers a client that sent a
  request with \<open>http_answer\<close> of it and lets it go; it lets a client that hung up or was silent go;
  it ignores events of clients that are gone. The loop goes on after every event, with every
  client watched and idle.
\<close>

theorem worker_loop_refines_service:
  assumes "service_ok E wfd fds inbox ffd fs" and "serving i w fds s" and "iWorkerIPCfd w = wfd"
    and "EvSigint \<notin> set evs"
  shows "\<exists>t. ev_run_worker E i (evs @ rest) s = ev_run_worker E i rest t \<and> serving i w fds t \<and>
    service_of fds wfd t = fold (service_step inbox fs) evs (service_of fds wfd s)"
  using assms by (rule loop_is_service)

theorem worker_loop_refines_service_witness:
  "\<exists>t. ev_run_worker demo_serving 0 ([EvIpc, EvIpc, EvReadable 6, EvTimeout 5] @ []) (demo_server [Some demo_self] 1 0) = Stuck t \<and>
    attached (service_of [9, 10] 5 t) = Map.empty \<and>
    filter client_effect (hist t) = [Send 10 [], Shutdown 10, Close 10, Shutdown 9, Close 9]"
proof -
  have "http_answer demo_fs (cstr ''PUT'') = []" by (simp add: http_answer_def) code_simp
  then have "fold (service_step demo_inbox demo_fs) [EvIpc, EvIpc, EvReadable 6, EvTimeout 5]
      \<lparr>arriving = [9, 10], attached = Map.empty, next_client = 5, effects = []\<rparr> =
    \<lparr>arriving = [], attached = Map.empty, next_client = 7,
      effects = [Send 10 [], Shutdown 10, Close 10, Shutdown 9, Close 9]\<rparr>"
    by (simp add: serve_client_def demo_inbox_def fun_eq_iff)
  with worker_loop_refines_service[OF demo_serving_ok demo_serving_start(1,2),
      of "[EvIpc, EvIpc, EvReadable 6, EvTimeout 5]" "[]"]
  show ?thesis unfolding demo_serving_start(3) by (auto simp: service_of_def)
qed

text \<open>
  C17. A worker neither loses nor reuses a descriptor: after any events, every descriptor the
  master passes is, as often as it was passed, still to be received, held by a client of its own,
  or closed.
\<close>

theorem worker_descriptors_accounted:
  assumes "service_ok E wfd fds inbox ffd fs" and "serving i w fds s" and "iWorkerIPCfd w = wfd"
    and "EvSigint \<notin> set evs" and "cheap s = Map.empty" and "Recvmsg_fd wfd \<notin> set (hist s)"
  shows "\<exists>t. ev_run_worker E i (evs @ rest) s = ev_run_worker E i rest t \<and>
    finite {a. \<exists>x. cheap t a = Some x \<and> iSockfd (sClient x) = fd} \<and>
    count_list (drop (count_list (hist t) (Recvmsg_fd wfd)) fds) fd +
    card {a. \<exists>x. cheap t a = Some x \<and> iSockfd (sClient x) = fd} +
    count_list (hist t) (Close fd) = count_list fds fd + count_list (hist s) (Close fd)"
proof -
  from loop_is_service[OF assms(1-4), of rest] obtain t where
    t: "ev_run_worker E i (evs @ rest) s = ev_run_worker E i rest t"
    "service_of fds wfd t = fold (service_step inbox fs) evs (service_of fds wfd s)" by blast
  have "fresh_service fds (filter client_effect (hist s)) (service_of fds wfd s)"
    using assms(5,6) by (simp add: fresh_service_def service_of_def)
  from svc.inv_reach[OF service_run_reach[OF reach.start[of "fresh_service fds (filter client_effect (hist s))", OF this]],
      of inbox fs evs, folded t(2)]
  have "service_sane (service_of fds wfd t)"
    "account fd (service_of fds wfd t) = count_list fds fd + count_list (hist s) (Close fd)"
    by (simp_all add: count_close_effects)
  moreover have "holders (service_of fds wfd t) fd = {a. \<exists>x. cheap t a = Some x \<and> iSockfd (sClient x) = fd}"
    by (auto simp: holders_def service_of_def)
  ultimately show ?thesis
    using t(1) finite_holders[of "service_of fds wfd t" fd]
    by (auto simp: account_def service_of_def count_close_effects)
qed

theorem worker_descriptors_accounted_witness:
  "\<exists>t. ev_run_worker demo_serving 0 ([EvIpc, EvIpc, EvReadable 5] @ []) (demo_server [Some demo_self] 1 0) = Stuck t \<and>
    count_list (drop (count_list (hist t) (Recvmsg_fd 5)) [9, 10 :: int]) 10 +
    card {a. \<exists>x. cheap t a = Some x \<and> iSockfd (sClient x) = 10} + count_list (hist t) (Close 10) = 1"
proof -
  have "cheap (demo_server [Some demo_self] 1 0) = Map.empty" "hist (demo_server [Some demo_self] 1 0) = []"
    by (simp_all add: demo_server_def)
  with worker_descriptors_accounted[OF demo_serving_ok demo_serving_start(1,2),
      of "[EvIpc, EvIpc, EvReadable 5]" "[]" 10]
  show ?thesis by auto
qed

end
