(* ===== verification/Worker_Monitor.thy ===== *)
theory Worker_Monitor
  imports Worker_Process
begin

text \<open>
  The monitor of the workers at the end of \<^verbatim>\<open>src/src/cew_worker.c\<close>: an endless loop that
  looks for workers that have ended, clears their process numbers and counts the others.
\<close>

section \<open>Operations\<close>

text \<open>One look at the entry \<open>i\<close>; the number is \<^verbatim>\<open>iMonitoring\<close>.\<close>

definition monitor_slot :: "env \<Rightarrow> nat \<Rightarrow> int \<Rightarrow> ('a server_scheme, int) prog" where
  "monitor_slot E i iMonitoring =
     bindP (getP gWorkerAdmin) (\<lambda>g.
     if length (psWorker g) \<le> i then faultP OutOfBounds
     else case psWorker g ! i of
       None \<Rightarrow> retP iMonitoring
     | Some w \<Rightarrow>
         if Pid w \<noteq> 0 then
           bindP (callP E (Waitpid (Pid w))) (\<lambda>r.
           if r \<noteq> 0 then
             seqP (log_error E [FL ''pid exit :'', FD] [AI (Pid w)]) (
             seqP (put_slot i (Some (w\<lparr>Pid := 0\<rparr>)))
               (retP (iMonitoring - 1)))
           else retP iMonitoring)
         else retP iMonitoring)"

fun monitor_slots :: "env \<Rightarrow> nat list \<Rightarrow> int \<Rightarrow> ('a server_scheme, int) prog" where
  "monitor_slots E [] m = retP m"
| "monitor_slots E (i # is) m = bindP (monitor_slot E i m) (monitor_slots E is)"

text \<open>The endless loop, for a number of rounds; after them it still runs.\<close>

fun monitor_loop :: "env \<Rightarrow> nat \<Rightarrow> int \<Rightarrow> ('a server_scheme, unit) prog" where
  "monitor_loop E 0 m = stuckP"
| "monitor_loop E (Suc n) m =
     bindP (getP bTerminateProg) (\<lambda>stop.
     seqP (whenP stop (do_exit E 0)) (
     bindP (getP (\<lambda>s. uiCurrWorkers (gWorkerAdmin s))) (\<lambda>cnt.
     bindP (monitor_slots E [0..<unat cnt] m) (\<lambda>m.
     seqP (log_debug E [FL ''Monitoring '', FD, FL '' worker processes''] [AI m]) (
     seqP (callP E Sleep)
       (monitor_loop E n m))))))"

definition worker_monitor :: "env \<Rightarrow> ('a server_scheme, unit) prog" where
  "worker_monitor E =
     bindP (getP (\<lambda>s. sint (uiCurrWorkers (gWorkerAdmin s)))) (\<lambda>m.
     seqP (log_debug E [FL ''Trying to monitor '', FD, FL '' workers.''] [AI m])
       (monitor_loop E (fuel E) m))"

text \<open>The monitor never returns to its caller, as its declaration says.\<close>

lemma monitor_never_returns: "worker_monitor E s \<noteq> Ret a t"
proof -
  have "monitor_loop E n m x \<noteq> Ret () y" for n m and x y :: "'a server_scheme"
  proof (induction n arbitrary: m x)
    case (Suc n)
    show ?case
    proof
      assume "monitor_loop E (Suc n) m x = Ret () y"
      then show False
        unfolding monitor_loop.simps seqP_def by (auto dest!: bindP_RetD simp del: bindP_apply simp: Suc.IH)
    qed
  qed simp
  then show ?thesis unfolding worker_monitor_def seqP_def by (auto dest!: bindP_RetD simp del: bindP_apply)
qed

section \<open>One round\<close>

text \<open>
  What a round does to the table, slot by slot: it asks about every process number that is set
  and clears those that \<^verbatim>\<open>waitpid\<close> does not answer with 0.
\<close>

fun watch_trace :: "env \<Rightarrow> call list \<Rightarrow> tsWorkerStruct option list \<Rightarrow> call list" where
  "watch_trace E h [] = h"
| "watch_trace E h (x # xs) = (case x of
      Some w \<Rightarrow> if Pid w \<noteq> 0 then watch_trace E (h @ [Waitpid (Pid w)]) xs else watch_trace E h xs
    | None \<Rightarrow> watch_trace E h xs)"

definition watch_slot :: "env \<Rightarrow> call list \<Rightarrow> tsWorkerStruct option \<Rightarrow> tsWorkerStruct option" where
  "watch_slot E h x = (case x of
      Some w \<Rightarrow> if Pid w \<noteq> 0 \<and> sr_val (os E h (Waitpid (Pid w))) \<noteq> 0 then Some (w\<lparr>Pid := 0\<rparr>) else x
    | None \<Rightarrow> None)"

fun watch_table :: "env \<Rightarrow> call list \<Rightarrow> tsWorkerStruct option list \<Rightarrow> tsWorkerStruct option list" where
  "watch_table E h [] = []"
| "watch_table E h (x # xs) = watch_slot E h x # watch_table E (watch_trace E h [x]) xs"

text \<open>The entries with a process number.\<close>

definition living :: "tsWorkerStruct option \<Rightarrow> bool" where
  "living x \<longleftrightarrow> (\<exists>w. x = Some w \<and> Pid w \<noteq> 0)"

definition count_living :: "tsWorkerStruct option list \<Rightarrow> int" where
  "count_living xs = int (length (filter living xs))"

lemma monitor_slot_run:
  assumes "sds_doc E" and "i < length (slots s)"
  shows "\<exists>t. monitor_slot E i m s =
      Ret (m - (if living (slots s ! i) \<and> \<not> living (watch_slot E (hist s) (slots s ! i)) then 1 else 0)) t \<and>
    outside_log t = (outside_log s)\<lparr>hist := watch_trace E (hist s) [slots s ! i],
      gWorkerAdmin := (gWorkerAdmin s)\<lparr>psWorker := (slots s)[i := watch_slot E (hist s) (slots s ! i)]\<rparr>\<rparr>"
proof -
  have same: "(outside_log s)\<lparr>hist := hist s, gWorkerAdmin := (gWorkerAdmin s)\<lparr>psWorker := slots s\<rparr>\<rparr> = outside_log s"
    by (cases s) (simp add: outside_log_def slots_def)
  show ?thesis
  proof (cases "slots s ! i")
    case None
    then have keep: "watch_slot E (hist s) (slots s ! i) = slots s ! i" by (simp add: watch_slot_def)
    have "monitor_slot E i m s = Ret m s" using None assms(2) by (simp add: monitor_slot_def slots_def)
    with same None show ?thesis unfolding keep list_update_id by simp
  next
    case (Some w)
    show ?thesis
    proof (cases "Pid w \<noteq> 0 \<and> sr_val (os E (hist s) (Waitpid (Pid w))) \<noteq> 0")
      case True
      with Some assms(2) show ?thesis
        by (simp add: monitor_slot_def slots_def watch_slot_def living_def log_calls[OF assms(1)] put_slot_def)
    next
      case False
      with Some have keep: "watch_slot E (hist s) (slots s ! i) = slots s ! i" by (auto simp: watch_slot_def)
      let ?c = "Waitpid (Pid w)"
      define u where "u = (if Pid w = 0 then s else s\<lparr>hist := hist s @ [?c], errno := errno_after E (hist s) ?c (errno s)\<rparr>)"
      have "monitor_slot E i m s = Ret m u"
        using False Some assms(2) by (auto simp: monitor_slot_def slots_def u_def)
      moreover have "outside_log u = (outside_log s)\<lparr>hist := watch_trace E (hist s) [slots s ! i],
          gWorkerAdmin := (gWorkerAdmin s)\<lparr>psWorker := slots s\<rparr>\<rparr>"
        using Some same by (simp add: u_def slots_def)
      ultimately show ?thesis unfolding keep by simp
    qed
  qed
qed

lemma watch_trace_append: "watch_trace E h (xs @ ys) = watch_trace E (watch_trace E h xs) ys"
  by (induction E h xs rule: watch_trace.induct) (auto split: option.split)

lemma monitor_slots_run:
  assumes "sds_doc E" and "slots s = pre @ xs @ rest" and "length pre = k"
  shows "\<exists>t. monitor_slots E [k..<k + length xs] m s =
      Ret (m - (count_living xs - count_living (watch_table E (hist s) xs))) t \<and>
    outside_log t = (outside_log s)\<lparr>hist := watch_trace E (hist s) xs,
      gWorkerAdmin := (gWorkerAdmin s)\<lparr>psWorker := pre @ watch_table E (hist s) xs @ rest\<rparr>\<rparr>"
  using assms(2,3)
proof (induction xs arbitrary: s pre k m)
  case Nil
  then have "(outside_log s)\<lparr>hist := hist s, gWorkerAdmin := (gWorkerAdmin s)\<lparr>psWorker := pre @ rest\<rparr>\<rparr> = outside_log s"
    by (cases s) (simp add: outside_log_def slots_def)
  with Nil show ?case by (simp add: count_living_def)
next
  case (Cons x xs)
  let ?y = "watch_slot E (hist s) x"
  have at: "k < length (slots s)" "slots s ! k = x" "(slots s)[k := ?y] = (pre @ [?y]) @ xs @ rest"
    using Cons.prems by (auto simp: nth_append list_update_append)
  from monitor_slot_run[OF assms(1) at(1), of m] obtain u where
    u: "monitor_slot E k m s = Ret (m - (if living x \<and> \<not> living ?y then 1 else 0)) u"
    "outside_log u = (outside_log s)\<lparr>hist := watch_trace E (hist s) [x],
      gWorkerAdmin := (gWorkerAdmin s)\<lparr>psWorker := (pre @ [?y]) @ xs @ rest\<rparr>\<rparr>" unfolding at(2,3) by blast
  have f: "slots u = (pre @ [?y]) @ xs @ rest" "hist u = watch_trace E (hist s) [x]"
    "gWorkerAdmin u = (gWorkerAdmin s)\<lparr>psWorker := (pre @ [?y]) @ xs @ rest\<rparr>"
    using fields(1,3)[OF u(2)] by (simp_all add: slots_def)
  have len: "length (pre @ [?y]) = Suc k" using Cons.prems(2) by simp
  from Cons.IH[OF f(1) len] obtain t where
    t: "monitor_slots E [Suc k..<Suc k + length xs] (m - (if living x \<and> \<not> living ?y then 1 else 0)) u =
      Ret (m - (if living x \<and> \<not> living ?y then 1 else 0) -
        (count_living xs - count_living (watch_table E (hist u) xs))) t"
    "outside_log t = (outside_log u)\<lparr>hist := watch_trace E (hist u) xs,
      gWorkerAdmin := (gWorkerAdmin u)\<lparr>psWorker := (pre @ [?y]) @ watch_table E (hist u) xs @ rest\<rparr>\<rparr>" by blast
  have idx: "[k..<k + length (x # xs)] = k # [Suc k..<Suc k + length xs]"
    using upt_conv_Cons[of k "k + length (x # xs)"] by simp
  have "\<not> living x \<Longrightarrow> \<not> living ?y" by (auto simp: living_def watch_slot_def split: option.split)
  moreover have "watch_trace E (hist s) (x # xs) = watch_trace E (hist u) xs"
    unfolding f(2) using watch_trace_append[of E "hist s" "[x]" xs] by simp
  ultimately show ?case
    using u t f(2,3) unfolding idx by (simp add: count_living_def del: watch_trace.simps)
qed

text \<open>A round only ever clears process numbers.\<close>

definition cleared :: "tsWorkerStruct option \<Rightarrow> tsWorkerStruct option \<Rightarrow> bool" where
  "cleared x y \<longleftrightarrow> y = x \<or> y = map_option (\<lambda>w. w\<lparr>Pid := 0\<rparr>) x"

lemma cleared_trans: "cleared x y \<Longrightarrow> cleared y z \<Longrightarrow> cleared x z"
  by (cases x) (auto simp: cleared_def)

lemma watch_table_cleared: "list_all2 cleared xs (watch_table E h xs)"
  by (induction xs arbitrary: h) (auto simp: watch_slot_def cleared_def split: option.split)

section \<open>The loop\<close>

lemma monitor_round:
  assumes "sds_doc E" and "\<not> bTerminateProg s" and "length (slots s) = WORKER_MAX_WORKERS"
    and "uiCurrWorkers (gWorkerAdmin s) = word_of_nat n" and "n \<le> WORKER_MAX_WORKERS"
    and "m = count_living (take n (slots s))"
  shows "\<exists>t. monitor_loop E (Suc f) m s = monitor_loop E f (count_living (take n (slots t))) t \<and>
    \<not> bTerminateProg t \<and> length (slots t) = WORKER_MAX_WORKERS \<and>
    uiCurrWorkers (gWorkerAdmin t) = word_of_nat n \<and> list_all2 cleared (slots s) (slots t) \<and>
    hist t = watch_trace E (hist s) (take n (slots s)) @ [Sleep]"
proof -
  have n: "unat (word_of_nat n :: 32 word) = n" using assms(5) by (simp add: unat_small WORKER_MAX_WORKERS_def)
  let ?ys = "watch_table E (hist s) (take n (slots s))"
  have len: "length (take n (slots s)) = n" using assms(3,5) by simp
  from monitor_slots_run[OF assms(1), of s "[]" "take n (slots s)" "drop n (slots s)" 0 m] len obtain u where
    u: "monitor_slots E [0..<n] m s = Ret (count_living ?ys) u"
    "outside_log u = (outside_log s)\<lparr>hist := watch_trace E (hist s) (take n (slots s)),
      gWorkerAdmin := (gWorkerAdmin s)\<lparr>psWorker := ?ys @ drop n (slots s)\<rparr>\<rparr>" using assms(6) by auto
  let ?u = "log_st E eDEBUG (rendered [FL ''Monitoring '', FD, FL '' worker processes''] [AI (count_living ?ys)]) u"
  let ?t = "?u\<lparr>hist := hist u @ [Sleep], errno := errno_after E (hist u) Sleep (errno ?u)\<rparr>"
  have ys: "length ?ys = n" using list_all2_lengthD[OF watch_table_cleared, of "take n (slots s)" E "hist s"] len by simp
  have fl: "bTerminateProg u = bTerminateProg s" using arg_cong[OF u(2), of bTerminateProg] by (simp add: outside_log_def)
  have f: "slots ?t = ?ys @ drop n (slots s)" "hist u = watch_trace E (hist s) (take n (slots s))"
    "uiCurrWorkers (gWorkerAdmin ?t) = word_of_nat n" "\<not> bTerminateProg ?t"
    using fields(1,3)[OF u(2)] assms(2,4) fl by (simp_all add: slots_def)
  have "monitor_loop E (Suc f) m s = monitor_loop E f (count_living (take n (slots ?t))) ?t"
    using u(1) assms(2,4) n ys unfolding f(1) by (simp add: log_calls[OF assms(1)])
  moreover have "list_all2 cleared (slots s) (slots ?t)"
    unfolding f(1) using list_all2_appendI[OF watch_table_cleared[of "take n (slots s)"], of "drop n (slots s)" "drop n (slots s)"]
    by (simp add: list_all2_same cleared_def)
  moreover have "length (slots ?t) = WORKER_MAX_WORKERS" unfolding f(1) using ys assms(3,5) by simp
  ultimately show ?thesis using f(2-4) by (intro exI[of _ ?t]) simp
qed

lemma monitor_rounds:
  assumes "sds_doc E" and "\<not> bTerminateProg s" and "length (slots s) = WORKER_MAX_WORKERS"
    and "uiCurrWorkers (gWorkerAdmin s) = word_of_nat n" and "n \<le> WORKER_MAX_WORKERS"
    and "m = count_living (take n (slots s))"
  shows "\<exists>t. monitor_loop E (r + f) m s = monitor_loop E f (count_living (take n (slots t))) t \<and>
    list_all2 cleared (slots s) (slots t)"
  using assms(2-4,6)
proof (induction r arbitrary: s m)
  case 0
  then show ?case by (auto simp: list_all2_same cleared_def)
next
  case (Suc r)
  from monitor_round[OF assms(1) Suc.prems(1-3) assms(5) Suc.prems(4), of "r + f"] obtain u where
    u: "monitor_loop E (Suc (r + f)) m s = monitor_loop E (r + f) (count_living (take n (slots u))) u"
    "\<not> bTerminateProg u" "length (slots u) = WORKER_MAX_WORKERS" "uiCurrWorkers (gWorkerAdmin u) = word_of_nat n"
    "list_all2 cleared (slots s) (slots u)" by blast
  from Suc.IH[OF u(2-4) refl] obtain t where
    t: "monitor_loop E (r + f) (count_living (take n (slots u))) u = monitor_loop E f (count_living (take n (slots t))) t"
    "list_all2 cleared (slots u) (slots t)" by blast
  from list_all2_trans[OF cleared_trans u(5) t(2)] u(1) t(1) show ?case by auto
qed

section \<open>Claims\<close>

text \<open>
  C30. The monitor counts right and never ends: entered with all counted workers alive, after
  any number of rounds and whatever \<^verbatim>\<open>waitpid\<close> answered in them, the number it reports is
  the number of workers not yet known to have ended; the table differs only in the process
  numbers of those, which are 0. Since nothing ever sets the flag it looks at, the loop goes on
  for good.
\<close>

theorem monitor_counts_living:
  assumes "sds_doc E" and "\<not> bTerminateProg s" and "length (slots s) = WORKER_MAX_WORKERS"
    and "uiCurrWorkers (gWorkerAdmin s) = word_of_nat n" and "n \<le> WORKER_MAX_WORKERS"
    and "\<forall>i < n. living (slots s ! i)"
  shows "(\<exists>t. worker_monitor E s = Stuck t) \<and>
    (\<forall>r f. \<exists>t. monitor_loop E (r + f) (int n) s = monitor_loop E f (count_living (take n (slots t))) t \<and>
       list_all2 cleared (slots s) (slots t) \<and> count_living (take n (slots t)) \<le> int n)"
proof -
  have "filter living (take n (slots s)) = take n (slots s)"
    using assms(3,5,6) by (auto simp: filter_id_conv in_set_conv_nth)
  then have all: "int n = count_living (take n (slots s))"
    using assms(3,5) by (simp add: count_living_def)
  have "n < 2 ^ 31" using assms(5) by (simp add: WORKER_MAX_WORKERS_def)
  then have n: "sint (word_of_nat n :: 32 word) = int n"
    by (simp add: signed_of_nat signed_take_bit_int_eq_self)
  let ?u = "log_st E eDEBUG (rendered [FL ''Trying to monitor '', FD, FL '' workers.''] [AI (int n)]) s"
  have u: "\<not> bTerminateProg ?u" "length (slots ?u) = WORKER_MAX_WORKERS"
    "uiCurrWorkers (gWorkerAdmin ?u) = word_of_nat n" "int n = count_living (take n (slots ?u))"
    using assms(2-4) all by (simp_all add: slots_def)
  have "worker_monitor E s = monitor_loop E (fuel E + 0) (int n) ?u"
    using assms(4) n by (simp add: worker_monitor_def log_calls[OF assms(1)])
  also obtain t where "\<dots> = monitor_loop E 0 (count_living (take n (slots t))) t"
    using monitor_rounds[OF assms(1) u(1-3) assms(5) u(4), of "fuel E" 0] by blast
  finally have "\<exists>t. worker_monitor E s = Stuck t" by simp
  moreover have "\<exists>t. monitor_loop E (r + f) (int n) s = monitor_loop E f (count_living (take n (slots t))) t \<and>
       list_all2 cleared (slots s) (slots t) \<and> count_living (take n (slots t)) \<le> int n" for r f
  proof -
    have "count_living (take n xs) \<le> int n" for xs
      unfolding count_living_def by (metis length_filter_le length_take le_trans min.cobounded2 of_nat_mono)
    with monitor_rounds[OF assms(1-5) all, of r f] show ?thesis by blast
  qed
  ultimately show ?thesis by blast
qed

theorem monitor_counts_living_witness:
  "\<exists>t. worker_monitor calm_env (demo_server [Some (demo_entry 20), Some (demo_entry 30)] 2 0) = Stuck t"
proof -
  let ?s = "demo_server [Some (demo_entry 20), Some (demo_entry 30)] 2 0"
  have "\<not> bTerminateProg ?s" "length (slots ?s) = WORKER_MAX_WORKERS" "uiCurrWorkers (gWorkerAdmin ?s) = word_of_nat 2"
    "2 \<le> WORKER_MAX_WORKERS" "\<forall>i < 2. living (slots ?s ! i)"
    by (auto simp: demo_server_def slots_def WORKER_MAX_WORKERS_def living_def demo_entry_def less_2_cases_iff)
  from monitor_counts_living[OF calm_env_simps(1) this] show ?thesis by blast
qed

end
