(* ===== verification/Logger_Threads.thy ===== *)
theory Logger_Threads
  imports Logger_Flush "HOL-Library.Multiset"
begin

text \<open>
  The logger of \<^verbatim>\<open>src/src/cew_logger.c\<close> once more, statement by statement: the queue is the
  linked structure of \<^verbatim>\<open>sys/queue.h\<close> in a heap, the mutex is a variable with an owner, an
  increment is a load and a store, and any number of callers and the writing thread are
  interleaved between any two statements. The theory has the statements, the invariant of the
  memory they work on, and that every statement keeps it; \<^verbatim>\<open>Logger_Refinement\<close> relates them to
  the model of \<^verbatim>\<open>Logger_Concurrency\<close>.

  Calls to the file system and the mutex succeed here; when one fails the thread ends the whole
  process, and there is nothing left to interleave.
\<close>

section \<open>Memory\<close>

text \<open>
  A \<^verbatim>\<open>tsEntry\<close> with its link; \<open>None\<close> is the null pointer. \<^verbatim>\<open>stqh_last\<close> holds the address of
  a link: the one in the head, or the one in an entry.
\<close>

record tsEntry =
  msg :: string
  stqe_next :: "nat option"

datatype slot = AtFirst | AtNext nat

datatype owner = Caller nat | Writer

text \<open>
  Where a caller is in \<^verbatim>\<open>log_add_to_queue\<close>, with its variables \<^verbatim>\<open>NewEntry\<close> and
  \<^verbatim>\<open>LogMsg\<close>: allocating the entry, waiting for the mutex, the three assignments of
  \<^verbatim>\<open>STAILQ_INSERT_TAIL\<close>, loading and storing the counter, releasing the mutex.
\<close>

datatype cpc =
    CIdle | CMalloc string | CLock nat string | CNext nat string | CLink nat string
  | CTail nat string | CLoad nat string | CStore nat string int | CUnlock

text \<open>
  Where the thread is in its loop, with its variables \<^verbatim>\<open>iGo\<close>, \<^verbatim>\<open>Entry\<close> and
  \<^verbatim>\<open>LogMessage\<close>.
\<close>

datatype wpc =
    WPoll | WTest | WTestUnlock bool | WOpen | WFirst | WMsg "nat option" | WLock nat string
  | WNext nat string | WLast nat string | WFree nat string | WUnlock string | WWrite string
  | WClose | WLockUpd | WForce | WLoad | WStore int | WUnlockUpd

text \<open>
  The queue and the threads take the place of the fields \<open>Head\<close> and \<open>LoggerThread\<close>, which are
  not used here; the other variables of the logger are those of \<^verbatim>\<open>Logger\<close>.
\<close>

record fine = logger +
  heap :: "nat \<rightharpoonup> tsEntry"
  stqh_first :: "nat option"
  stqh_last :: slot
  pLogMutex :: "owner option"
  caller_at :: "nat \<Rightarrow> cpc"
  writer_at :: wpc
  wToWrite :: int
  wWritten :: int

section \<open>Statements\<close>

definition caller_goto :: "nat \<Rightarrow> cpc \<Rightarrow> (fine, unit) prog" where
  "caller_goto i p = modP (\<lambda>s. s\<lparr>caller_at := (caller_at s)(i := p)\<rparr>)"

definition writer_goto :: "wpc \<Rightarrow> (fine, unit) prog" where
  "writer_goto p = modP (\<lambda>s. s\<lparr>writer_at := p\<rparr>)"

definition entry_at :: "nat \<Rightarrow> (fine, tsEntry) prog" where
  "entry_at a = bindP (getP heap) (\<lambda>h. case h a of None \<Rightarrow> faultP UseAfterFree | Some e \<Rightarrow> retP e)"

definition set_next :: "nat \<Rightarrow> nat option \<Rightarrow> (fine, unit) prog" where
  "set_next a p = bindP (entry_at a) (\<lambda>e. modP (\<lambda>s. s\<lparr>heap := (heap s)(a \<mapsto> e\<lparr>stqe_next := p\<rparr>)\<rparr>))"

text \<open>\<^verbatim>\<open>*(head)->stqh_last = elm\<close>\<close>

definition set_slot :: "slot \<Rightarrow> nat option \<Rightarrow> (fine, unit) prog" where
  "set_slot l p = (case l of
      AtFirst \<Rightarrow> modP (\<lambda>s. s\<lparr>stqh_first := p\<rparr>)
    | AtNext a \<Rightarrow> set_next a p)"

definition free_entry :: "nat \<Rightarrow> (fine, unit) prog" where
  "free_entry a = bindP (getP heap) (\<lambda>h.
     case h a of None \<Rightarrow> faultP DoubleFree | Some _ \<Rightarrow> modP (\<lambda>s. s\<lparr>heap := (heap s)(a := None)\<rparr>))"

text \<open>\<^verbatim>\<open>pthread_mutex_lock\<close> does not return while another thread has the mutex.\<close>

definition mutex_lock :: "owner \<Rightarrow> (fine, unit) prog" where
  "mutex_lock me = bindP (getP pLogMutex) (\<lambda>m.
     case m of None \<Rightarrow> modP (\<lambda>s. s\<lparr>pLogMutex := Some me\<rparr>) | Some _ \<Rightarrow> stuckP)"

definition mutex_unlock :: "(fine, unit) prog" where
  "mutex_unlock = modP (\<lambda>s. s\<lparr>pLogMutex := None\<rparr>)"

text \<open>
  One statement of the caller \<open>i\<close>; \<^verbatim>\<open>malloc\<close> gives the address \<open>a\<close>, and \<open>junk\<close> is what
  its memory holds.
\<close>

definition caller_step :: "nat \<Rightarrow> nat \<Rightarrow> nat option \<Rightarrow> (fine, unit) prog" where
  "caller_step i a junk = bindP (getP (\<lambda>s. caller_at s i)) (\<lambda>p. case p of
      CIdle \<Rightarrow> stuckP
    | CMalloc m \<Rightarrow>
        seqP (modP (\<lambda>s. s\<lparr>heap := (heap s)(a \<mapsto> \<lparr>msg = m, stqe_next = junk\<rparr>)\<rparr>)) (caller_goto i (CLock a m))
    | CLock x m \<Rightarrow> seqP (mutex_lock (Caller i)) (caller_goto i (CNext x m))
    | CNext x m \<Rightarrow> seqP (set_next x None) (caller_goto i (CLink x m))
    | CLink x m \<Rightarrow> bindP (getP stqh_last) (\<lambda>l. seqP (set_slot l (Some x)) (caller_goto i (CTail x m)))
    | CTail x m \<Rightarrow> seqP (modP (\<lambda>s. s\<lparr>stqh_last := AtNext x\<rparr>)) (caller_goto i (CLoad x m))
    | CLoad x m \<Rightarrow> bindP (getP iDataInQueueCount) (\<lambda>v. caller_goto i (CStore x m v))
    | CStore x m v \<Rightarrow> seqP (modP (\<lambda>s. s\<lparr>iDataInQueueCount := v + 1\<rparr>)) (caller_goto i CUnlock)
    | CUnlock \<Rightarrow> seqP mutex_unlock (caller_goto i CIdle))"

text \<open>
  One statement of the thread. \<^verbatim>\<open>STAILQ_REMOVE_HEAD\<close> is two: the head moves on, and when the
  queue is empty then the tail pointer returns to it.
\<close>

definition writer_step :: "(fine, unit) prog" where
  "writer_step = bindP (getP id) (\<lambda>s. case writer_at s of
      WPoll \<Rightarrow> if pLogMutex s = None then seqP (mutex_lock Writer) (writer_goto WTest) else retP ()
    | WTest \<Rightarrow>
        if iDataInQueueCount s > iBulkWrite (sCurrLogSettings s) \<or> iDoForceFlush s \<and> iDataInQueueCount s \<noteq> 0
        then seqP (modP (\<lambda>s. s\<lparr>wToWrite := iDataInQueueCount s, wWritten := 0\<rparr>)) (writer_goto (WTestUnlock True))
        else writer_goto (WTestUnlock False)
    | WTestUnlock iGo \<Rightarrow> seqP mutex_unlock (writer_goto (if iGo then WOpen else WPoll))
    | WOpen \<Rightarrow> seqP (modP (\<lambda>s. s\<lparr>LogfileFd := True\<rparr>)) (writer_goto WFirst)
    | WFirst \<Rightarrow> writer_goto (WMsg (stqh_first s))
    | WMsg p \<Rightarrow> (case p of
          None \<Rightarrow> faultP NullDereference
        | Some x \<Rightarrow> bindP (entry_at x) (\<lambda>e. writer_goto (WLock x (msg e))))
    | WLock x m \<Rightarrow> seqP (mutex_lock Writer) (writer_goto (WNext x m))
    | WNext x m \<Rightarrow> (case stqh_first s of
          None \<Rightarrow> faultP NullDereference
        | Some y \<Rightarrow> bindP (entry_at y) (\<lambda>e. seqP (modP (\<lambda>s. s\<lparr>stqh_first := stqe_next e\<rparr>)) (writer_goto (WLast x m))))
    | WLast x m \<Rightarrow>
        seqP (whenP (stqh_first s = None) (modP (\<lambda>s. s\<lparr>stqh_last := AtFirst\<rparr>))) (writer_goto (WFree x m))
    | WFree x m \<Rightarrow> seqP (free_entry x) (writer_goto (WUnlock m))
    | WUnlock m \<Rightarrow> seqP mutex_unlock (writer_goto (WWrite m))
    | WWrite m \<Rightarrow>
        seqP (modP (\<lambda>s. s\<lparr>terminal := terminal s @ [cstr m], logfile := logfile s @ [m],
                wWritten := wWritten s + 1, wToWrite := wToWrite s - 1\<rparr>))
          (writer_goto (if wToWrite s - 1 \<noteq> 0 then WFirst else WClose))
    | WClose \<Rightarrow> seqP (modP (\<lambda>s. s\<lparr>LogfileFd := False\<rparr>)) (writer_goto WLockUpd)
    | WLockUpd \<Rightarrow> seqP (mutex_lock Writer) (writer_goto WForce)
    | WForce \<Rightarrow> seqP (modP (\<lambda>s. s\<lparr>iDoForceFlush := False\<rparr>)) (writer_goto WLoad)
    | WLoad \<Rightarrow> writer_goto (WStore (iDataInQueueCount s - wWritten s))
    | WStore v \<Rightarrow> seqP (modP (\<lambda>s. s\<lparr>iDataInQueueCount := v\<rparr>)) (writer_goto WUnlockUpd)
    | WUnlockUpd \<Rightarrow> seqP mutex_unlock (writer_goto WPoll))"

text \<open>
  The system: a caller passes the tests of \<^verbatim>\<open>log_msg\<close> and formats its line, a caller or the
  thread makes one statement, somebody asks for a flush. \<^verbatim>\<open>malloc\<close> gives an address that is
  not in use.
\<close>

inductive fstep :: "env \<Rightarrow> nat \<Rightarrow> fine \<Rightarrow> fine \<Rightarrow> bool" for E :: env and n :: nat where
  call: "i < n \<Longrightarrow> caller_at s i = CIdle \<Longrightarrow> is_msg_allowed ty s = LOG_EXIT_SUCCESS \<Longrightarrow> \<not> log_full s \<Longrightarrow>
    log_line E (clock E (stamps s)) ty txt = Some m \<Longrightarrow>
    fstep E n s (s\<lparr>stamps := Suc (stamps s), caller_at := (caller_at s)(i := CMalloc m)\<rparr>)"
| caller: "i < n \<Longrightarrow> heap s a = None \<Longrightarrow> caller_step i a junk s = Ret () t \<Longrightarrow> fstep E n s t"
| flush: "fstep E n s (s\<lparr>iDoForceFlush := True\<rparr>)"
| writer: "writer_step s = Ret () t \<Longrightarrow> fstep E n s t"

definition fine_init :: "fine \<Rightarrow> bool" where
  "fine_init s \<longleftrightarrow> heap s = Map.empty \<and> stqh_first s = None \<and> stqh_last s = AtFirst \<and>
     pLogMutex s = None \<and> caller_at s = (\<lambda>_. CIdle) \<and> writer_at s = WPoll \<and> wToWrite s = 0 \<and> wWritten s = 0 \<and>
     iDataInQueueCount s = 0 \<and> 0 \<le> iBulkWrite (sCurrLogSettings s) \<and> 0 \<le> iLoggerQueueSize (sCurrLogSettings s)"

section \<open>The linked list\<close>

text \<open>The entries \<open>as\<close>, one after the other, lead from the pointer \<open>p\<close> to the pointer \<open>q\<close>.\<close>

primrec path :: "(nat \<rightharpoonup> tsEntry) \<Rightarrow> nat option \<Rightarrow> nat list \<Rightarrow> nat option \<Rightarrow> bool" where
  "path h p [] q \<longleftrightarrow> p = q"
| "path h p (a # as) q \<longleftrightarrow> p = Some a \<and> (\<exists>e. h a = Some e \<and> path h (stqe_next e) as q)"

definition text_at :: "(nat \<rightharpoonup> tsEntry) \<Rightarrow> nat \<Rightarrow> string" where
  "text_at h a = (case h a of None \<Rightarrow> [] | Some e \<Rightarrow> msg e)"

text \<open>Where \<^verbatim>\<open>stqh_last\<close> should point: to the last link.\<close>

definition end_slot :: "nat list \<Rightarrow> slot" where
  "end_slot as = (if as = [] then AtFirst else AtNext (last as))"

lemma path_other [simp]: "a \<notin> set as \<Longrightarrow> path (h(a := x)) p as q = path h p as q"
  by (induction as arbitrary: p) auto

lemma texts_other [simp]: "a \<notin> set as \<Longrightarrow> map (text_at (h(a := x))) as = map (text_at h) as"
  by (auto simp: text_at_def)

lemma path_in_heap: "path h p as q \<Longrightarrow> a \<in> set as \<Longrightarrow> \<exists>e. h a = Some e"
  by (induction as arbitrary: p) auto

lemma path_first: "path h p as None \<Longrightarrow> p = (if as = [] then None else Some (hd as))"
  by (cases as) auto

lemma path_append: "path h p (as @ bs) q \<longleftrightarrow> (\<exists>r. path h p as r \<and> path h r bs q)"
  by (induction as arbitrary: p) auto

text \<open>A list in memory has no entry twice: its entries are what its head leads to.\<close>

lemma path_unique: "path h p as None \<Longrightarrow> path h p bs None \<Longrightarrow> as = bs"
proof (induction as arbitrary: p bs)
  case Nil
  then show ?case by (cases bs) auto
next
  case (Cons a as)
  then show ?case by (cases bs) auto
qed

lemma path_distinct: "path h p as None \<Longrightarrow> distinct as"
proof (induction as arbitrary: p)
  case (Cons a as)
  then obtain e where e: "h a = Some e" "path h (stqe_next e) as None" by auto
  have "a \<notin> set as"
  proof
    assume "a \<in> set as"
    then obtain us vs where as: "as = us @ a # vs" by (auto simp: in_set_conv_decomp)
    with e have "path h (stqe_next e) vs None" by (auto simp: path_append)
    with e(2) have "as = vs" by (rule path_unique)
    with as show False by auto
  qed
  with Cons e show ?case by auto
qed simp

text \<open>The two assignments that put an entry at the end, when the list is empty and when not.\<close>

lemma path_snoc:
  assumes "path h p as None" and "as \<noteq> []" and "h (last as) = Some e"
    and "h x = Some d" and "stqe_next d = None" and "x \<notin> set as"
  shows "path (h(last as \<mapsto> e\<lparr>stqe_next := Some x\<rparr>)) p (as @ [x]) None"
proof -
  obtain bs b where as: "as = bs @ [b]" using assms(2) by (metis append_butlast_last_id)
  with path_distinct[OF assms(1)] have b: "b \<notin> set bs" by simp
  have "path h p bs (Some b)" using assms(1) as by (auto simp: path_append)
  with b assms(3-6) as show ?thesis by (auto simp: path_append)
qed

lemma text_at_link [simp]: "h b = Some e \<Longrightarrow> text_at (h(b \<mapsto> e\<lparr>stqe_next := p\<rparr>)) = text_at h"
  by (auto simp: text_at_def fun_eq_iff)

lemma end_slot_simps [simp]: "end_slot [] = AtFirst" "end_slot (as @ [a]) = AtNext a"
  by (simp_all add: end_slot_def)

section \<open>What holds between the statements\<close>

text \<open>Between lock and unlock.\<close>

fun caller_in :: "cpc \<Rightarrow> bool" where
  "caller_in CIdle = False"
| "caller_in (CMalloc m) = False"
| "caller_in (CLock a m) = False"
| "caller_in _ = True"

fun writer_in :: "wpc \<Rightarrow> bool" where
  "writer_in WTest = True"
| "writer_in (WTestUnlock go) = True"
| "writer_in (WNext a m) = True"
| "writer_in (WLast a m) = True"
| "writer_in (WFree a m) = True"
| "writer_in (WUnlock m) = True"
| "writer_in WForce = True"
| "writer_in WLoad = True"
| "writer_in (WStore v) = True"
| "writer_in WUnlockUpd = True"
| "writer_in _ = False"

fun inside :: "fine \<Rightarrow> owner \<Rightarrow> bool" where
  "inside s (Caller i) = caller_in (caller_at s i)"
| "inside s Writer = writer_in (writer_at s)"

definition owners :: "nat \<Rightarrow> owner set" where
  "owners n = insert Writer (Caller ` {..<n})"

text \<open>Exactly the owner of the mutex is between lock and unlock.\<close>

definition locks_ok :: "nat \<Rightarrow> fine \<Rightarrow> bool" where
  "locks_ok n s \<longleftrightarrow> (\<forall>x \<in> owners n. inside s x \<longleftrightarrow> pLogMutex s = Some x) \<and>
     (\<forall>x. pLogMutex s = Some x \<longrightarrow> x \<in> owners n)"

text \<open>Entries that are in somebody's hand and not in the list.\<close>

fun caller_holds :: "cpc \<Rightarrow> nat set" where
  "caller_holds (CLock a m) = {a}"
| "caller_holds (CNext a m) = {a}"
| "caller_holds (CLink a m) = {a}"
| "caller_holds _ = {}"

fun writer_holds :: "wpc \<Rightarrow> nat set" where
  "writer_holds (WLast a m) = {a}"
| "writer_holds (WFree a m) = {a}"
| "writer_holds _ = {}"

fun in_hands :: "fine \<Rightarrow> owner \<Rightarrow> nat set" where
  "in_hands s (Caller i) = caller_holds (caller_at s i)"
| "in_hands s Writer = writer_holds (writer_at s)"

text \<open>What the position of a caller says about memory.\<close>

fun caller_ok :: "fine \<Rightarrow> nat list \<Rightarrow> cpc \<Rightarrow> bool" where
  "caller_ok s as (CLock a m) \<longleftrightarrow> heap s a \<noteq> None \<and> text_at (heap s) a = m"
| "caller_ok s as (CNext a m) \<longleftrightarrow> heap s a \<noteq> None \<and> text_at (heap s) a = m"
| "caller_ok s as (CLink a m) \<longleftrightarrow> heap s a = Some \<lparr>msg = m, stqe_next = None\<rparr>"
| "caller_ok s as (CTail a m) \<longleftrightarrow> as \<noteq> [] \<and> last as = a \<and> text_at (heap s) a = m"
| "caller_ok s as (CLoad a m) \<longleftrightarrow> as \<noteq> [] \<and> last as = a \<and> text_at (heap s) a = m"
| "caller_ok s as (CStore a m v) \<longleftrightarrow> as \<noteq> [] \<and> last as = a \<and> text_at (heap s) a = m \<and> v = iDataInQueueCount s"
| "caller_ok s as _ \<longleftrightarrow> True"

fun writer_ok :: "fine \<Rightarrow> nat list \<Rightarrow> wpc \<Rightarrow> bool" where
  "writer_ok s as (WMsg p) \<longleftrightarrow> as \<noteq> [] \<and> p = Some (hd as)"
| "writer_ok s as (WLock a m) \<longleftrightarrow> as \<noteq> [] \<and> a = hd as \<and> text_at (heap s) a = m"
| "writer_ok s as (WNext a m) \<longleftrightarrow> as \<noteq> [] \<and> a = hd as \<and> text_at (heap s) a = m"
| "writer_ok s as (WStore v) \<longleftrightarrow> v = iDataInQueueCount s - wWritten s"
| "writer_ok s as _ \<longleftrightarrow> True"

definition positions_ok :: "nat \<Rightarrow> fine \<Rightarrow> nat list \<Rightarrow> bool" where
  "positions_ok n s as \<longleftrightarrow> (\<forall>i<n. caller_ok s as (caller_at s i)) \<and> writer_ok s as (writer_at s)"

text \<open>
  The tail pointer points to the last link, but for two moments: when an entry is linked and the
  pointer has not followed, and when the last entry was taken out and it has not returned.
\<close>

fun at_tail :: "cpc \<Rightarrow> bool" where
  "at_tail (CTail a m) = True"
| "at_tail _ = False"

fun at_last :: "wpc \<Rightarrow> bool" where
  "at_last (WLast a m) = True"
| "at_last _ = False"

definition linking :: "fine \<Rightarrow> bool" where
  "linking s \<longleftrightarrow> (case pLogMutex s of Some (Caller i) \<Rightarrow> at_tail (caller_at s i) | _ \<Rightarrow> False)"

definition tail_ok :: "fine \<Rightarrow> nat list \<Rightarrow> bool" where
  "tail_ok s as \<longleftrightarrow>
     (if linking s then stqh_last s = end_slot (butlast as)
      else at_last (writer_at s) \<and> as = [] \<or> stqh_last s = end_slot as)"

text \<open>
  Memory: the list, and nothing is allocated but the entries of the list and those in somebody's
  hand, which are all different.
\<close>

definition heap_fits :: "nat \<Rightarrow> (nat \<rightharpoonup> tsEntry) \<Rightarrow> nat option \<Rightarrow> (owner \<Rightarrow> nat set) \<Rightarrow> nat list \<Rightarrow> bool" where
  "heap_fits n h f H as \<longleftrightarrow> path h f as None \<and> dom h = set as \<union> (\<Union>x \<in> owners n. H x) \<and>
     (\<forall>x \<in> owners n. H x \<inter> set as = {}) \<and>
     (\<forall>x \<in> owners n. \<forall>y \<in> owners n. x \<noteq> y \<longrightarrow> H x \<inter> H y = {})"

definition heap_ok :: "nat \<Rightarrow> fine \<Rightarrow> nat list \<Rightarrow> bool" where
  "heap_ok n s as \<longleftrightarrow> heap_fits n (heap s) (stqh_first s) (in_hands s) as"

definition memory_ok :: "nat \<Rightarrow> fine \<Rightarrow> nat list \<Rightarrow> bool" where
  "memory_ok n s as \<longleftrightarrow> locks_ok n s \<and> heap_ok n s as \<and> positions_ok n s as \<and> tail_ok s as"

subsection \<open>Statements keep memory in order\<close>

lemmas statement_defs = caller_goto_def writer_goto_def entry_at_def set_next_def set_slot_def free_entry_def
  mutex_lock_def mutex_unlock_def whenP_def

text \<open>A statement changes the position of one thread; taking the mutex, keeping it, giving it back.\<close>

definition moved :: "owner \<Rightarrow> bool \<Rightarrow> fine \<Rightarrow> fine \<Rightarrow> bool" where
  "moved x b s t \<longleftrightarrow> inside t = (inside s)(x := b)"

lemma movedI:
  assumes "\<And>i. caller_in (caller_at t i) = (if x = Caller i then b else caller_in (caller_at s i))"
    and "writer_in (writer_at t) = (if x = Writer then b else writer_in (writer_at s))"
  shows "moved x b s t"
  unfolding moved_def
proof
  fix y
  show "inside t y = ((inside s)(x := b)) y" using assms by (cases y) auto
qed

lemma locks_move:
  assumes "locks_ok n s" and "x \<in> owners n" and "moved x b s t"
    and "inside s x \<and> b \<and> pLogMutex t = pLogMutex s \<or> \<not> inside s x \<and> \<not> b \<and> pLogMutex t = pLogMutex s \<or>
      pLogMutex s = None \<and> b \<and> pLogMutex t = Some x \<or> inside s x \<and> \<not> b \<and> pLogMutex t = None"
  shows "locks_ok n t"
  using assms by (auto simp: locks_ok_def moved_def)

lemma owners_simps [simp]: "Writer \<in> owners n" "Caller i \<in> owners n \<longleftrightarrow> i < n"
  by (auto simp: owners_def)

lemma caller_locks:
  assumes "locks_ok n s" and "i < n" and "caller_step i a junk s = Ret () t"
  shows "locks_ok n t"
proof (rule locks_move[OF assms(1), of "Caller i"])
  show "Caller i \<in> owners n" using assms(2) by simp
  show "moved (Caller i) (caller_in (caller_at t i)) s t"
    using assms(3)
    by (intro movedI; cases "caller_at s i"; cases "stqh_last s")
      (auto simp: caller_step_def statement_defs split: option.splits)
  show "inside s (Caller i) \<and> caller_in (caller_at t i) \<and> pLogMutex t = pLogMutex s \<or>
    \<not> inside s (Caller i) \<and> \<not> caller_in (caller_at t i) \<and> pLogMutex t = pLogMutex s \<or>
    pLogMutex s = None \<and> caller_in (caller_at t i) \<and> pLogMutex t = Some (Caller i) \<or>
    inside s (Caller i) \<and> \<not> caller_in (caller_at t i) \<and> pLogMutex t = None"
    using assms(3)
    by (cases "caller_at s i"; cases "stqh_last s")
      (auto simp: caller_step_def statement_defs split: option.splits)
qed

lemma writer_locks:
  assumes "locks_ok n s" and "writer_step s = Ret () t"
  shows "locks_ok n t"
proof (rule locks_move[OF assms(1), of Writer])
  show "moved Writer (writer_in (writer_at t)) s t"
    using assms(2)
    by (intro movedI; cases "writer_at s")
      (auto simp: writer_step_def statement_defs split: option.splits if_splits)
  show "inside s Writer \<and> writer_in (writer_at t) \<and> pLogMutex t = pLogMutex s \<or>
    \<not> inside s Writer \<and> \<not> writer_in (writer_at t) \<and> pLogMutex t = pLogMutex s \<or>
    pLogMutex s = None \<and> writer_in (writer_at t) \<and> pLogMutex t = Some Writer \<or>
    inside s Writer \<and> \<not> writer_in (writer_at t) \<and> pLogMutex t = None"
    using assms(2)
    by (cases "writer_at s")
      (auto simp: writer_step_def statement_defs split: option.splits if_splits)
qed simp


text \<open>The ways in which memory changes.\<close>

lemma fits_alloc:
  assumes "heap_fits n h f H as" and "h a = None" and "x \<in> owners n" and "H x = {}"
  shows "heap_fits n (h(a \<mapsto> e)) f (H(x := {a})) as"
proof -
  have a: "a \<notin> set as" "\<And>y. y \<in> owners n \<Longrightarrow> a \<notin> H y"
  proof -
    have "a \<notin> dom h" using assms(2) by auto
    with assms(1) have "a \<notin> set as \<union> (\<Union>y \<in> owners n. H y)" by (simp add: heap_fits_def)
    then show "a \<notin> set as" "\<And>y. y \<in> owners n \<Longrightarrow> a \<notin> H y" by auto
  qed
  have "(\<Union>y \<in> owners n. (H(x := {a})) y) = insert a (\<Union>y \<in> owners n. H y)"
    using assms(3,4) by (auto split: if_splits)
  with assms(1) a show ?thesis by (auto simp: heap_fits_def)
qed

lemma fits_write:
  assumes "heap_fits n h f H as" and "x \<in> owners n" and "a \<in> H x"
  shows "heap_fits n (h(a \<mapsto> e)) f H as"
  using assms unfolding heap_fits_def by (auto simp: disjoint_iff)

lemma fits_insert:
  assumes "heap_fits n h f H as" and "x \<in> owners n" and "H x = {a}" and "h a = Some d" and "stqe_next d = None"
  shows "as = [] \<Longrightarrow> heap_fits n h (Some a) (H(x := {})) [a]"
    and "as \<noteq> [] \<Longrightarrow> h (last as) = Some e \<Longrightarrow>
      heap_fits n (h(last as \<mapsto> e\<lparr>stqe_next := Some a\<rparr>)) f (H(x := {})) (as @ [a])"
proof -
  have d: "dom h = insert a (set as \<union> (\<Union>y \<in> owners n. (H(x := {})) y))"
    and a: "a \<notin> set as" "\<And>y. y \<in> owners n \<Longrightarrow> y \<noteq> x \<Longrightarrow> a \<notin> H y"
    and p: "path h f as None" using assms(1-3) by (auto simp: heap_fits_def)
  show "heap_fits n h (Some a) (H(x := {})) [a]" if "as = []"
    using assms d a p that by (auto simp: heap_fits_def)
  show "heap_fits n (h(last as \<mapsto> e\<lparr>stqe_next := Some a\<rparr>)) f (H(x := {})) (as @ [a])"
    if "as \<noteq> []" and "h (last as) = Some e"
    using path_snoc[OF p that assms(4,5) a(1)] assms(1) d a that by (auto simp: heap_fits_def)
qed

lemma fits_remove:
  assumes "heap_fits n h f H (a # as)" and "H Writer = {}" and "h a = Some e"
  shows "heap_fits n h (stqe_next e) (H(Writer := {a})) as"
proof -
  have "a \<notin> set as" using path_distinct[of h f "a # as"] assms(1) by (simp add: heap_fits_def)
  moreover have "(\<Union>y \<in> owners n. (H(Writer := {a})) y) = insert a (\<Union>y \<in> owners n. H y)"
    using assms(2) by (auto split: if_splits)
  ultimately show ?thesis using assms by (auto simp: heap_fits_def)
qed

lemma fits_free:
  assumes "heap_fits n h f H as" and "H Writer = {a}"
  shows "heap_fits n (h(a := None)) f (H(Writer := {})) as"
proof -
  have a: "a \<notin> set as" "\<And>y. y \<in> owners n \<Longrightarrow> y \<noteq> Writer \<Longrightarrow> a \<notin> H y"
  proof -
    have "H Writer \<inter> set as = {}" "\<And>y. y \<in> owners n \<Longrightarrow> y \<noteq> Writer \<Longrightarrow> H Writer \<inter> H y = {}"
      using assms(1) owners_simps(1)[of n] by (auto simp: heap_fits_def)
    with assms(2) show "a \<notin> set as" "\<And>y. y \<in> owners n \<Longrightarrow> y \<noteq> Writer \<Longrightarrow> a \<notin> H y" by auto
  qed
  have "a \<in> (\<Union>y \<in> owners n. H y)" by (rule UN_I[OF owners_simps(1)]) (simp add: assms(2))
  then have "(\<Union>y \<in> owners n. H y) = insert a (\<Union>y \<in> owners n. (H(Writer := {})) y)"
    using assms(2) by (auto split: if_splits)
  moreover have "a \<notin> (\<Union>y \<in> owners n. (H(Writer := {})) y)" using a(2) by (auto split: if_splits)
  ultimately show ?thesis using assms(1) a by (auto simp: heap_fits_def)
qed


lemma in_handsI:
  assumes "\<And>i. caller_holds (caller_at t i) = (if x = Caller i then A else caller_holds (caller_at s i))"
    and "writer_holds (writer_at t) = (if x = Writer then A else writer_holds (writer_at s))"
  shows "in_hands t = (in_hands s)(x := A)"
proof
  fix y
  show "in_hands t y = ((in_hands s)(x := A)) y" using assms by (cases y) auto
qed

lemma in_hands_same:
  assumes "\<And>i. caller_holds (caller_at t i) = caller_holds (caller_at s i)"
    and "writer_holds (writer_at t) = writer_holds (writer_at s)"
  shows "in_hands t = in_hands s"
proof
  fix y
  show "in_hands t y = in_hands s y" using assms by (cases y) auto
qed

fun caller_list :: "cpc \<Rightarrow> nat list \<Rightarrow> nat list" where
  "caller_list (CLink x m) as = as @ [x]"
| "caller_list _ as = as"

fun writer_list :: "wpc \<Rightarrow> nat list \<Rightarrow> nat list" where
  "writer_list (WNext x m) as = tl as"
| "writer_list _ as = as"

text \<open>While a caller is about to link its entry, the tail pointer is where it should be.\<close>

lemma tail_at_link:
  assumes "memory_ok n s as" and "i < n" and "caller_at s i = CLink x m"
  shows "stqh_last s = end_slot as" and "heap s x = Some \<lparr>msg = m, stqe_next = None\<rparr>" and "x \<notin> set as"
proof -
  have "inside s (Caller i)" using assms(3) by simp
  then have "pLogMutex s = Some (Caller i)" using assms(1,2) by (auto simp: memory_ok_def locks_ok_def simp del: inside.simps)
  moreover from this have "\<not> writer_in (writer_at s)"
    using assms(1) by (auto simp: memory_ok_def locks_ok_def dest!: bspec[of _ _ Writer])
  then have "\<not> at_last (writer_at s)" by (cases "writer_at s") auto
  ultimately show "stqh_last s = end_slot as"
    using assms by (simp add: memory_ok_def tail_ok_def linking_def)
  show "heap s x = Some \<lparr>msg = m, stqe_next = None\<rparr>" using assms by (auto simp: memory_ok_def positions_ok_def)
  have "in_hands s (Caller i) \<inter> set as = {}"
    using assms(1,2) by (simp add: memory_ok_def heap_ok_def heap_fits_def del: in_hands.simps)
  then show "x \<notin> set as" using assms(3) by simp
qed

lemma caller_heap:
  assumes "memory_ok n s as" and "i < n" and "heap s a = None" and "caller_step i a junk s = Ret () t"
  shows "heap_ok n t (caller_list (caller_at s i) as)"
proof -
  from assms(1) have fits: "heap_fits n (heap s) (stqh_first s) (in_hands s) as" by (simp add: memory_ok_def heap_ok_def)
  have own: "Caller i \<in> owners n" using assms(2) by simp
  show ?thesis
  proof (cases "caller_at s i")
    case (CMalloc m)
    with assms(4) have "in_hands t = (in_hands s)(Caller i := {a})"
      by (intro in_handsI) (auto simp: caller_step_def statement_defs)
    with CMalloc assms(4) fits_alloc[OF fits assms(3) own] show ?thesis
      by (auto simp: caller_step_def statement_defs heap_ok_def)
  next
    case (CNext x m)
    with assms(4) have "in_hands t = in_hands s"
      by (intro in_hands_same) (auto simp: caller_step_def statement_defs split: option.splits if_splits)
    with CNext assms(4) fits_write[OF fits own, of x] show ?thesis
      by (auto simp: caller_step_def statement_defs heap_ok_def split: option.splits)
  next
    case (CLink x m)
    note at = tail_at_link[OF assms(1,2) CLink]
    show ?thesis
    proof (cases "as = []")
      case True
      with CLink at(1) assms(4) have t: "t = s\<lparr>stqh_first := Some x, caller_at := (caller_at s)(i := CTail x m)\<rparr>"
        by (simp add: caller_step_def statement_defs)
      with CLink have "in_hands t = (in_hands s)(Caller i := {})" by (intro in_handsI) auto
      with t True CLink fits_insert(1)[OF fits own _ at(2)] show ?thesis by (simp add: heap_ok_def)
    next
      case False
      with fits obtain e where e: "heap s (last as) = Some e"
        using path_in_heap[of "heap s" "stqh_first s" as None "last as"] by (auto simp: heap_fits_def)
      with False CLink at(1) assms(4)
      have t: "t = s\<lparr>heap := (heap s)(last as \<mapsto> e\<lparr>stqe_next := Some x\<rparr>), caller_at := (caller_at s)(i := CTail x m)\<rparr>"
        by (simp add: caller_step_def statement_defs end_slot_def)
      with CLink have "in_hands t = (in_hands s)(Caller i := {})" by (intro in_handsI) auto
      with t e False CLink fits_insert(2)[OF fits own _ at(2)] show ?thesis by (simp add: heap_ok_def)
    qed
  next
    case (CLock x m)
    with assms(4) have "in_hands t = in_hands s"
      by (intro in_hands_same) (auto simp: caller_step_def statement_defs split: option.splits if_splits)
    with CLock assms(4) fits show ?thesis
      by (auto simp: caller_step_def statement_defs heap_ok_def split: option.splits)
  qed (use assms(4) fits in_hands_same[of t s] in
      \<open>auto simp: caller_step_def statement_defs heap_ok_def split: option.splits\<close>)
qed


text \<open>What a caller's statement leaves alone in memory.\<close>

lemma caller_frame:
  assumes "memory_ok n s as" and "i < n" and "heap s a = None" and "caller_step i a junk s = Ret () t"
  shows "b \<notin> in_hands s (Caller i) \<Longrightarrow> b \<notin> set as \<Longrightarrow> b \<noteq> a \<Longrightarrow> heap t b = heap s b"
    and "heap s b \<noteq> None \<Longrightarrow> heap t b \<noteq> None \<and> text_at (heap t) b = text_at (heap s) b"
    and "j \<noteq> i \<Longrightarrow> caller_at t j = caller_at s j" and "writer_at t = writer_at s" and "wWritten t = wWritten s"
    and "\<not> inside s (Caller i) \<Longrightarrow> iDataInQueueCount t = iDataInQueueCount s"
proof -
  have last: "\<exists>e. heap s (last as) = Some e" if "as \<noteq> []"
    using assms(1) that path_in_heap[of "heap s" "stqh_first s" as None "last as"]
    by (auto simp: memory_ok_def heap_ok_def heap_fits_def)
  have slot: "stqh_last s = end_slot as" if "caller_at s i = CLink x m" for x m
    using tail_at_link(1)[OF assms(1,2) that] .
  note simps = caller_step_def statement_defs end_slot_def text_at_def
  show "heap t b = heap s b" if "b \<notin> in_hands s (Caller i)" "b \<notin> set as" "b \<noteq> a"
    using assms(4) that slot
    by (cases "caller_at s i"; cases "as = []") (auto simp: simps split: option.splits)
  show "heap t b \<noteq> None \<and> text_at (heap t) b = text_at (heap s) b" if "heap s b \<noteq> None"
    using assms(3,4) that slot last
    by (cases "caller_at s i"; cases "as = []") (auto simp: simps split: option.splits if_splits)
  show "caller_at t j = caller_at s j" if "j \<noteq> i"
    using assms(4) that slot
    by (cases "caller_at s i"; cases "as = []") (auto simp: simps split: option.splits)
  show "writer_at t = writer_at s" "wWritten t = wWritten s"
    using assms(4) slot
    by (cases "caller_at s i"; cases "as = []"; auto simp: simps split: option.splits)+
  show "iDataInQueueCount t = iDataInQueueCount s" if "\<not> inside s (Caller i)"
    using assms(4) that
    by (cases "caller_at s i") (auto simp: simps split: option.splits)
qed


lemma caller_ok_outside:
  "\<not> caller_in p \<Longrightarrow> caller_ok s as p \<Longrightarrow> \<forall>b \<in> caller_holds p. heap t b = heap s b \<Longrightarrow> caller_ok t as' p"
  by (cases p) (auto simp: text_at_def)

lemma caller_ok_inside:
  assumes "caller_ok s as p" and "caller_in p" and "\<forall>b \<in> caller_holds p. heap t b = heap s b"
    and "as \<noteq> [] \<Longrightarrow> text_at (heap t) (last as) = text_at (heap s) (last as)"
    and "iDataInQueueCount t = iDataInQueueCount s"
  shows "caller_ok t as p"
  using assms by (cases p) (auto simp: text_at_def)

text \<open>The caller's own position after its statement.\<close>

lemma caller_ok_self:
  assumes "memory_ok n s as" and "i < n" and "heap s a = None" and "caller_step i a junk s = Ret () t"
  shows "caller_ok t (caller_list (caller_at s i) as) (caller_at t i)"
proof -
  have ok: "caller_ok s as (caller_at s i)" using assms(1,2) by (simp add: memory_ok_def positions_ok_def)
  note simps = caller_step_def statement_defs end_slot_def text_at_def
  show ?thesis
  proof (cases "caller_at s i")
    case (CLink x m)
    note at = tail_at_link[OF assms(1,2) CLink]
    show ?thesis
    proof (cases "as = []")
      case True
      with CLink at assms(4) show ?thesis by (auto simp: simps)
    next
      case False
      then have "x \<noteq> last as" using at(3) by auto
      with False CLink at assms(4) show ?thesis by (auto simp: simps split: option.splits)
    qed
  qed (use assms(4) ok in \<open>auto simp: simps split: option.splits\<close>)
qed

lemma inside_owner: "locks_ok n s \<Longrightarrow> x \<in> owners n \<Longrightarrow> inside s x \<longleftrightarrow> pLogMutex s = Some x"
  by (simp add: locks_ok_def)

lemma caller_positions:
  assumes "memory_ok n s as" and "i < n" and "heap s a = None" and "caller_step i a junk s = Ret () t"
  shows "positions_ok n t (caller_list (caller_at s i) as)"
proof -
  note frame = caller_frame[OF assms]
  have locks: "locks_ok n s" and fits: "heap_fits n (heap s) (stqh_first s) (in_hands s) as"
    and pos: "\<And>j. j < n \<Longrightarrow> caller_ok s as (caller_at s j)" "writer_ok s as (writer_at s)"
    using assms(1) by (auto simp: memory_ok_def heap_ok_def positions_ok_def)
  have others: "heap t b = heap s b" if "x \<in> owners n" "x \<noteq> Caller i" "b \<in> in_hands s x" for x b
  proof (rule frame(1))
    have "in_hands s x \<inter> set as = {}" "in_hands s x \<inter> in_hands s (Caller i) = {}" "in_hands s x \<subseteq> dom (heap s)"
      using fits that(1,2) assms(2) by (auto simp: heap_fits_def simp del: in_hands.simps)
    with that(3) assms(3) show "b \<notin> in_hands s (Caller i)" "b \<notin> set as" "b \<noteq> a" by auto
  qed
  have texts: "text_at (heap t) b = text_at (heap s) b" if "b \<in> set as" for b
    using frame(2)[of b] fits that path_in_heap[of "heap s" "stqh_first s" as None b] by (auto simp: heap_fits_def)
  have "caller_ok t (caller_list (caller_at s i) as) (caller_at t j)" if j: "j < n" for j
  proof (cases "j = i")
    case True
    then show ?thesis using caller_ok_self[OF assms] by simp
  next
    case False
    then have at: "caller_at t j = caller_at s j" by (rule frame(3))
    have h: "\<forall>b \<in> caller_holds (caller_at s j). heap t b = heap s b" using others[of "Caller j"] False j by auto
    show ?thesis
    proof (cases "caller_in (caller_at s j)")
      case True
      with locks j have "pLogMutex s = Some (Caller j)" using inside_owner[of n s "Caller j"] by simp
      with locks False assms(2) have "\<not> inside s (Caller i)" using inside_owner[of n s "Caller i"] by simp
      then have "iDataInQueueCount t = iDataInQueueCount s" by (rule frame(6))
      moreover from \<open>\<not> inside s (Caller i)\<close> have "caller_list (caller_at s i) as = as"
        by (cases "caller_at s i") simp_all
      ultimately show ?thesis using at True h texts pos(1)[OF j] by (auto intro!: caller_ok_inside[of s as _ t])
    next
      case False
      with at h pos(1)[OF j] show ?thesis by (auto intro: caller_ok_outside)
    qed
  qed
  moreover have "writer_ok t (caller_list (caller_at s i) as) (writer_at t)"
  proof -
    have "iDataInQueueCount t = iDataInQueueCount s" if "writer_in (writer_at s)"
      using that frame(6) inside_owner[OF locks, of Writer] inside_owner[OF locks, of "Caller i"] assms(2) by simp
    moreover have "as \<noteq> [] \<Longrightarrow> hd (caller_list (caller_at s i) as) = hd as \<and> caller_list (caller_at s i) as \<noteq> []"
      by (cases "caller_at s i") simp_all
    ultimately show ?thesis using pos(2) frame(4,5) texts by (cases "writer_at s") auto
  qed
  ultimately show ?thesis by (simp add: positions_ok_def)
qed


lemma caller_tail:
  assumes "memory_ok n s as" and "i < n" and "caller_step i a junk s = Ret () t"
  shows "tail_ok t (caller_list (caller_at s i) as)"
proof -
  have locks: "locks_ok n s" and tail: "tail_ok s as" and pos: "caller_ok s as (caller_at s i)"
    using assms(1,2) by (auto simp: memory_ok_def positions_ok_def)
  have own: "pLogMutex s = Some (Caller i) \<longleftrightarrow> caller_in (caller_at s i)"
    using inside_owner[OF locks, of "Caller i"] assms(2) by simp
  have out: "\<not> at_last (writer_at s)" if "pLogMutex s = None \<or> caller_in (caller_at s i)"
    using inside_owner[OF locks, of Writer] own that by (cases "writer_at s") auto
  note simps = caller_step_def statement_defs tail_ok_def linking_def
  show ?thesis
  proof (cases "caller_at s i")
    case (CMalloc m)
    with own have "pLogMutex s \<noteq> Some (Caller i)" by simp
    with CMalloc assms(3) have "linking t = linking s"
      by (auto simp: simps split: option.splits owner.splits)
    with CMalloc assms(3) tail show ?thesis by (auto simp: caller_step_def statement_defs tail_ok_def)
  next
    case (CLink x m)
    with assms(3) tail own out show ?thesis by (cases "stqh_last s") (auto simp: simps split: option.splits)
  next
    case (CTail x m)
    with assms(3) own pos show ?thesis by (auto simp: simps end_slot_def)
  qed (use assms(3) tail own out in \<open>auto simp: simps split: option.splits\<close>)
qed

lemma caller_memory:
  assumes "memory_ok n s as" and "i < n" and "heap s a = None" and "caller_step i a junk s = Ret () t"
  shows "memory_ok n t (caller_list (caller_at s i) as)"
  using caller_locks[OF _ assms(2,4)] caller_heap[OF assms] caller_positions[OF assms] caller_tail[OF assms(1,2,4)]
    assms(1)
  by (simp add: memory_ok_def)

text \<open>The thread's statements; it takes from the queue only what is there.\<close>

lemma writer_heap:
  assumes "memory_ok n s as" and "writer_step s = Ret () t"
  shows "heap_ok n t (writer_list (writer_at s) as)"
proof -
  from assms(1) have fits: "heap_fits n (heap s) (stqh_first s) (in_hands s) as"
    and pos: "writer_ok s as (writer_at s)" by (auto simp: memory_ok_def heap_ok_def positions_ok_def)
  show ?thesis
  proof (cases "writer_at s")
    case (WNext x m)
    with pos obtain bs where as: "as = x # bs" by (cases as) auto
    with fits obtain e where e: "heap s x = Some e" "stqh_first s = Some x" by (auto simp: heap_fits_def)
    with WNext assms(2) have t: "t = s\<lparr>stqh_first := stqe_next e, writer_at := WLast x m\<rparr>"
      by (simp add: writer_step_def statement_defs)
    with WNext have "in_hands t = (in_hands s)(Writer := {x})" by (intro in_handsI) auto
    with t WNext fits_remove[OF fits[unfolded as] _ e(1)] as show ?thesis by (simp add: heap_ok_def)
  next
    case (WFree x m)
    with assms(2) have t: "t = s\<lparr>heap := (heap s)(x := None), writer_at := WUnlock m\<rparr>"
      by (auto simp: writer_step_def statement_defs split: option.splits)
    with WFree have "in_hands t = (in_hands s)(Writer := {})" by (intro in_handsI) auto
    with t WFree fits_free[OF fits, of x] show ?thesis by (simp add: heap_ok_def)
  qed (use assms(2) fits in_hands_same[of t s] in
      \<open>auto simp: writer_step_def statement_defs heap_ok_def split: option.splits if_splits\<close>)
qed


lemma writer_frame:
  assumes "writer_step s = Ret () t"
  shows "b \<notin> in_hands s Writer \<Longrightarrow> heap t b = heap s b" and "caller_at t = caller_at s"
    and "\<not> writer_in (writer_at s) \<Longrightarrow> iDataInQueueCount t = iDataInQueueCount s"
    and "\<not> writer_in (writer_at s) \<Longrightarrow> writer_list (writer_at s) as = as"
  using assms
  by (cases "writer_at s"; auto simp: writer_step_def statement_defs split: option.splits if_splits)+

lemma writer_ok_self:
  assumes "memory_ok n s as" and "writer_step s = Ret () t" and "writer_at s = WFirst \<Longrightarrow> as \<noteq> []"
  shows "writer_ok t (writer_list (writer_at s) as) (writer_at t)"
proof -
  have ok: "writer_ok s as (writer_at s)" and path: "path (heap s) (stqh_first s) as None"
    using assms(1) by (auto simp: memory_ok_def positions_ok_def heap_ok_def heap_fits_def)
  show ?thesis
    using assms(2,3) ok path_first[OF path]
    by (cases "writer_at s") (auto simp: writer_step_def statement_defs text_at_def split: option.splits if_splits)
qed

lemma writer_positions:
  assumes "memory_ok n s as" and "writer_step s = Ret () t" and "writer_at s = WFirst \<Longrightarrow> as \<noteq> []"
  shows "positions_ok n t (writer_list (writer_at s) as)"
proof -
  note frame = writer_frame[OF assms(2)]
  have locks: "locks_ok n s" and fits: "heap_fits n (heap s) (stqh_first s) (in_hands s) as"
    and pos: "\<And>j. j < n \<Longrightarrow> caller_ok s as (caller_at s j)"
    using assms(1) by (auto simp: memory_ok_def heap_ok_def positions_ok_def)
  have "caller_ok t (writer_list (writer_at s) as) (caller_at t j)" if j: "j < n" for j
  proof -
    have "in_hands s (Caller j) \<inter> in_hands s Writer = {}" "in_hands s Writer \<inter> set as = {}"
      using fits j by (auto simp: heap_fits_def simp del: in_hands.simps)
    then have h: "\<forall>b \<in> caller_holds (caller_at s j). heap t b = heap s b"
      and l: "\<And>b. b \<in> set as \<Longrightarrow> heap t b = heap s b" using frame(1) by auto
    show ?thesis
    proof (cases "caller_in (caller_at s j)")
      case True
      then have "\<not> writer_in (writer_at s)"
        using inside_owner[OF locks, of "Caller j"] inside_owner[OF locks, of Writer] j by simp
      with True h l frame(2-4) pos[OF j] show ?thesis
        by (auto simp: text_at_def l[OF last_in_set] intro!: caller_ok_inside[of s as _ t])
    next
      case False
      with h frame(2) pos[OF j] show ?thesis by (auto intro: caller_ok_outside)
    qed
  qed
  with writer_ok_self[OF assms] show ?thesis by (simp add: positions_ok_def)
qed

lemma writer_tail:
  assumes "memory_ok n s as" and "writer_step s = Ret () t"
  shows "tail_ok t (writer_list (writer_at s) as)"
proof -
  have locks: "locks_ok n s" and tail: "tail_ok s as" and path: "path (heap s) (stqh_first s) as None"
    and pos: "writer_ok s as (writer_at s)"
    using assms(1) by (auto simp: memory_ok_def positions_ok_def heap_ok_def heap_fits_def)
  have own: "pLogMutex s = Some Writer \<longleftrightarrow> writer_in (writer_at s)" using inside_owner[OF locks, of Writer] by simp
  note simps = writer_step_def statement_defs tail_ok_def
  have still: "linking t = linking s" if "\<not> writer_in (writer_at s)" "\<not> writer_in (writer_at t)"
    using that assms(2) own
    by (cases "writer_at s") (auto simp: writer_step_def statement_defs linking_def split: option.splits owner.splits if_splits)
  have no: "\<not> linking s" if "writer_in (writer_at s) \<or> pLogMutex s = None"
    using that own by (auto simp: linking_def)
  have no': "\<not> linking t" if "writer_in (writer_at t)"
    using that own assms(2) inside_owner[OF writer_locks[OF locks assms(2)], of Writer] by (simp add: linking_def)
  show ?thesis
  proof (cases "writer_at s")
    case (WNext x m)
    with pos obtain bs where as: "as = x # bs" by (cases as) auto
    with WNext assms(2) tail no no' show ?thesis by (auto simp: simps end_slot_def split: option.splits)
  next
    case (WLast x m)
    with assms(2) tail no no' path_first[OF path] show ?thesis by (auto simp: simps split: if_splits)
  qed (use assms(2) tail still no no' own in \<open>auto simp: simps linking_def split: option.splits if_splits\<close>)
qed

lemma writer_memory:
  assumes "memory_ok n s as" and "writer_step s = Ret () t" and "writer_at s = WFirst \<Longrightarrow> as \<noteq> []"
  shows "memory_ok n t (writer_list (writer_at s) as)"
  using writer_locks[OF _ assms(2)] writer_heap[OF assms(1,2)] writer_positions[OF assms] writer_tail[OF assms(1,2)]
    assms(1)
  by (simp add: memory_ok_def)

section \<open>Nothing goes wrong in memory\<close>

lemma caller_no_fault:
  assumes "memory_ok n s as" and "i < n"
  shows "caller_step i a junk s \<noteq> Fault e t"
proof -
  have last: "\<exists>d. heap s (last as) = Some d" if "as \<noteq> []"
    using assms(1) that path_in_heap[of "heap s" "stqh_first s" as None "last as"]
    by (auto simp: memory_ok_def heap_ok_def heap_fits_def)
  have pos: "caller_ok s as (caller_at s i)" using assms by (simp add: memory_ok_def positions_ok_def)
  show ?thesis
  proof (cases "caller_at s i")
    case (CLink x m)
    from tail_at_link(1)[OF assms CLink] CLink last show ?thesis
      by (cases "as = []") (auto simp: caller_step_def statement_defs end_slot_def)
  qed (use pos in \<open>auto simp: caller_step_def statement_defs split: option.splits\<close>)
qed

lemma writer_no_fault:
  assumes "memory_ok n s as"
  shows "writer_step s \<noteq> Fault e t"
proof -
  have pos: "writer_ok s as (writer_at s)" and path: "path (heap s) (stqh_first s) as None"
    and dom: "writer_holds (writer_at s) \<subseteq> dom (heap s)"
    using assms owners_simps(1)[of n]
    by (auto simp: memory_ok_def positions_ok_def heap_ok_def heap_fits_def dest!: bspec[of _ _ Writer])
  have first: "\<exists>d. heap s (hd as) = Some d" if "as \<noteq> []" using path_in_heap[OF path, of "hd as"] that by simp
  show ?thesis
    using pos dom first path_first[OF path]
    by (cases "writer_at s") (auto simp: writer_step_def statement_defs split: option.splits if_splits)
qed

section \<open>Releasing the queue\<close>

text \<open>
  The last loop of \<^verbatim>\<open>logger_destroy\<close>: \<^verbatim>\<open>n2 = STAILQ_NEXT(n1); free(n1); n1 = n2\<close>. The first
  argument is the number of rounds granted, for a list that does not end.
\<close>

fun delete_loop :: "nat \<Rightarrow> nat option \<Rightarrow> (fine, unit) prog" where
  "delete_loop 0 n1 = stuckP"
| "delete_loop (Suc k) n1 = (case n1 of
      None \<Rightarrow> retP ()
    | Some x \<Rightarrow> bindP (entry_at x) (\<lambda>e. seqP (free_entry x) (delete_loop k (stqe_next e))))"

definition tailq_delete :: "nat \<Rightarrow> (fine, unit) prog" where
  "tailq_delete k = bindP (getP stqh_first) (delete_loop k)"

lemma delete_loop_run:
  assumes "path (heap s) p as None" and "length as < k"
  shows "\<exists>h. delete_loop k p s = Ret () (s\<lparr>heap := h\<rparr>) \<and> dom h = dom (heap s) - set as"
  using assms
proof (induction as arbitrary: s p k)
  case Nil
  then obtain k' where "k = Suc k'" by (cases k) auto
  moreover have "s\<lparr>heap := heap s\<rparr> = s" by simp
  ultimately show ?case using Nil.prems(1) by (intro exI[of _ "heap s"]) simp
next
  case (Cons a as)
  then obtain e k' where e: "p = Some a" "heap s a = Some e" "path (heap s) (stqe_next e) as None" "k = Suc k'"
    by (cases k) auto
  have "a \<notin> set as" using path_distinct[OF Cons.prems(1)] by simp
  then have "path (heap (s\<lparr>heap := (heap s)(a := None)\<rparr>)) (stqe_next e) as None" using e(3) by simp
  moreover have "length as < k'" using Cons.prems(2) e(4) by simp
  ultimately obtain h where
    "delete_loop k' (stqe_next e) (s\<lparr>heap := (heap s)(a := None)\<rparr>) = Ret () (s\<lparr>heap := (heap s)(a := None)\<rparr>\<lparr>heap := h\<rparr>)"
    "dom h = dom (heap (s\<lparr>heap := (heap s)(a := None)\<rparr>)) - set as" using Cons.IH by blast
  moreover have "dom (heap (s\<lparr>heap := (heap s)(a := None)\<rparr>)) = dom (heap s) - {a}" by (auto split: if_splits)
  ultimately show ?case using e by (intro exI[of _ h]) (auto simp: entry_at_def free_entry_def)
qed

end
