(* ===== verification/Logger_Refinement.thy ===== *)
theory Logger_Refinement
  imports Logger_Threads
begin

text \<open>
  The statements of the logger (\<^verbatim>\<open>Logger_Threads\<close>) refine its block model
  (\<^verbatim>\<open>Logger_Concurrency\<close>): a simulation relation, one lemma per kind of statement, and what
  follows for every reachable state. The theory also shows what a fork does to a mutex that is
  held.
\<close>

section \<open>Refinement of the block model\<close>

text \<open>
  Where the thread of the block model is. A block of statements takes effect at one of them: the
  test of the counter, the moment the head moves on, the store of the counter by a caller, the
  reset of the flush request by the thread.
\<close>

fun block_pc :: "wpc \<Rightarrow> tpc" where
  "block_pc (WTestUnlock iGo) = (if iGo then TOpen else TPoll)"
| "block_pc WOpen = TOpen"
| "block_pc WFirst = TPop"
| "block_pc (WMsg p) = TPop"
| "block_pc (WLock a m) = TPop"
| "block_pc (WNext a m) = TPop"
| "block_pc (WLast a m) = TWrite m"
| "block_pc (WFree a m) = TWrite m"
| "block_pc (WUnlock m) = TWrite m"
| "block_pc (WWrite m) = TWrite m"
| "block_pc WClose = TClose"
| "block_pc WLockUpd = TUpdate"
| "block_pc WForce = TUpdate"
| "block_pc _ = TPoll"

text \<open>The line a caller has still to insert, and the part of the counter the thread has still to subtract.\<close>

fun line_of :: "cpc \<Rightarrow> string multiset" where
  "line_of CIdle = {#}"
| "line_of CUnlock = {#}"
| "line_of (CMalloc m) = {#m#}"
| "line_of (CLock a m) = {#m#}"
| "line_of (CNext a m) = {#m#}"
| "line_of (CLink a m) = {#m#}"
| "line_of (CTail a m) = {#m#}"
| "line_of (CLoad a m) = {#m#}"
| "line_of (CStore a m v) = {#m#}"

fun owed :: "wpc \<Rightarrow> int \<Rightarrow> int" where
  "owed WLoad w = w"
| "owed (WStore v) w = w"
| "owed _ w = 0"

fun linked :: "cpc \<Rightarrow> string list" where
  "linked (CTail a m) = [m]"
| "linked (CLoad a m) = [m]"
| "linked (CStore a m v) = [m]"
| "linked _ = []"

definition uncounted :: "fine \<Rightarrow> string list" where
  "uncounted s = (case pLogMutex s of Some (Caller i) \<Rightarrow> linked (caller_at s i) | _ \<Rightarrow> [])"

definition same_vars :: "fine \<Rightarrow> conc \<Rightarrow> bool" where
  "same_vars s c \<longleftrightarrow> sCurrLogSettings c = sCurrLogSettings s \<and> iIsInitDone c = iIsInitDone s \<and>
     bTerminateProg c = bTerminateProg s \<and> iShuttingDown c = iShuttingDown s \<and> stamps c = stamps s \<and>
     logfile c = logfile s \<and> terminal c = terminal s \<and> iDoForceFlush c = iDoForceFlush s \<and>
     iDataInQueueCount s = iDataInQueueCount c + owed (writer_at s) (wWritten s)"

definition same_thread :: "fine \<Rightarrow> conc \<Rightarrow> bool" where
  "same_thread s c \<longleftrightarrow> LoggerThread c =
     Some \<lparr>pc = block_pc (writer_at s), iDataToWrite = wToWrite s, iDataWritten = wWritten s\<rparr>"

definition same_lines :: "nat \<Rightarrow> fine \<Rightarrow> conc \<Rightarrow> nat list \<Rightarrow> bool" where
  "same_lines n s c as \<longleftrightarrow> mset (pending c) = (\<Sum>i<n. line_of (caller_at s i)) \<and>
     map (text_at (heap s)) as = Head c @ uncounted s"

definition simulates :: "nat \<Rightarrow> fine \<Rightarrow> conc \<Rightarrow> nat list \<Rightarrow> bool" where
  "simulates n s c as \<longleftrightarrow> memory_ok n s as \<and> same_vars s c \<and> same_thread s c \<and> same_lines n s c as"

lemma lines_upd:
  assumes "i < (n :: nat)"
  shows "(\<Sum>k<n. line_of ((f(i := p)) k)) + line_of (f i) = (\<Sum>k<n. line_of (f k)) + line_of p"
proof -
  have "(\<Sum>k \<in> {..<n} - {i}. line_of ((f(i := p)) k)) = (\<Sum>k \<in> {..<n} - {i}. line_of (f k))"
    by (intro sum.cong) auto
  moreover have "i \<in> {..<n}" using assms by simp
  note sum.remove[OF finite_lessThan this, of "\<lambda>k. line_of ((f(i := p)) k)"]
    sum.remove[OF finite_lessThan this, of "\<lambda>k. line_of (f k)"]
  ultimately show ?thesis by (simp add: ac_simps)
qed

lemma lines_same: "i < (n :: nat) \<Longrightarrow> line_of p = line_of (f i) \<Longrightarrow> (\<Sum>k<n. line_of ((f(i := p)) k)) = (\<Sum>k<n. line_of (f k))"
  using lines_upd[of i n f p] by simp

lemma line_size: "size (line_of p) \<le> 1"
  by (cases p) simp_all

lemma lines_size: "size (\<Sum>k<n. line_of (f k)) \<le> n"
proof (induction n)
  case (Suc n)
  then show ?case using line_size[of "f n"] by simp
qed simp

lemma lines_fewer: "i < n \<Longrightarrow> line_of (f i) = {#} \<Longrightarrow> size (\<Sum>k<n. line_of (f k)) < n"
proof (induction n)
  case (Suc n)
  show ?case
  proof (cases "i = n")
    case True
    with Suc.prems lines_size[of f n] show ?thesis by simp
  next
    case False
    with Suc line_size[of "f n"] show ?thesis by simp
  qed
qed simp

text \<open>A caller's statement is a step of the block model when it stores the counter, and none otherwise.\<close>

fun at_store :: "cpc \<Rightarrow> bool" where
  "at_store (CStore a m v) = True"
| "at_store _ = False"

lemma caller_moves:
  assumes "caller_step i a junk s = Ret () t" and "\<not> at_store (caller_at s i)"
  obtains h f l k p where "t = s\<lparr>heap := h, stqh_first := f, stqh_last := l, pLogMutex := k, caller_at := (caller_at s)(i := p)\<rparr>"
    and "line_of p = line_of (caller_at s i)"
proof
  show "t = s\<lparr>heap := heap t, stqh_first := stqh_first t, stqh_last := stqh_last t, pLogMutex := pLogMutex t,
      caller_at := (caller_at s)(i := caller_at t i)\<rparr>"
    using assms
    by (cases "caller_at s i"; cases "stqh_last s") (auto simp: caller_step_def statement_defs split: option.splits)
  show "line_of (caller_at t i) = line_of (caller_at s i)"
    using assms
    by (cases "caller_at s i"; cases "stqh_last s") (auto simp: caller_step_def statement_defs split: option.splits)
qed

lemma uncounted_caller:
  assumes "locks_ok n s" and "i < n" and "caller_step i a junk s = Ret () t" and "\<not> at_store (caller_at s i)"
  shows "uncounted t = uncounted s @ (case caller_at s i of CLink x m \<Rightarrow> [m] | _ \<Rightarrow> [])"
proof -
  have own: "pLogMutex s = Some (Caller i) \<longleftrightarrow> caller_in (caller_at s i)"
    using inside_owner[OF assms(1), of "Caller i"] assms(2) by simp
  show ?thesis
    using assms(3,4) own
    by (cases "caller_at s i"; cases "stqh_last s")
      (auto simp: caller_step_def statement_defs uncounted_def split: option.splits owner.splits)
qed


lemma caller_texts:
  assumes "memory_ok n s as" and "i < n" and "heap s a = None" and "caller_step i a junk s = Ret () t"
  shows "map (text_at (heap t)) (caller_list (caller_at s i) as) =
    map (text_at (heap s)) as @ (case caller_at s i of CLink x m \<Rightarrow> [m] | _ \<Rightarrow> [])"
proof -
  have known: "text_at (heap t) b = text_at (heap s) b" if "b \<in> set as" for b
    using caller_frame(2)[OF assms, of b] assms(1) that path_in_heap[of "heap s" "stqh_first s" as None b]
    by (auto simp: memory_ok_def heap_ok_def heap_fits_def)
  show ?thesis
  proof (cases "caller_at s i")
    case (CLink x m)
    note at = tail_at_link(2)[OF assms(1,2) CLink]
    have "text_at (heap t) x = text_at (heap s) x" using caller_frame(2)[OF assms, of x] at by simp
    with at have "text_at (heap t) x = m" by (simp add: text_at_def)
    with CLink known show ?thesis by simp
  qed (use known in simp_all)
qed

lemma caller_simulated:
  assumes "simulates n s c as" and "log_io_ok E" and "i < n" and "heap s a = None"
    and "caller_step i a junk s = Ret () t"
  shows "\<exists>c'. (lstep E n)\<^sup>=\<^sup>= c c' \<and> simulates n t c' (caller_list (caller_at s i) as)"
proof -
  have mem: "memory_ok n s as" and vars: "same_vars s c" and thr: "same_thread s c" and lines: "same_lines n s c as"
    using assms(1) by (simp_all add: simulates_def)
  note mem' = caller_memory[OF mem assms(3-5)] and texts = caller_texts[OF mem assms(3-5)]
  have locks: "locks_ok n s" using mem by (simp add: memory_ok_def)
  show ?thesis
  proof (cases "at_store (caller_at s i)")
    case False
    obtain h f l k p where t: "t = s\<lparr>heap := h, stqh_first := f, stqh_last := l, pLogMutex := k, caller_at := (caller_at s)(i := p)\<rparr>"
      and p: "line_of p = line_of (caller_at s i)" by (rule caller_moves[OF assms(5) False])
    have "same_vars t c" "same_thread t c" using vars thr t by (simp_all add: same_vars_def same_thread_def)
    moreover have "same_lines n t c (caller_list (caller_at s i) as)"
      using lines texts uncounted_caller[OF locks assms(3,5) False] lines_same[OF assms(3), of p "caller_at s"] p t
      by (simp add: same_lines_def)
    ultimately show ?thesis using mem' by (auto simp: simulates_def)
  next
    case True
    then obtain x m v where at: "caller_at s i = CStore x m v" by (cases "caller_at s i") auto
    have v: "v = iDataInQueueCount s" using mem at assms(3) by (auto simp: memory_ok_def positions_ok_def)
    have own: "pLogMutex s = Some (Caller i)" using inside_owner[OF locks, of "Caller i"] assms(3) at by simp
    then have out: "\<not> writer_in (writer_at s)" using inside_owner[OF locks, of Writer] by simp
    have t: "t = s\<lparr>iDataInQueueCount := iDataInQueueCount s + 1, caller_at := (caller_at s)(i := CUnlock)\<rparr>"
      using assms(5) at v by (simp add: caller_step_def statement_defs)
    have upd: "add_mset m (\<Sum>k<n. line_of (caller_at t k)) = mset (pending c)"
      using lines_upd[OF assms(3), of "caller_at s" CUnlock] at t lines by (simp add: same_lines_def)
    then obtain xs ys where pend: "pending c = xs @ m # ys" by (metis in_set_conv_decomp set_mset_mset union_single_eq_member)
    with upd have rest: "mset xs + mset ys = (\<Sum>k<n. line_of (caller_at t k))" by simp
    let ?c = "caller_insert E xs m ys c"
    have "lstep E n c ?c" using pend by (rule lstep.insert)
    moreover have "same_vars t ?c" "same_thread t ?c"
      using vars thr t assms(2) out
      by (cases "writer_at s"; simp add: same_vars_def same_thread_def caller_insert_def log_enqueue_def log_io_ok_def)+
    moreover have "same_lines n t ?c as"
      using lines rest t own at assms(2)
      by (simp add: same_lines_def caller_insert_def log_enqueue_def log_io_ok_def uncounted_def stailq.lst_ins)
    ultimately show ?thesis using mem' at by (auto simp: simulates_def)
  qed
qed


lemma call_simulated:
  assumes "simulates n s c as" and "conc_inv n c" and "i < n" and "caller_at s i = CIdle"
    and "is_msg_allowed ty s = LOG_EXIT_SUCCESS" and "\<not> log_full s" and "log_line E (clock E (stamps s)) ty txt = Some m"
  shows "\<exists>c'. (lstep E n)\<^sup>=\<^sup>= c c' \<and>
    simulates n (s\<lparr>stamps := Suc (stamps s), caller_at := (caller_at s)(i := CMalloc m)\<rparr>) c' as"
proof -
  let ?t = "s\<lparr>stamps := Suc (stamps s), caller_at := (caller_at s)(i := CMalloc m)\<rparr>"
  let ?c = "c\<lparr>stamps := Suc (stamps c), pending := pending c @ [m]\<rparr>"
  have mem: "memory_ok n s as" and vars: "same_vars s c" and thr: "same_thread s c" and lines: "same_lines n s c as"
    using assms(1) by (simp_all add: simulates_def)
  have "0 \<le> wWritten s" using assms(2) thr by (auto simp: conc_inv_def same_thread_def)
  then have "0 \<le> owed (writer_at s) (wWritten s)" by (cases "writer_at s") simp_all
  with vars assms(6) have "\<not> log_full c" by (simp add: same_vars_def log_full_def)
  moreover have "is_msg_allowed ty c = LOG_EXIT_SUCCESS" "log_line E (clock E (stamps c)) ty txt = Some m"
    using vars assms(5,7) by (simp_all add: same_vars_def is_msg_allowed_iff)
  moreover have "length (pending c) < n"
    using lines_fewer[OF assms(3), of "caller_at s"] assms(4) lines by (simp add: same_lines_def flip: size_mset)
  ultimately have "lstep E n c ?c" by (intro lstep.check)
  moreover have "memory_ok n ?t as"
  proof -
    have "locks_ok n ?t"
    proof (rule locks_move[of n s "Caller i" False])
      show "moved (Caller i) False s ?t" by (rule movedI) auto
    qed (use mem assms(3,4) in \<open>auto simp: memory_ok_def\<close>)
    moreover have "in_hands ?t = in_hands s" using assms(4) by (intro in_hands_same) auto
    moreover have "linking ?t = linking s" using assms(3,4) mem inside_owner[of n s "Caller i"]
      by (auto simp: linking_def memory_ok_def split: option.splits owner.splits)
    moreover have "caller_ok ?t as p = caller_ok s as p" "writer_ok ?t as q = writer_ok s as q" for p q
      by (cases p; simp) (cases q; simp)
    ultimately show ?thesis using mem by (auto simp: memory_ok_def heap_ok_def positions_ok_def tail_ok_def)
  qed
  moreover have "same_vars ?t ?c" "same_thread ?t ?c" using vars thr by (simp_all add: same_vars_def same_thread_def)
  moreover have "same_lines n ?t ?c as"
  proof -
    have "uncounted ?t = uncounted s" using assms(3,4) mem inside_owner[of n s "Caller i"]
      by (auto simp: uncounted_def memory_ok_def split: option.splits owner.splits)
    with lines lines_upd[OF assms(3), of "caller_at s" "CMalloc m"] assms(4) show ?thesis
      by (simp add: same_lines_def)
  qed
  ultimately show ?thesis by (auto simp: simulates_def)
qed

lemma flush_simulated:
  assumes "simulates n s c as"
  shows "\<exists>c'. (lstep E n)\<^sup>=\<^sup>= c c' \<and> simulates n (s\<lparr>iDoForceFlush := True\<rparr>) c' as"
proof (intro exI conjI)
  let ?t = "s\<lparr>iDoForceFlush := True\<rparr>"
  show "(lstep E n)\<^sup>=\<^sup>= c (c\<lparr>iDoForceFlush := True\<rparr>)" using lstep.request_flush by simp
  have "inside ?t = inside s" "in_hands ?t = in_hands s"
    using movedI[of ?t Writer "writer_in (writer_at s)" s] in_hands_same[of ?t s] by (auto simp: moved_def fun_eq_iff)
  moreover have "caller_ok ?t as p = caller_ok s as p" "writer_ok ?t as q = writer_ok s as q" for p q
    by (cases p; simp) (cases q; simp)
  moreover have "linking ?t = linking s" "uncounted ?t = uncounted s" by (auto simp: linking_def uncounted_def split: option.splits owner.splits)
  ultimately show "simulates n ?t (c\<lparr>iDoForceFlush := True\<rparr>) as"
    using assms
    by (simp add: simulates_def memory_ok_def locks_ok_def heap_ok_def positions_ok_def tail_ok_def same_vars_def
        same_thread_def same_lines_def)
qed


text \<open>The thread's statements.\<close>

lemma uncounted_writer:
  assumes "locks_ok n s" and "writer_step s = Ret () t"
  shows "uncounted t = uncounted s"
proof -
  have "pLogMutex s = Some Writer \<longleftrightarrow> writer_in (writer_at s)" using inside_owner[OF assms(1), of Writer] by simp
  with assms(2) show ?thesis
    by (cases "writer_at s") (auto simp: writer_step_def statement_defs uncounted_def split: option.splits owner.splits if_splits)
qed

lemma writer_texts:
  assumes "memory_ok n s as" and "writer_step s = Ret () t"
  shows "map (text_at (heap t)) (writer_list (writer_at s) as) = map (text_at (heap s)) (writer_list (writer_at s) as)"
proof -
  have "in_hands s Writer \<inter> set as = {}"
    using assms(1) owners_simps(1)[of n] by (auto simp: memory_ok_def heap_ok_def heap_fits_def simp del: in_hands.simps)
  moreover have "set (writer_list (writer_at s) as) \<subseteq> set as"
    by (cases "writer_at s"; cases as) auto
  ultimately have "heap t b = heap s b" if "b \<in> set (writer_list (writer_at s) as)" for b
    using writer_frame(1)[OF assms(2), of b] that by auto
  then show ?thesis by (simp add: text_at_def)
qed

text \<open>The statements of the thread at which a block of the other model takes effect.\<close>

fun takes_effect :: "wpc \<Rightarrow> bool" where
  "takes_effect WTest = True"
| "takes_effect WOpen = True"
| "takes_effect (WNext a m) = True"
| "takes_effect (WWrite m) = True"
| "takes_effect WClose = True"
| "takes_effect WForce = True"
| "takes_effect _ = False"

lemma writer_moves:
  assumes "writer_step s = Ret () t" and "\<not> takes_effect (writer_at s)" and "writer_ok s as (writer_at s)"
  obtains h f l k p v where "t = s\<lparr>heap := h, stqh_first := f, stqh_last := l, pLogMutex := k, writer_at := p, iDataInQueueCount := v\<rparr>"
    and "block_pc p = block_pc (writer_at s)"
    and "v - owed p (wWritten s) = iDataInQueueCount s - owed (writer_at s) (wWritten s)"
proof
  show "t = s\<lparr>heap := heap t, stqh_first := stqh_first t, stqh_last := stqh_last t, pLogMutex := pLogMutex t,
      writer_at := writer_at t, iDataInQueueCount := iDataInQueueCount t\<rparr>"
    using assms by (cases "writer_at s") (auto simp: writer_step_def statement_defs split: option.splits if_splits)
  show "block_pc (writer_at t) = block_pc (writer_at s)"
    using assms by (cases "writer_at s") (auto simp: writer_step_def statement_defs split: option.splits if_splits)
  show "iDataInQueueCount t - owed (writer_at t) (wWritten s) = iDataInQueueCount s - owed (writer_at s) (wWritten s)"
    using assms by (cases "writer_at s") (auto simp: writer_step_def statement_defs split: option.splits if_splits)
qed

lemma writer_stutters:
  assumes "simulates n s c as" and "writer_step s = Ret () t" and "\<not> takes_effect (writer_at s)"
    and "writer_at s = WFirst \<Longrightarrow> as \<noteq> []"
  shows "simulates n t c (writer_list (writer_at s) as)"
proof -
  have mem: "memory_ok n s as" and vars: "same_vars s c" and thr: "same_thread s c" and lines: "same_lines n s c as"
    using assms(1) by (simp_all add: simulates_def)
  have "locks_ok n s" using mem by (simp add: memory_ok_def)
  note un = uncounted_writer[OF this assms(2)] and tx = writer_texts[OF mem assms(2)]
  have pos: "writer_ok s as (writer_at s)" using mem by (simp add: memory_ok_def positions_ok_def)
  obtain h f l k p v where t: "t = s\<lparr>heap := h, stqh_first := f, stqh_last := l, pLogMutex := k, writer_at := p, iDataInQueueCount := v\<rparr>"
    and p: "block_pc p = block_pc (writer_at s)"
    and v: "v - owed p (wWritten s) = iDataInQueueCount s - owed (writer_at s) (wWritten s)"
    by (rule writer_moves[OF assms(2,3) pos])
  have "same_vars t c" "same_thread t c" using t p v vars thr by (simp_all add: same_vars_def same_thread_def)
  moreover have "same_lines n t c (writer_list (writer_at s) as)"
    using lines un tx writer_frame(2)[OF assms(2)] assms(3) by (cases "writer_at s") (simp_all add: same_lines_def)
  ultimately show ?thesis using writer_memory[OF mem assms(2,4)] by (simp add: simulates_def)
qed

definition effect :: "env \<Rightarrow> nat \<Rightarrow> conc \<Rightarrow> fine \<Rightarrow> nat list \<Rightarrow> bool" where
  "effect E n c t bs \<longleftrightarrow> (\<exists>c'. logger_thread_step E c = Ret () c' \<and> simulates n t c' bs)"

lemma simulatesD:
  assumes "simulates n s c as"
  shows "memory_ok n s as" and "same_vars s c" and "same_thread s c" and "same_lines n s c as"
  using assms by (simp_all add: simulates_def)

lemma effectI:
  assumes "simulates n s c as" and "writer_step s = Ret () t" and "takes_effect (writer_at s)"
    and "logger_thread_step E c = Ret () c'" and "same_vars t c'" and "same_thread t c'"
    and "pending c' = pending c" and "Head c' @ uncounted s = map (text_at (heap s)) (writer_list (writer_at s) as)"
  shows "effect E n c t (writer_list (writer_at s) as)"
proof -
  note mem = simulatesD(1)[OF assms(1)] and lines = simulatesD(4)[OF assms(1)]
  have "locks_ok n s" using mem by (simp add: memory_ok_def)
  moreover have "writer_at s = WFirst \<Longrightarrow> as \<noteq> []" using assms(3) by simp
  moreover have "same_lines n t c' (writer_list (writer_at s) as)"
    using lines assms(7,8) writer_frame(2)[OF assms(2)] writer_texts[OF mem assms(2)]
      uncounted_writer[OF \<open>locks_ok n s\<close> assms(2)]
    by (simp add: same_lines_def)
  ultimately show ?thesis
    using assms(4-6) writer_memory[OF mem assms(2)] by (auto simp: effect_def simulates_def)
qed

text \<open>The six blocks.\<close>

lemma effect_test:
  assumes "simulates n s c as" and "log_io_ok E" and "writer_step s = Ret () t" and at: "writer_at s = WTest"
  shows "effect E n c t (writer_list (writer_at s) as)"
proof (rule effectI[OF assms(1,3)])
  let ?go = "iDataInQueueCount s > iBulkWrite (sCurrLogSettings s) \<or> iDoForceFlush s \<and> iDataInQueueCount s \<noteq> 0"
  let ?l = "\<lparr>pc = TPoll, iDataToWrite = wToWrite s, iDataWritten = wWritten s\<rparr>"
  let ?c = "c\<lparr>lops := Suc (Suc (lops c)), LoggerThread := Some
    (if ?go then \<lparr>pc = TOpen, iDataToWrite = iDataInQueueCount s, iDataWritten = 0\<rparr> else ?l)\<rparr>"
  have t: "t = (if ?go then s\<lparr>wToWrite := iDataInQueueCount s, wWritten := 0, writer_at := WTestUnlock True\<rparr>
      else s\<lparr>writer_at := WTestUnlock False\<rparr>)"
    using at assms(3) by (auto simp: writer_step_def statement_defs split: if_splits)
  have c: "iDataInQueueCount c = iDataInQueueCount s" "sCurrLogSettings c = sCurrLogSettings s"
    "iDoForceFlush c = iDoForceFlush s" "LoggerThread c = Some ?l"
    using simulatesD(2,3)[OF assms(1)] at by (simp_all add: same_vars_def same_thread_def)
  then show "logger_thread_step E c = Ret () ?c"
    using assms(2) by (simp add: logger_thread_step_def thread_poll_def goto_def log_io_ok_def)
  show "same_vars t ?c" "same_thread t ?c"
    using t at simulatesD(2)[OF assms(1)] by (auto simp: same_vars_def same_thread_def)
  show "Head ?c @ uncounted s = map (text_at (heap s)) (writer_list (writer_at s) as)"
    using at simulatesD(4)[OF assms(1)] by (simp add: same_lines_def)
qed (simp_all add: at)

lemma effect_pop:
  assumes "simulates n s c as" and "log_io_ok E" and "writer_step s = Ret () t" and at: "writer_at s = WNext x m"
  shows "effect E n c t (writer_list (writer_at s) as)"
proof (rule effectI[OF assms(1,3)])
  note mem = simulatesD(1)[OF assms(1)]
  have "writer_ok s as (writer_at s)" "locks_ok n s" using mem by (simp_all add: memory_ok_def positions_ok_def)
  with at have as: "as = x # tl as" "text_at (heap s) x = m" by (cases as; simp)+
  have un: "uncounted s = []" using at inside_owner[OF \<open>locks_ok n s\<close>, of Writer] by (simp add: uncounted_def)
  have "map (text_at (heap s)) as = m # map (text_at (heap s)) (tl as)" using as by (metis list.map(2))
  then have H: "Head c = m # map (text_at (heap s)) (tl as)"
    using simulatesD(4)[OF assms(1)] un by (simp add: same_lines_def)
  have t: "t = s\<lparr>stqh_first := stqh_first t, writer_at := WLast x m\<rparr>"
    using at assms(3) by (auto simp: writer_step_def statement_defs split: option.splits)
  let ?c = "c\<lparr>lops := Suc (Suc (lops c)), Head := map (text_at (heap s)) (tl as),
    LoggerThread := Some \<lparr>pc = TWrite m, iDataToWrite = wToWrite s, iDataWritten = wWritten s\<rparr>\<rparr>"
  show "logger_thread_step E c = Ret () ?c"
    using simulatesD(3)[OF assms(1)] at H assms(2)
    by (simp add: logger_thread_step_def same_thread_def thread_pop_def goto_def log_io_ok_def
        STAILQ_FIRST_def STAILQ_REMOVE_HEAD_def)
  show "same_vars t ?c" "same_thread t ?c"
    using at simulatesD(2)[OF assms(1)] by (subst t, simp add: same_vars_def same_thread_def)+
  show "Head ?c @ uncounted s = map (text_at (heap s)) (writer_list (writer_at s) as)" using at un by simp
qed (simp_all add: at)

lemma effect_open:
  assumes "simulates n s c as" and "log_io_ok E" and "writer_step s = Ret () t" and at: "writer_at s = WOpen"
  shows "effect E n c t (writer_list (writer_at s) as)"
proof (rule effectI[OF assms(1,3)])
  have t: "t = s\<lparr>LogfileFd := True, writer_at := WFirst\<rparr>"
    using at assms(3) by (simp add: writer_step_def statement_defs)
  let ?c = "c\<lparr>lops := Suc (lops c), errno := errno c, LogfileFd := True,
    LoggerThread := Some \<lparr>pc = TPop, iDataToWrite = wToWrite s, iDataWritten = wWritten s\<rparr>\<rparr>"
  show "logger_thread_step E c = Ret () ?c"
    using simulatesD(3)[OF assms(1)] at assms(2)
    by (simp add: logger_thread_step_def same_thread_def thread_open_def goto_def log_io_ok_def)
  show "same_vars t ?c" "same_thread t ?c"
    using t at simulatesD(2)[OF assms(1)] by (simp_all add: same_vars_def same_thread_def)
  show "Head ?c @ uncounted s = map (text_at (heap s)) (writer_list (writer_at s) as)"
    using at simulatesD(4)[OF assms(1)] by (simp add: same_lines_def)
qed (simp_all add: at)

lemma effect_write:
  assumes "simulates n s c as" and "log_io_ok E" and "writer_step s = Ret () t" and at: "writer_at s = WWrite m"
  shows "effect E n c t (writer_list (writer_at s) as)"
proof (rule effectI[OF assms(1,3)])
  have t: "t = s\<lparr>terminal := terminal s @ [cstr m], logfile := logfile s @ [m], wWritten := wWritten s + 1,
      wToWrite := wToWrite s - 1, writer_at := (if wToWrite s - 1 \<noteq> 0 then WFirst else WClose)\<rparr>"
    using at assms(3) by (simp add: writer_step_def statement_defs)
  let ?c = "c\<lparr>terminal := terminal c @ [cstr m], lops := Suc (lops c), errno := errno c, logfile := logfile c @ [m],
    LoggerThread := Some \<lparr>pc = (if wToWrite s - 1 \<noteq> 0 then TPop else TClose), iDataToWrite = wToWrite s - 1, iDataWritten = wWritten s + 1\<rparr>\<rparr>"
  show "logger_thread_step E c = Ret () ?c"
    using simulatesD(3)[OF assms(1)] at assms(2)
    by (simp add: logger_thread_step_def same_thread_def thread_write_def goto_def log_io_ok_def)
  show "same_vars t ?c" "same_thread t ?c"
    using t at simulatesD(2)[OF assms(1)] by (simp_all add: same_vars_def same_thread_def)
  show "Head ?c @ uncounted s = map (text_at (heap s)) (writer_list (writer_at s) as)"
    using at simulatesD(4)[OF assms(1)] by (simp add: same_lines_def)
qed (simp_all add: at)

lemma effect_close:
  assumes "simulates n s c as" and "log_io_ok E" and "writer_step s = Ret () t" and at: "writer_at s = WClose"
  shows "effect E n c t (writer_list (writer_at s) as)"
proof (rule effectI[OF assms(1,3)])
  have t: "t = s\<lparr>LogfileFd := False, writer_at := WLockUpd\<rparr>"
    using at assms(3) by (simp add: writer_step_def statement_defs)
  let ?c = "c\<lparr>lops := Suc (Suc (lops c)), errno := errno c, LogfileFd := False,
    LoggerThread := Some \<lparr>pc = TUpdate, iDataToWrite = wToWrite s, iDataWritten = wWritten s\<rparr>\<rparr>"
  show "logger_thread_step E c = Ret () ?c"
    using simulatesD(3)[OF assms(1)] at assms(2)
    by (simp add: logger_thread_step_def same_thread_def thread_close_def goto_def log_io_ok_def)
  show "same_vars t ?c" "same_thread t ?c"
    using t at simulatesD(2)[OF assms(1)] by (simp_all add: same_vars_def same_thread_def)
  show "Head ?c @ uncounted s = map (text_at (heap s)) (writer_list (writer_at s) as)"
    using at simulatesD(4)[OF assms(1)] by (simp add: same_lines_def)
qed (simp_all add: at)

lemma effect_update:
  assumes "simulates n s c as" and "log_io_ok E" and "writer_step s = Ret () t" and at: "writer_at s = WForce"
  shows "effect E n c t (writer_list (writer_at s) as)"
proof (rule effectI[OF assms(1,3)])
  have t: "t = s\<lparr>iDoForceFlush := False, writer_at := WLoad\<rparr>"
    using at assms(3) by (simp add: writer_step_def statement_defs)
  let ?c = "c\<lparr>lops := Suc (Suc (lops c)), iDoForceFlush := False,
    iDataInQueueCount := iDataInQueueCount c - wWritten s,
    LoggerThread := Some \<lparr>pc = TPoll, iDataToWrite = wToWrite s, iDataWritten = wWritten s\<rparr>\<rparr>"
  show "logger_thread_step E c = Ret () ?c"
    using simulatesD(3)[OF assms(1)] at assms(2)
    by (simp add: logger_thread_step_def same_thread_def thread_update_def goto_def log_io_ok_def)
  show "same_vars t ?c" "same_thread t ?c"
    using t at simulatesD(2)[OF assms(1)] by (simp_all add: same_vars_def same_thread_def)
  show "Head ?c @ uncounted s = map (text_at (heap s)) (writer_list (writer_at s) as)"
    using at simulatesD(4)[OF assms(1)] by (simp add: same_lines_def)
qed (simp_all add: at)

lemma writer_effect:
  assumes "simulates n s c as" and "log_io_ok E" and "writer_step s = Ret () t" and "takes_effect (writer_at s)"
  shows "effect E n c t (writer_list (writer_at s) as)"
  using assms(4) effect_test[OF assms(1-3)] effect_open[OF assms(1-3)] effect_pop[OF assms(1-3)]
    effect_write[OF assms(1-3)] effect_close[OF assms(1-3)] effect_update[OF assms(1-3)]
  by (cases "writer_at s") auto

lemma writer_simulated:
  assumes "simulates n s c as" and "conc_inv n c" and "log_io_ok E" and "writer_step s = Ret () t"
  shows "\<exists>c'. (lstep E n)\<^sup>=\<^sup>= c c' \<and> simulates n t c' (writer_list (writer_at s) as)"
proof (cases "takes_effect (writer_at s)")
  case True
  with writer_effect[OF assms(1,3,4)] show ?thesis by (auto simp: effect_def intro: lstep.thread)
next
  case False
  have "as \<noteq> []" if "writer_at s = WFirst"
  proof -
    have "Head c \<noteq> []" using assms(1,2) that
      by (auto simp: simulates_def same_thread_def conc_inv_def thread_ok_def)
    moreover have "map (text_at (heap s)) as = Head c @ uncounted s"
      using assms(1) by (simp add: simulates_def same_lines_def)
    ultimately show ?thesis by auto
  qed
  from writer_stutters[OF assms(1,4) False this] show ?thesis by blast
qed

inductive_cases fstepE: "fstep E n s t"

lemma fstep_simulated:
  assumes "simulates n s c as" and "conc_inv n c" and "log_io_ok E" and "fstep E n s t"
  shows "\<exists>c' bs. (lstep E n)\<^sup>=\<^sup>= c c' \<and> simulates n t c' bs"
  using assms(4)
proof (cases rule: fstep.cases)
  case (call i ty u m)
  with call_simulated[OF assms(1,2), of i ty E u m] show ?thesis by blast
next
  case (caller i a junk)
  with caller_simulated[OF assms(1,3)] show ?thesis by blast
next
  case flush
  with flush_simulated[OF assms(1)] show ?thesis by blast
next
  case writer
  with writer_simulated[OF assms(1-3)] show ?thesis by blast
qed

definition block_init :: "fine \<Rightarrow> conc" where
  "block_init s = \<lparr>hist = hist s, errno = errno s, pid = pid s, sds_live = sds_live s, gpcLogfile = gpcLogfile s,
     sCurrLogSettings = sCurrLogSettings s, Head = [], LogfileFd = LogfileFd s,
     iDataInQueueCount = 0, iIsInitDone = iIsInitDone s, iDoForceFlush = iDoForceFlush s,
     iShuttingDown = iShuttingDown s, bTerminateProg = bTerminateProg s,
     LoggerThread = Some \<lparr>pc = TPoll, iDataToWrite = 0, iDataWritten = 0\<rparr>,
     logfile = logfile s, terminal = terminal s, lops = 0, stamps = stamps s, naps = 0,
     pending = [], accepted = logfile s\<rparr>"

lemma init_simulated:
  assumes "fine_init s"
  shows "conc_init (block_init s)" and "simulates n s (block_init s) []"
proof -
  show "conc_init (block_init s)" using assms by (simp add: fine_init_def conc_init_def block_init_def)
  have "\<not> inside s x \<and> in_hands s x = {}" for x using assms by (cases x) (simp_all add: fine_init_def)
  then show "simulates n s (block_init s) []"
    using assms
    by (auto simp: fine_init_def block_init_def simulates_def memory_ok_def locks_ok_def heap_ok_def heap_fits_def
        positions_ok_def tail_ok_def linking_def same_vars_def same_thread_def same_lines_def uncounted_def)
qed

abbreviation freach :: "env \<Rightarrow> nat \<Rightarrow> fine \<Rightarrow> bool" where
  "freach E n \<equiv> reach fine_init (fstep E n)"

lemma freach_simulated:
  assumes "freach E n s" and "log_io_ok E"
  shows "\<exists>c as. lreach E n c \<and> simulates n s c as"
  using assms(1)
proof (induction rule: reach.induct)
  case (start s)
  have "lreach E n (block_init s)" by (rule reach.start) (rule init_simulated(1)[OF start])
  with init_simulated(2)[OF start] show ?case by blast
next
  case (move s t)
  then obtain c as where c: "lreach E n c" "simulates n s c as" by blast
  from fstep_simulated[OF c(2) log_system.inv_reach[OF c(1)] assms(2) move.hyps(2)] obtain c' bs where
    "(lstep E n)\<^sup>=\<^sup>= c c'" "simulates n t c' bs" by blast
  with c(1) show ?case by (auto intro: reach.move)
qed

section \<open>A fork while the mutex is held\<close>

text \<open>
  A child has a copy of the memory and of the threads only the one that forked, caller \<open>i\<close> here. It
  makes log calls, and between two of them it may run \<open>logger_destroy\<close>, which unlocks the mutex
  ``for safety'' whoever locked it.
\<close>

inductive child_step :: "env \<Rightarrow> nat \<Rightarrow> fine \<Rightarrow> fine \<Rightarrow> bool" for E :: env and i :: nat where
  call: "caller_at s i = CIdle \<Longrightarrow> is_msg_allowed ty s = LOG_EXIT_SUCCESS \<Longrightarrow> \<not> log_full s \<Longrightarrow>
    log_line E (clock E (stamps s)) ty u = Some m \<Longrightarrow>
    child_step E i s (s\<lparr>stamps := Suc (stamps s), caller_at := (caller_at s)(i := CMalloc m)\<rparr>)"
| caller: "heap s a = None \<Longrightarrow> caller_step i a junk s = Ret () t \<Longrightarrow> child_step E i s t"
| unlock: "caller_at s i = CIdle \<Longrightarrow> child_step E i s (s\<lparr>pLogMutex := None\<rparr>)"

inductive_cases child_stepE: "child_step E i s t"

definition waiting :: "nat \<Rightarrow> int \<Rightarrow> fine \<Rightarrow> bool" where
  "waiting i k s \<longleftrightarrow> pLogMutex s = Some Writer \<and> iDataInQueueCount s = k \<and>
     caller_at s i \<noteq> CIdle \<and> \<not> caller_in (caller_at s i)"

lemma waiting_caller:
  assumes "waiting i k s" and "caller_step i a junk s = Ret () t"
  obtains m where "caller_at s i = CMalloc m" and "waiting i k t"
proof -
  obtain m where "caller_at s i = CMalloc m"
    "t = s\<lparr>heap := (heap s)(a \<mapsto> \<lparr>msg = m, stqe_next = junk\<rparr>), caller_at := (caller_at s)(i := CLock a m)\<rparr>"
    using assms by (cases "caller_at s i") (auto simp: waiting_def caller_step_def statement_defs)
  with assms(1) show thesis by (intro that) (auto simp: waiting_def)
qed

lemma waiting_step:
  assumes "waiting i k s" and "child_step E i s t"
  obtains m where "caller_at s i = CMalloc m" and "waiting i k t"
  using assms(2)
proof cases
  case (caller a junk)
  from waiting_caller[OF assms(1) caller(2)] that show thesis by blast
qed (use assms(1) in \<open>simp_all add: waiting_def\<close>)

interpretation child: inductive_invariant "waiting i k" "child_step E i" "waiting i k" for E i k
  by unfold_locales (auto elim: waiting_step)

section \<open>Properties\<close>

definition demo_fine :: fine where
  "demo_fine = \<lparr>hist = [], errno = 0, pid = 1, sds_live = 1, gpcLogfile = SLive ''/log'',
     sCurrLogSettings = default_log_settings, Head = [], LogfileFd = False,
     iDataInQueueCount = 0, iIsInitDone = True, iDoForceFlush = False, iShuttingDown = False,
     bTerminateProg = False, LoggerThread = None, logfile = [], terminal = [], lops = 0, stamps = 0, naps = 0,
     heap = Map.empty, stqh_first = None, stqh_last = AtFirst, pLogMutex = None, caller_at = (\<lambda>_. CIdle),
     writer_at = WPoll, wToWrite = 0, wWritten = 0\<rparr>"

lemma demo_fine_reach: "freach calm_env n demo_fine"
  by (rule reach.start) (simp add: fine_init_def demo_fine_def default_log_settings_def)

text \<open>The thread has taken the mutex.\<close>

definition demo_held :: fine where
  "demo_held = demo_fine\<lparr>pLogMutex := Some Writer, writer_at := WTest\<rparr>"

lemma demo_held_reach: "freach calm_env n demo_held"
  by (rule reach.move[OF demo_fine_reach fstep.writer])
    (simp add: writer_step_def statement_defs demo_held_def demo_fine_def)

text \<open>
  C4. The block model of the logger is a correct picture of its statements: whatever the
  interleaving of callers and thread, single assignments to the linked queue and to the counter
  included, a state that the statements reach corresponds to a state that the blocks reach, with
  the same file and the same lines, and every statement is one step of the block model or none.
\<close>

theorem log_statements_refine_blocks:
  assumes "freach E n s" and "log_io_ok E"
  shows "\<exists>c as. lreach E n c \<and> simulates n s c as \<and> logfile s = logfile c \<and>
    (pLogMutex s = None \<longrightarrow> map (text_at (heap s)) as = Head c \<and> iDataInQueueCount s = iDataInQueueCount c) \<and>
    (\<forall>t. fstep E n s t \<longrightarrow> (\<exists>c' bs. (lstep E n)\<^sup>=\<^sup>= c c' \<and> simulates n t c' bs))"
proof -
  from freach_simulated[OF assms] obtain c as where c: "lreach E n c" "simulates n s c as" by blast
  note d = simulatesD[OF c(2)]
  have "\<not> writer_in (writer_at s)" if "pLogMutex s = None"
    using d(1) that inside_owner[of n s Writer] by (simp add: memory_ok_def)
  then have "owed (writer_at s) (wWritten s) = 0" if "pLogMutex s = None" using that by (cases "writer_at s") auto
  with d(2,4) fstep_simulated[OF c(2) log_system.inv_reach[OF c(1)] assms(2)] c show ?thesis
    by (intro exI[of _ c] exI[of _ as]) (auto simp: same_vars_def same_lines_def uncounted_def)
qed

theorem log_statements_refine_blocks_witness:
  "\<exists>c as. lreach calm_env 2 c \<and> simulates 2 demo_held c as \<and> logfile c = []"
  using log_statements_refine_blocks[OF demo_held_reach demo_logger_ok(1), of 2]
  by (auto simp: demo_held_def demo_fine_def)

text \<open>
  C12. The queue in memory is safe under every interleaving: at most one thread is between lock
  and unlock; no statement of a caller or of the thread follows a null pointer, touches an entry
  that was freed or frees one twice, although the thread reads the head of the queue without the
  mutex; and nothing is leaked: every allocated entry is in the list or in somebody's hand.
\<close>

theorem log_queue_memory_safe:
  assumes "freach E n s" and "log_io_ok E"
  shows "(\<forall>x \<in> owners n. \<forall>y \<in> owners n. inside s x \<and> inside s y \<longrightarrow> x = y) \<and>
    (\<forall>i < n. \<forall>a junk e t. caller_step i a junk s \<noteq> Fault e t) \<and> (\<forall>e t. writer_step s \<noteq> Fault e t) \<and>
    (\<exists>as. path (heap s) (stqh_first s) as None \<and> dom (heap s) = set as \<union> (\<Union>x \<in> owners n. in_hands s x))"
proof -
  from freach_simulated[OF assms] obtain c as where m: "memory_ok n s as" by (auto simp: simulates_def)
  then have "locks_ok n s" by (simp add: memory_ok_def)
  then have "x = y" if "x \<in> owners n" "y \<in> owners n" "inside s x" "inside s y" for x y
    using inside_owner[of n s x] inside_owner[of n s y] that by simp
  then have "\<forall>x \<in> owners n. \<forall>y \<in> owners n. inside s x \<and> inside s y \<longrightarrow> x = y" by blast
  moreover have "path (heap s) (stqh_first s) as None \<and> dom (heap s) = set as \<union> (\<Union>x \<in> owners n. in_hands s x)"
    using m by (simp add: memory_ok_def heap_ok_def heap_fits_def)
  ultimately show ?thesis by (intro conjI allI impI caller_no_fault[OF m] writer_no_fault[OF m] exI[of _ as]) simp_all
qed

theorem log_queue_memory_safe_witness:
  "inside demo_held Writer \<and> \<not> inside demo_held (Caller 1) \<and> writer_step demo_held \<noteq> Fault NullDereference demo_held"
  using log_queue_memory_safe[OF demo_held_reach demo_logger_ok(1), of 2]
  by (auto simp: demo_held_def demo_fine_def)

text \<open>
  C31. What is left in the queue when the logger stops is released, all of it and each entry once:
  with the thread ended at its polling and no caller under way, the loop ends without a fault and
  nothing is allocated any more. The head keeps the address of the first entry.
\<close>

theorem logger_destroy_frees_queue:
  assumes "freach E n s" and "log_io_ok E" and "writer_at s = WPoll" and "\<forall>i<n. caller_at s i = CIdle"
  shows "\<exists>t. tailq_delete (Suc (card (dom (heap s)))) s = Ret () t \<and> heap t = Map.empty \<and>
    stqh_first t = stqh_first s"
proof -
  from freach_simulated[OF assms(1,2)] obtain c as where m: "memory_ok n s as" by (auto simp: simulates_def)
  then have p: "path (heap s) (stqh_first s) as None" and "dom (heap s) = set as \<union> (\<Union>x \<in> owners n. in_hands s x)"
    by (simp_all add: memory_ok_def heap_ok_def heap_fits_def)
  moreover have "in_hands s x = {}" if "x \<in> owners n" for x using that assms(3,4) by (cases x) auto
  ultimately have d: "dom (heap s) = set as" by simp
  then have "length as < Suc (card (dom (heap s)))" using path_distinct[OF p] by (simp add: distinct_card)
  from delete_loop_run[OF p this] d show ?thesis by (auto simp: tailq_delete_def)
qed

theorem logger_destroy_frees_queue_witness:
  "\<exists>t. tailq_delete (Suc (card (dom (heap demo_fine)))) demo_fine = Ret () t \<and> heap t = Map.empty"
proof -
  have "writer_at demo_fine = WPoll" "\<forall>i<2. caller_at demo_fine i = CIdle" by (simp_all add: demo_fine_def)
  from logger_destroy_frees_queue[OF demo_fine_reach demo_logger_ok(1) this] show ?thesis by blast
qed

text \<open>
  C35. A fork at the wrong moment stops the child for ever: the thread takes the mutex again and
  again to look at the counter; if the process forks while it holds it, the mutex is locked in the
  child, which has no such thread. If the child then makes a log call that passes the level test
  before it unlocks the mutex through \<open>logger_destroy\<close>, the call never returns: at most it gets its
  entry and comes to the mutex, where it has no step left, and its line is never counted.
\<close>

theorem fork_blocks_logger:
  assumes "freach E n s" and "log_io_ok E" and "pLogMutex s = Some Writer" and "i < n"
    and "child_step E i s u" and "caller_at u i = CMalloc m" and "(child_step E i)\<^sup>*\<^sup>* u t"
  shows "pLogMutex t = Some Writer \<and> iDataInQueueCount t = iDataInQueueCount s \<and> caller_at t i \<noteq> CIdle \<and>
    (\<forall>x l. caller_at t i = CLock x l \<longrightarrow> (\<forall>v. \<not> child_step E i t v))"
proof -
  from freach_simulated[OF assms(1,2)] obtain c as where "memory_ok n s as" by (auto simp: simulates_def)
  then have "locks_ok n s" by (simp add: memory_ok_def)
  then have "\<not> caller_in (caller_at s i)"
    using inside_owner[of n s "Caller i"] assms(3,4) by simp
  with assms(3,5,6) have "waiting i (iDataInQueueCount s) u"
    by (elim child_stepE) (cases "caller_at s i"; auto simp: waiting_def caller_step_def statement_defs)+
  with assms(7) have t: "waiting i (iDataInQueueCount s) t" by (rule child.inv_steps)
  then have "\<not> child_step E i t v" if "caller_at t i = CLock x l" for x l v
    using that by (auto elim: waiting_step)
  with t show ?thesis by (simp add: waiting_def)
qed

definition demo_forked :: fine where
  "demo_forked = demo_held\<lparr>stamps := 1, heap := [7 \<mapsto> \<lparr>msg = demo_line, stqe_next = None\<rparr>],
     caller_at := (\<lambda>_. CIdle)(0 := CLock 7 demo_line)\<rparr>"

definition demo_calling :: fine where
  "demo_calling = demo_held\<lparr>stamps := 1, caller_at := (\<lambda>_. CIdle)(0 := CMalloc demo_line)\<rparr>"

lemma demo_forked_steps:
  shows "child_step calm_env 0 demo_held demo_calling" and "(child_step calm_env 0)\<^sup>*\<^sup>* demo_calling demo_forked"
proof -
  let ?u = "demo_held\<lparr>stamps := Suc (stamps demo_held), caller_at := (caller_at demo_held)(0 := CMalloc demo_line)\<rparr>"
  have "child_step calm_env 0 demo_held ?u"
    by (rule child_step.call[where ty = eERROR and u = "''hello''"])
      (simp_all add: demo_held_def demo_fine_def is_msg_allowed_def default_log_settings_def log_full_def
        log_line_doc demo_line_def)
  then show "child_step calm_env 0 demo_held demo_calling" by (simp add: demo_calling_def demo_held_def demo_fine_def)
  have "child_step calm_env 0 demo_calling demo_forked"
    by (rule child_step.caller[where a = 7 and junk = None])
      (simp_all add: caller_step_def statement_defs demo_calling_def demo_forked_def demo_held_def demo_fine_def)
  then show "(child_step calm_env 0)\<^sup>*\<^sup>* demo_calling demo_forked" by simp
qed

theorem fork_blocks_logger_witness:
  "iDataInQueueCount demo_forked = 0 \<and> (\<forall>v. \<not> child_step calm_env 0 demo_forked v)"
proof -
  have held: "pLogMutex demo_held = Some Writer" "iDataInQueueCount demo_held = 0"
    by (simp_all add: demo_held_def demo_fine_def)
  have "caller_at demo_calling 0 = CMalloc demo_line" by (simp add: demo_calling_def)
  from fork_blocks_logger[OF demo_held_reach[of 1] demo_logger_ok(1) held(1) zero_less_one demo_forked_steps(1) this
      demo_forked_steps(2)] held(2)
  show ?thesis by (simp add: demo_forked_def)
qed

end
