(* ===== verification/Logger_Bulk.thy ===== *)
theory Logger_Bulk
  imports Logger_Flush
begin

text \<open>
  Bulk writing: with \<^verbatim>\<open>iBulkWrite\<close> above 0 the thread waits for that many lines, and a flush
  asks it to write fewer. This theory is about lines that arrive while a batch is being written:
  the request to flush them is answered by the end of that batch, which does not have them.
\<close>

section \<open>Lines behind a running batch\<close>

text \<open>
  \<open>behind r s\<close>: the thread is in the middle of a batch, and \<open>r\<close> are the lines that arrived after
  it counted; or the batch is over, they are what is left, and no request to flush is pending.
\<close>

fun behind_at :: "tpc \<Rightarrow> string list \<Rightarrow> int \<Rightarrow> int \<Rightarrow> 'a logger_scheme \<Rightarrow> bool" where
  "behind_at TPoll r todo wr s \<longleftrightarrow>
     \<not> iDoForceFlush s \<and> Head s = r \<and> iDataInQueueCount s = int (length r)"
| "behind_at TOpen r todo wr s \<longleftrightarrow>
     (\<exists>d. d \<noteq> [] \<and> Head s = d @ r \<and> todo = int (length d) \<and> wr = 0 \<and> iDataInQueueCount s = int (length d + length r))"
| "behind_at TPop r todo wr s \<longleftrightarrow>
     (\<exists>d. d \<noteq> [] \<and> Head s = d @ r \<and> todo = int (length d) \<and> iDataInQueueCount s = wr + int (length d + length r))"
| "behind_at (TWrite m) r todo wr s \<longleftrightarrow>
     (\<exists>d. Head s = d @ r \<and> todo = int (length d) + 1 \<and> iDataInQueueCount s = wr + 1 + int (length d + length r))"
| "behind_at TClose r todo wr s \<longleftrightarrow> Head s = r \<and> iDataInQueueCount s = wr + int (length r)"
| "behind_at TUpdate r todo wr s \<longleftrightarrow> Head s = r \<and> iDataInQueueCount s = wr + int (length r)"

definition behind :: "string list \<Rightarrow> 'a logger_scheme \<Rightarrow> bool" where
  "behind r s \<longleftrightarrow> int (length r) \<le> iBulkWrite (sCurrLogSettings s) \<and>
     (\<exists>l. LoggerThread s = Some l \<and> 0 \<le> iDataWritten l \<and> behind_at (pc l) r (iDataToWrite l) (iDataWritten l) s)"

lemma behind_naps [simp]: "behind r (s\<lparr>naps := n\<rparr>) = behind r s"
proof -
  have "behind_at p r a b (s\<lparr>naps := n\<rparr>) = behind_at p r a b s" for p a b by (cases p) simp_all
  then show ?thesis by (simp add: behind_def)
qed

lemma behind_queue: "behind r s \<Longrightarrow> \<exists>d. Head s = d @ r"
  unfolding behind_def by (elim conjE exE; rename_tac l; case_tac "pc l") auto

lemma behind_step:
  assumes "log_io_ok E" and "behind r s"
  shows "\<exists>t. logger_thread_step E s = Ret () t \<and> behind r t"
proof -
  from assms(1) have ok [simp]: "\<And>n. lres E n = 0" by (simp add: log_io_ok_def)
  from assms(2) obtain l where l: "int (length r) \<le> iBulkWrite (sCurrLogSettings s)" "LoggerThread s = Some l"
    "0 \<le> iDataWritten l" "behind_at (pc l) r (iDataToWrite l) (iDataWritten l) s" by (auto simp: behind_def)
  note thread_defs = logger_thread_step_def goto_def behind_def
  show ?thesis
  proof (cases "pc l")
    case TPoll
    with l show ?thesis by (simp add: thread_defs thread_poll_def)
  next
    case TOpen
    with l show ?thesis by (auto simp: thread_defs thread_open_def)
  next
    case TPop
    with l obtain m d where d: "Head s = m # d @ r" "iDataToWrite l = int (length d) + 1"
      "iDataInQueueCount s = iDataWritten l + 1 + int (length d + length r)" by (auto simp: neq_Nil_conv)
    with l TPop show ?thesis
      by (simp add: thread_defs thread_pop_def STAILQ_FIRST_def STAILQ_REMOVE_HEAD_def)
  next
    case (TWrite m)
    with l obtain d where d: "Head s = d @ r" "iDataToWrite l = int (length d) + 1"
      "iDataInQueueCount s = iDataWritten l + 1 + int (length d + length r)" by auto
    with l TWrite show ?thesis by (cases d) (simp_all add: thread_defs thread_write_def)
  next
    case TClose
    with l show ?thesis by (simp add: thread_defs thread_close_def)
  next
    case TUpdate
    with l show ?thesis by (simp add: thread_defs thread_update_def)
  qed
qed

lemma behind_run:
  assumes "log_io_ok E" and "behind r s"
  shows "\<exists>t. thread_run E n s = Ret () t \<and> behind r t"
  using assms(2)
proof (induction n arbitrary: s)
  case (Suc n)
  from behind_step[OF assms(1) Suc.prems] obtain u where "logger_thread_step E s = Ret () u" "behind r u" by blast
  with Suc.IH[of u] show ?case by simp
qed simp

lemma behind_flush_loop:
  assumes "log_io_ok E" and "behind r s"
  shows "\<exists>t. flush_loop E n s = Ret () t \<and> behind r t"
  using assms(2)
proof (induction n arbitrary: s)
  case (Suc n)
  show ?case
  proof (cases "iDataInQueueCount s = 0")
    case True
    with Suc.prems show ?thesis by simp
  next
    case False
    have "behind r (s\<lparr>naps := Suc (naps s)\<rparr>)" using Suc.prems by simp
    from behind_run[OF assms(1) this] obtain u where
      "thread_run E (sched E (naps s)) (s\<lparr>naps := Suc (naps s)\<rparr>) = Ret () u" "behind r u" by blast
    with False Suc.IH[of u] show ?thesis by (simp add: usleep_nap_def)
  qed
qed simp

section \<open>Properties\<close>

text \<open>
  C36. A flush can come back without having flushed, however much time the thread gets: when the
  thread is writing a batch, and the lines that arrived since it counted are no more than
  \<^verbatim>\<open>iBulkWrite\<close>, then the end of the batch clears the request, and \<^verbatim>\<open>logger_flush\<close> reports
  success while all of those lines are still in the queue.
\<close>

theorem logger_flush_request_lost:
  assumes "log_io_ok E" and "behind r s" and "LoggerThread s = Some l" and "pc l \<noteq> TPoll"
  shows "\<exists>t d. logger_flush E s = Ret LOG_EXIT_SUCCESS t \<and> Head t = d @ r"
proof -
  have "behind_at (pc l) r a b (s\<lparr>iDoForceFlush := True\<rparr>) = behind_at (pc l) r a b s" for a b
    using assms(4) by (cases "pc l") simp_all
  with assms(2,3) have "behind r (s\<lparr>iDoForceFlush := True\<rparr>)" by (simp add: behind_def)
  from behind_flush_loop[OF assms(1) this, of 20] obtain t where
    t: "flush_loop E 20 (s\<lparr>iDoForceFlush := True\<rparr>) = Ret () t" "behind r t" by blast
  from behind_queue[OF t(2)] t(1) show ?thesis by (auto simp: logger_flush_def simp del: flush_loop.simps)
qed

definition demo_bulk :: logger where
  "demo_bulk = demo_logger\<lparr>sCurrLogSettings := default_log_settings\<lparr>iBulkWrite := 10\<rparr>, Head := [''late''],
     iDataInQueueCount := 3, LoggerThread := Some \<lparr>pc = TUpdate, iDataToWrite = 0, iDataWritten = 2\<rparr>\<rparr>"

theorem logger_flush_request_lost_witness:
  "\<exists>t d. logger_flush calm_env demo_bulk = Ret LOG_EXIT_SUCCESS t \<and> Head t = d @ [''late'']"
proof (rule logger_flush_request_lost[OF demo_logger_ok(1)])
  show "behind [''late''] demo_bulk" by (simp add: behind_def demo_bulk_def)
  show "LoggerThread demo_bulk = Some \<lparr>pc = TUpdate, iDataToWrite = 0, iDataWritten = 2\<rparr>"
    by (simp add: demo_bulk_def)
qed simp

end
