(* ===== verification/Spec2Isabelle.thy ===== *)
theory Spec2Isabelle
  imports Main_Failures Worker_Serving Worker_Monitor Logger_Refinement Logger_Bulk
begin

text \<open>
  \<^bold>\<open>cewserver, a small web server in C: a verification development.\<close>

  The server (\<^verbatim>\<open>src/src\<close>, headers in \<^verbatim>\<open>src/include\<close>) is a master process and
  a number of worker processes. The master reads its settings, starts a logger, forks the workers,
  opens a listening socket, and passes every accepted connection to one of the workers over a
  unix socket. A worker runs an event loop in which it reads one request from each client, answers
  it with a file from disk, and closes the connection. Each process has its own logger: a queue
  and a thread that writes it to a file.

  \<^bold>\<open>How the code is modelled.\<close> A function of the code is a definition of type
  \<open>('s, 'a) prog\<close>, which maps the state of one process to an outcome: a returned value, the end
  of the process, undefined behaviour (a \<open>fault\<close>: null pointer, use after free, double free, a
  read or write out of bounds, a missing format argument, division by zero, signed overflow), or
  never getting further. The state is a record that grows with the components (\<open>base\<close>,
  \<open>logger\<close>, \<open>settings\<close>, \<open>clients\<close>, \<open>worker\<close>, \<open>server\<close>), so that the functions of a
  component work on every larger state. Everything outside the repository (kernel, libc where it
  talks to the kernel, libev, the string library sds, the ini reader) is a parameter: an
  environment \<open>env\<close> answers each call, knowing the history of calls, and what the
  documentation of sds and of the reader promises are the hypotheses \<open>sds_doc\<close> and
  \<open>ini_file\<close>. A theorem that needs calls to succeed says so in a named predicate
  (\<open>log_io_ok\<close>, \<open>start_ok\<close>, \<open>listen_ok\<close>, \<open>worker_start_ok\<close>, \<open>daemon_ok\<close>, \<open>service_ok\<close>); one about a
  failing call names it (\<open>fork_fails\<close>, \<open>port_taken\<close>).

  \<^bold>\<open>The theories.\<close>
  \<^item> \<^verbatim>\<open>Prelude\<close>: outcomes, sequencing, the frame predicates \<open>keeps\<close>, \<open>preserves\<close>,
    \<open>ensures\<close> with their rules, reachability, the locale \<open>inductive_invariant\<close>.
  \<^item> \<^verbatim>\<open>CLib\<close>: C strings, \<^verbatim>\<open>strtol\<close>, decimal printing, formats, the one regular
    expression; \<^verbatim>\<open>Extern\<close>: calls, environments, sds.
  \<^item> \<^verbatim>\<open>Logger\<close> (\<^verbatim>\<open>cew_logger.c\<close>): queue, callers, the thread as a step function
    with one step per block of its loop, flush, start, stop. \<^verbatim>\<open>Logger_Concurrency\<close>: callers
    and thread interleaved, as a transition system; no line is lost or reordered, the system
    refines an abstract log, the thread never takes from an empty queue, the queue is bounded. The
    queue is used through the locale \<open>fifo\<close>. \<^verbatim>\<open>Logger_Flush\<close>: flushing and stopping,
    what logging leaves alone (\<open>outside_log\<close>), the state of a logger in order (\<open>log_sane\<close>),
    that stopping returns under every schedule, and the locale \<open>call_invariant\<close>.
    \<^verbatim>\<open>Logger_Threads\<close>: the same code statement by statement, with the queue of
    \<^verbatim>\<open>sys/queue.h\<close> as linked entries in a heap, the mutex with its owner, and the counter
    loaded and stored; the invariant \<open>memory_ok\<close> of that memory. \<^verbatim>\<open>Logger_Refinement\<close>: every
    statement is a step of the blocks above or none, mutual exclusion, no entry is used after it is
    freed or leaked, releasing the queue, and what a fork does to a process whose mutex is held.
    \<^verbatim>\<open>Logger_Bulk\<close>: a flush requested during a bulk write is forgotten.
  \<^item> \<^verbatim>\<open>Settings\<close> (\<^verbatim>\<open>cew_settings.c\<close>): the option table, reading a file,
    refinement of \<open>apply_file\<close> for every way the reader can end, and the round trip of all five
    settings through a file.
  \<^item> \<^verbatim>\<open>Http\<close> (\<^verbatim>\<open>cew_http.c\<close>): a request is answered with \<open>http_answer\<close> of the
    request and the file system; the regular expression is equivalent to \<open>requested\<close>.
  \<^item> \<^verbatim>\<open>Client\<close> (\<^verbatim>\<open>cew_client.c\<close>): registration, callbacks, removal over an
    explicit heap of client structures; the invariant of the worker's event loop.
  \<^item> \<^verbatim>\<open>Worker\<close> (\<^verbatim>\<open>cew_worker.c\<close>): the table of workers, passing descriptors,
    routing (round robin across the wrap of its 32-bit counter), cleaning up.
    \<^verbatim>\<open>IPC_Handshake\<close>: how master and worker meet at a socket file, as two processes under an
    arbitrary schedule. \<^verbatim>\<open>Worker_Process\<close>: the life of a worker, starting the workers.
    \<^verbatim>\<open>Worker_Serving\<close>: the event loop of a worker is an abstract service (\<open>service_step\<close>) for
    any order of arriving descriptors, requests, hang-ups and timeouts, and no descriptor is lost.
    \<^verbatim>\<open>Worker_Monitor\<close>: the monitor counts the living workers and never ends.
    \<^verbatim>\<open>Log_Budget\<close>: how many lines a function can put into the log queue (\<open>budget\<close>), computed
    along its structure; after the start there is room for an error message, which no level
    keeps out.
  \<^item> \<^verbatim>\<open>Socket_Server\<close> (\<^verbatim>\<open>cew_socket.c\<close>): opening, accepting, closing, and the locales
    \<open>table_invariant\<close> and \<open>master_invariant\<close>: an invariant that does not look at the table, the
    socket and the settings is kept by every operation of the master. They are interpreted on
    \<open>log_sane\<close>, on \<open>quiet\<close> (a process without the logger's thread writes nothing) and on
    \<open>grown\<close> (calls are never forgotten).
  \<^item> \<^verbatim>\<open>Process_Exit\<close> (\<^verbatim>\<open>cew_exit.c\<close>): the clean-up of everything, which ends under
    every schedule.
  \<^item> \<^verbatim>\<open>Main_Server\<close> (\<^verbatim>\<open>cew_main.c\<close>): the daemon, the seed, the main function with its
    event loop. Here the components meet: a complete run of the program from its start to its exit,
    with every string freed at its end, the daemon whose master process has lost its logger, and the safety of the loop
    with the logger's thread interleaved. \<^verbatim>\<open>Main_Failures\<close>: the run without a settings file; the run
    in which a worker cannot be forked and the run whose port is taken, which both end in undefined
    behaviour at their error message, with workers left behind.
  \<^item> This theory: master and worker together, from the \<^verbatim>\<open>accept\<close> of a client to the answer it
    gets from its worker.

  \<^bold>\<open>Bounds and fuel.\<close> Loops that only the outside world ends are given \<open>fuel E\<close> rounds, an
  arbitrary number, and are \<open>Stuck\<close> when it runs out: the wait for a socket file, draining a
  client's socket, the loops over an ini file, the monitor. Theorems about them state how many
  rounds are enough, or that none is (\<^verbatim>\<open>client_drain_never_ends\<close>). The twenty naps of
  \<^verbatim>\<open>logger_flush\<close> are those of the code; joining the logger's thread is given two steps per
  queued line and six, which \<open>cancel_and_join_returns\<close> shows to be enough from every state of a
  logger in order. Event loops take the list of events as an argument, since libev chooses them.
  Integers whose wrap-around matters are words: the routing counter and the number of workers
  (32 bits), the port (16), the settings and the file limit (64).

  Where the numbers stay far below the limits of the C types they are unbounded: the counter, the
  queue size and the bulk size of the logger (\<^verbatim>\<open>int32_t\<close> in the code; the counter passes the
  queue size by at most the number of callers).

  \<^bold>\<open>Simplified.\<close> \<^verbatim>\<open>errno\<close> is one variable of the process, although each thread has its own;
  no theorem depends on a value that the logger's thread leaves there. \<open>logger_destroy\<close> leaves an
  empty queue, where the code keeps the head pointing at freed entries until the next
  \<^verbatim>\<open>logger_init\<close>; \<open>tailq_delete\<close> of \<^verbatim>\<open>Logger_Threads\<close> keeps that pointer. Passing libev's default
  loop to \<^verbatim>\<open>free\<close> after \<^verbatim>\<open>ev_loop_destroy\<close> is the fault \<open>DoubleFree\<close>; its storage is static in
  some versions, and the call is undefined either way. The size of a file is what the answer
  to \<^verbatim>\<open>fstat\<close> says, also if that call fails, since the code does not look. The kernel of
  \<^verbatim>\<open>IPC_Handshake\<close> for the race (\<open>ipc_kernel\<close>) is a concrete one: a connection is refused until
  the other side listens.

  \<^bold>\<open>Not modelled.\<close> A failing \<^verbatim>\<open>malloc\<close> for log entries (for a client it is a
  fault, as the code does not test it); the bytes a pointer reads after a fault; the order in which
  the kernel delivers two signals; the padding of the control message in
  \<^verbatim>\<open>send_fd_to_worker\<close>; file sizes below zero. A fork is one call whose answer decides which
  process is meant; the two processes are put together in \<^verbatim>\<open>IPC_Handshake\<close>, in
  \<^verbatim>\<open>Logger_Refinement\<close> (the child of a process with two threads) and in this theory. Inside
  one process the logger's thread makes its steps while the process naps; it is interleaved with
  the callers in \<^verbatim>\<open>Logger_Concurrency\<close>, statement by statement in \<^verbatim>\<open>Logger_Threads\<close>, and
  with the master's events in \<open>master_step\<close>. Memory is sequentially consistent: the code keeps the
  shared variables under one mutex, but for reads of the counter, of the flush request and of the
  head of the queue. The tests under \<^verbatim>\<open>src/test\<close>, the macros of \<^verbatim>\<open>banned.h\<close>,
  the output without a queue (\<^verbatim>\<open>LOGGER_DEBUG_SHOW_ON_TERMINAL_NO_QUEUE\<close>, not compiled in), the
  commented-out \<^verbatim>\<open>worker_dummy_send\<close>, and the build files have no definitions here.
\<close>

section \<open>From an accepted client to its answer\<close>

text \<open>
  The descriptors \<^verbatim>\<open>accept\<close> gives the master in \<open>m\<close> client events, failed ones left
  out, and the descriptors that were sent over a connection.
\<close>

fun accepted_fds :: "env \<Rightarrow> int \<Rightarrow> (nat \<Rightarrow> int) \<Rightarrow> nat \<Rightarrow> nat \<Rightarrow> call list \<Rightarrow> int list" where
  "accepted_fds E lfd target k 0 h = []"
| "accepted_fds E lfd target k (Suc m) h =
     (let fd = sr_val (os E h (Accept lfd)) in
      if fd = -1 then accepted_fds E lfd target k m (h @ [Accept lfd])
      else fd # accepted_fds E lfd target (Suc k) m (h @ [Accept lfd, Sendmsg_fd (target k) fd]))"

fun passed :: "int \<Rightarrow> call list \<Rightarrow> int list" where
  "passed conn [] = []"
| "passed conn (c # cs) = (case c of
     Sendmsg_fd d fd \<Rightarrow> (if d = conn then [fd] else []) | _ \<Rightarrow> []) @ passed conn cs"

lemma passed_append [simp]: "passed conn (xs @ ys) = passed conn xs @ passed conn ys"
  by (induction xs) simp_all

lemma passed_trace:
  "passed conn (serve_trace E lfd target k m h) = passed conn h @
     map (\<lambda>j. accepted_fds E lfd target k m h ! j)
       (filter (\<lambda>j. target (k + j) = conn) [0..<length (accepted_fds E lfd target k m h)])"
proof (induction E lfd target k m h rule: accepted_fds.induct)
  case (2 E lfd target k m h)
  have shift: "[0..<Suc n] = 0 # map Suc [0..<n]" for n by (simp add: upt_conv_Cons map_Suc_upt del: upt_Suc)
  define fd where "fd = sr_val (os E h (Accept lfd))"
  show ?case
  proof (cases "fd = -1")
    case True
    with 2(1) show ?thesis by (simp add: Let_def flip: fd_def)
  next
    case False
    define acc where "acc = accepted_fds E lfd target (Suc k) m (h @ [Accept lfd, Sendmsg_fd (target k) fd])"
    have "passed conn (serve_trace E lfd target (Suc k) m (h @ [Accept lfd, Sendmsg_fd (target k) fd])) =
      passed conn (h @ [Accept lfd, Sendmsg_fd (target k) fd]) @
        map (\<lambda>j. acc ! j) (filter (\<lambda>j. target (Suc k + j) = conn) [0..<length acc])"
      using 2(2)[OF fd_def[unfolded fd_def] False[unfolded fd_def]] unfolding acc_def fd_def .
    with False show ?thesis
      by (simp add: Let_def shift filter_map o_def flip: fd_def acc_def del: upt_Suc)
  qed
qed simp

lemma nth_filter_index:
  assumes "k < length xs" and "P (xs ! k)"
  shows "length (filter P (take k xs)) < length (filter P xs)"
    and "filter P xs ! length (filter P (take k xs)) = xs ! k"
proof -
  from assms(2) have "filter P xs = filter P (take k xs) @ xs ! k # filter P (drop (Suc k) xs)"
    by (subst id_take_nth_drop[OF assms(1)]) simp
  then show "length (filter P (take k xs)) < length (filter P xs)"
    and "filter P xs ! length (filter P (take k xs)) = xs ! k" by simp_all
qed

lemma passed_round_robin:
  assumes "0 < n" and "k < length acc"
    and "\<And>j. (target j = target k) = (j mod n = k mod n)"
  shows "k div n < length (map (\<lambda>j. acc ! j) (filter (\<lambda>j. target j = target k) [0..<length acc]))"
    and "map (\<lambda>j. acc ! j) (filter (\<lambda>j. target j = target k) [0..<length acc]) ! (k div n) = acc ! k"
proof -
  let ?P = "\<lambda>j. target j = target k" and ?xs = "[0..<length acc]"
  have "length (filter ?P (take k ?xs)) = card {j. j < k \<and> j mod n = k mod n}"
  proof -
    have "filter ?P (take k ?xs) = filter (\<lambda>j. j mod n = k mod n) [0..<k]" using assms(2,3) by simp
    moreover have "{i. i < k \<and> [0..<k] ! i mod n = k mod n} = {j. j < k \<and> j mod n = k mod n}" by auto
    ultimately show ?thesis by (simp add: length_filter_conv_card)
  qed
  also have "\<dots> = k div n" using mod_class_count[of n "k mod n" k] assms(1) by simp
  finally have "length (filter ?P (take k ?xs)) = k div n" .
  with nth_filter_index[of k ?xs ?P] assms(2)
  show "k div n < length (map (\<lambda>j. acc ! j) (filter ?P ?xs))"
    and "map (\<lambda>j. acc ! j) (filter ?P ?xs) ! (k div n) = acc ! k" by simp_all
qed

text \<open>What the master has sent over the connection of client \<open>k\<close>, and which of it is that client.\<close>

lemma master_passes:
  fixes s :: "'a server_scheme"
  assumes "sds_doc E" and "workers_up n s" and "NextWorker s = -1"
    and "distinct (map (route_target n s) [0..<n])"
    and "passed (route_target n s k) (hist s) = []"
    and "k < length (accepted_fds E (iFd s) (route_target n s) 0 m (hist s))"
  shows "\<exists>t. ev_run_master E (replicate m MClient @ MSigint # evs) s = Ret () t \<and>
    k div n < length (passed (route_target n s k) (hist t)) \<and>
    passed (route_target n s k) (hist t) ! (k div n) =
      accepted_fds E (iFd s) (route_target n s) 0 m (hist s) ! k"
proof -
  let ?T = "route_target n s"
  define acc where "acc = accepted_fds E (iFd s) ?T 0 m (hist s)"
  have "NextWorker s = next_after n 0" using assms(3) by (simp add: next_after_def)
  from client_events[OF assms(1,2) this, of m "MSigint # evs"] obtain u where
    u: "ev_run_master E (replicate m MClient @ MSigint # evs) s = ev_run_master E (MSigint # evs) u"
    "hist u = serve_trace E (iFd s) ?T 0 m (hist s)" by blast
  from u(1) obtain t where t: "ev_run_master E (replicate m MClient @ MSigint # evs) s = Ret () t"
    "hist t = hist u @ [Ev_break]" by (simp add: callback_exitsig_def)
  have n: "0 < n" using assms(2) by (simp add: workers_up_def)
  have "?T j = ?T (j mod n)" for j by (simp add: route_target_def)
  moreover have "(?T (j mod n) = ?T (k mod n)) = (j mod n = k mod n)" for j
    using nth_eq_iff_index_eq[OF assms(4), of "j mod n" "k mod n"] n by simp
  ultimately have tgt: "(?T j = ?T k) = (j mod n = k mod n)" for j by metis
  have "passed (?T k) (hist t) = map (\<lambda>j. acc ! j) (filter (\<lambda>j. ?T j = ?T k) [0..<length acc])"
    using passed_trace[of "?T k" E "iFd s" ?T 0 m "hist s"] t(2) u(2) assms(5) by (simp add: acc_def)
  with passed_round_robin[OF n assms(6)[folded acc_def] tgt] t(1) show ?thesis by (auto simp: acc_def)
qed

text \<open>
  C2. Every accepted client is answered: after \<open>m\<close> client events of the master, with \<open>n\<close>
  workers up, the \<open>k\<close>-th accepted client is the one that worker \<open>k mod n\<close> receives as its
  \<open>(k div n)\<close>-th; and once the worker's loop has received that many descriptors and the client
  has sent its request before its timer ran out, the worker sends exactly the answer to that
  request on the client's descriptor and closes it. Worker and master may do anything else in
  between, for the other clients and in any order. The kernel gives the descriptor in the worker a
  number of its own, \<open>dup fd\<close>.
\<close>

theorem accepted_client_answered:
  fixes s :: "'a server_scheme" and u :: "'b server_scheme"
  assumes "sds_doc E" and "workers_up n s" and "NextWorker s = -1"
    and "distinct (map (route_target n s) [0..<n])" and "passed (route_target n s k) (hist s) = []"
    and "k < length (accepted_fds E (iFd s) (route_target n s) 0 m (hist s))"
    and "ev_run_master E (replicate m MClient @ MSigint # mevs) s = Ret () t"
    and "service_ok W wfd (map dup (passed (route_target n s k) (hist t))) inbox ffd fs"
    and "serving (k mod n) w (map dup (passed (route_target n s k) (hist t))) u"
    and "iWorkerIPCfd w = wfd" and "Recvmsg_fd wfd \<notin> set (hist u)"
    and "k div n < ipc_count pre" and "a = fresh_addr u + k div n"
    and "set pre \<inter> {EvReadable a, EvTimeout a, EvSigint} = {}" and "EvSigint \<notin> set post"
  shows "\<exists>v h h'. ev_run_worker W (k mod n) (pre @ EvReadable a # post) u = Stuck v \<and>
    filter client_effect (hist v) = h @ serve_client inbox fs h
      (dup (accepted_fds E (iFd s) (route_target n s) 0 m (hist s) ! k)) @ h'"
proof -
  let ?fds = "map dup (passed (route_target n s k) (hist t))"
  let ?fd = "dup (accepted_fds E (iFd s) (route_target n s) 0 m (hist s) ! k)"
  let ?evs = "pre @ EvReadable a # post"
  from master_passes[OF assms(1-6), of mevs] assms(7)
  have k: "k div n < length ?fds" "?fds ! (k div n) = ?fd" by auto
  have "EvSigint \<notin> set ?evs" using assms(14,15) by auto
  from loop_is_service[OF assms(8-10) this, of "[]"] obtain v where
    v: "ev_run_worker W (k mod n) ?evs u = Stuck v"
    "service_of ?fds wfd v = fold (service_step inbox fs) ?evs (service_of ?fds wfd u)" by auto
  have "arriving (service_of ?fds wfd u) = ?fds" "next_client (service_of ?fds wfd u) = fresh_addr u"
    using assms(11) by (simp_all add: service_of_def)
  from service_answers[OF this k(1) assms(12), of inbox fs post] assms(13,14) k(2) v(2) obtain h h' where
    "effects (service_of ?fds wfd v) = h @ serve_client inbox fs h ?fd @ h'" by auto
  with v(1) show ?thesis by (auto simp: service_of_def)
qed

definition demo_accepting :: env where
  "demo_accepting = calm_env\<lparr>os := \<lambda>h c. \<lparr>sr_val = (case c of Accept _ \<Rightarrow> 20 + int (length h) | _ \<Rightarrow> 0),
     sr_errno = 0, sr_data = []\<rparr>\<rparr>"

theorem accepted_client_answered_witness:
  "\<exists>v h h'. ev_run_worker demo_serving 0 [EvIpc, EvIpc, EvTimeout 5, EvReadable 6] (demo_server [Some demo_self] 1 0) = Stuck v \<and>
    filter client_effect (hist v) = h @ serve_client demo_inbox demo_fs h 10 @ h'"
proof -
  let ?s = "demo_server [Some (demo_entry 20), Some (demo_entry 30)] 2 3" and ?u = "demo_server [Some demo_self] 1 0"
  have doc: "sds_doc demo_accepting" by (simp add: demo_accepting_def calm_env_def documented_sds_def sds_doc_def)
  have s: "workers_up 2 ?s" "NextWorker ?s = -1" "hist ?s = []" "iFd ?s = 3"
    by (auto simp: workers_up_def demo_server_def WORKER_MAX_WORKERS_def numeral_2_eq_2 less_Suc_eq)
  have T: "route_target 2 ?s k = (if even k then 21 else 31)" for k
    by (simp add: route_target_def demo_server_def demo_entry_def mod_2_eq_odd)
  have dist: "distinct (map (route_target 2 ?s) [0..<2])" by (simp add: T upt_rec)
  have acc: "accepted_fds demo_accepting (iFd ?s) (route_target 2 ?s) 0 3 (hist ?s) = [20, 22, 24]"
    by (simp add: s T numeral_3_eq_3 demo_accepting_def)
  have no: "passed (route_target 2 ?s 2) (hist ?s) = []" by (simp add: s)
  have "NextWorker ?s = next_after 2 0" using s(2) by (simp add: next_after_def)
  from client_events[OF doc s(1) this, of 3 "[MSigint]"] obtain t where
    t: "ev_run_master demo_accepting (replicate 3 MClient @ [MSigint]) ?s = Ret () t"
    "hist t = serve_trace demo_accepting (iFd ?s) (route_target 2 ?s) 0 3 (hist ?s) @ [Ev_break]"
    by (auto simp: callback_exitsig_def)
  have fds: "map (\<lambda>x. if x = 20 then 9 else 10) (passed (route_target 2 ?s 2) (hist t)) = [9, 10]"
    unfolding t(2) passed_append passed_trace acc by (simp add: s T upt_rec numeral_3_eq_3)
  have "serving (2 mod 2) demo_self (map (\<lambda>x. if x = 20 then 9 else 10) (passed (route_target 2 ?s 2) (hist t))) ?u"
    using demo_serving_start(1) by simp
  from accepted_client_answered[OF doc s(1,2) dist no _ t(1) demo_serving_ok[folded fds] this demo_serving_start(2),
      of "[EvIpc, EvIpc, EvTimeout 5]" 6 "[]"]
  show ?thesis unfolding acc by (simp add: demo_server_def ipc_count_def)
qed

end
